(* ===== verification/Prelude.thy ===== *)
theory Prelude
  imports Main "HOL-Library.AList" "HOL-Library.Word" "HOL-Library.Monad_Syntax"
begin

text \<open>
  Shared vocabulary of the development: Go maps, Go errors and panics, loops whose body may
  panic, and the part of the packages strings and strconv that the sources use.

  A Go map is an association list whose keys are distinct (\<open>wf_gomap\<close>).  The order of the list
  stands for the order in which one \<^verbatim>\<open>range\<close> loop happens to enumerate the map, so a
  theorem that is stated for every such list holds for every iteration order.  A nil map is the
  empty list where the sources do not distinguish the two, and \<open>None\<close> where they do.

  A function that may panic returns an option; \<open>None\<close> is the panic, which unwinds the goroutine.
  An error result is an \<open>go_error option\<close> (\<open>None\<close> is nil) or the left summand of a sum.
\<close>

named_theorems gomap_simps \<open>lookups in updated Go maps\<close>
named_theorems go_string \<open>facts on the string functions of the Go library\<close>

type_synonym go_error = string
type_synonym ('k, 'v) gomap = "('k \<times> 'v) list"

section \<open>Go maps\<close>

definition wf_gomap :: "('k, 'v) gomap \<Rightarrow> bool" where
  "wf_gomap m \<longleftrightarrow> distinct (map fst m)"

abbreviation gm_get :: "('k, 'v) gomap \<Rightarrow> 'k \<Rightarrow> 'v option" where
  "gm_get m k \<equiv> map_of m k"

abbreviation gm_put :: "('k, 'v) gomap \<Rightarrow> 'k \<Rightarrow> 'v \<Rightarrow> ('k, 'v) gomap" where
  "gm_put m k v \<equiv> AList.update k v m"

abbreviation gm_del :: "('k, 'v) gomap \<Rightarrow> 'k \<Rightarrow> ('k, 'v) gomap" where
  "gm_del m k \<equiv> AList.delete k m"

abbreviation gm_has :: "('k, 'v) gomap \<Rightarrow> 'k \<Rightarrow> bool" where
  "gm_has m k \<equiv> map_of m k \<noteq> None"

text \<open>\<^verbatim>\<open>m[k]\<close> on a slice-valued map: a missing key reads as the nil slice.\<close>

definition gm_slice :: "('k, 'v list) gomap \<Rightarrow> 'k \<Rightarrow> 'v list" where
  "gm_slice m k = (case gm_get m k of None \<Rightarrow> [] | Some vs \<Rightarrow> vs)"

text \<open>\<^verbatim>\<open>reflect.DeepEqual\<close> on two non-nil maps: the same keys with equal values.\<close>

definition gm_eq :: "('k, 'v) gomap \<Rightarrow> ('k, 'v) gomap \<Rightarrow> bool" where
  "gm_eq m n \<longleftrightarrow> list_all (\<lambda>k. gm_get m k = gm_get n k) (map fst m @ map fst n)"

lemma gm_eq_iff [gomap_simps]: "gm_eq m n \<longleftrightarrow> map_of m = map_of n"
proof
  assume eq: "gm_eq m n"
  show "map_of m = map_of n"
  proof
    fix k
    show "map_of m k = map_of n k"
    proof (cases "k \<in> set (map fst m @ map fst n)")
      case True
      with eq show ?thesis unfolding gm_eq_def list_all_iff by blast
    next
      case False
      then have "map_of m k = None" "map_of n k = None" by (auto simp: map_of_eq_None_iff)
      then show ?thesis by simp
    qed
  qed
qed (simp add: gm_eq_def list_all_iff)

lemma map_of_put [gomap_simps, simp]: "map_of (gm_put m k v) = (map_of m)(k \<mapsto> v)"
  by (rule update_conv')

lemma map_of_del [gomap_simps, simp]: "map_of (gm_del m k) = (map_of m)(k := None)"
  by (rule delete_conv')

lemma wf_gomap_Nil [simp]: "wf_gomap []"
  by (simp add: wf_gomap_def)

lemma wf_gomap_Cons [simp]:
  "wf_gomap ((k, v) # m) \<longleftrightarrow> map_of m k = None \<and> wf_gomap m"
  by (auto simp: wf_gomap_def map_of_eq_None_iff)

lemma wf_gomap_put [simp]: "wf_gomap m \<Longrightarrow> wf_gomap (gm_put m k v)"
  by (simp add: wf_gomap_def distinct_update)

lemma wf_gomap_del [simp]: "wf_gomap m \<Longrightarrow> wf_gomap (gm_del m k)"
  by (simp add: wf_gomap_def distinct_delete)

lemma wf_gomap_mem: "wf_gomap m \<Longrightarrow> (k, v) \<in> set m \<longleftrightarrow> map_of m k = Some v"
  by (simp add: wf_gomap_def)

lemma wf_gomap_append_notin:
  "wf_gomap (xs @ (k, v) # ys) \<Longrightarrow> k \<notin> fst ` set xs"
  by (simp add: wf_gomap_def)

lemma gm_empty_iff: "m = [] \<longleftrightarrow> map_of m = Map.empty"
  by simp

lemma gm_slice_put [gomap_simps]:
  "gm_slice (gm_put m k vs) k' = (if k' = k then vs else gm_slice m k')"
  by (simp add: gm_slice_def)

lemma map_of_fold_put:
  "wf_gomap xs \<Longrightarrow> map_of (fold (\<lambda>(k, v) m. gm_put m k v) xs m) = map_of m ++ map_of xs"
proof (induction xs arbitrary: m)
  case (Cons x xs)
  then show ?case by (cases x) (auto simp: fun_eq_iff map_add_def split: option.splits)
qed simp

text \<open>Two maps with the same content give the same set of entries, whatever the order.\<close>

lemma wf_gomap_set_eq:
  "wf_gomap m \<Longrightarrow> wf_gomap n \<Longrightarrow> map_of m = map_of n \<Longrightarrow> set m = set n"
  unfolding wf_gomap_def by (metis map_of_inject_set)

text \<open>Ranging over a map that may be nil.\<close>

definition range_map :: "('k, 'v) gomap option \<Rightarrow> ('k, 'v) gomap" where
  "range_map m = (case m of None \<Rightarrow> [] | Some l \<Rightarrow> l)"

definition DeepEqual_maps :: "('k, 'v) gomap option \<Rightarrow> ('k, 'v) gomap option \<Rightarrow> bool" where
  "DeepEqual_maps a b =
     (case (a, b) of (None, None) \<Rightarrow> True | (Some m, Some n) \<Rightarrow> gm_eq m n | _ \<Rightarrow> False)"

lemma DeepEqual_maps_equivp: "equivp DeepEqual_maps"
  by (rule equivpI)
    (auto simp: DeepEqual_maps_def gm_eq_iff reflp_def symp_def transp_def split: option.splits)

lemma DeepEqual_maps_map_of: "DeepEqual_maps a b \<Longrightarrow> map_of (range_map a) = map_of (range_map b)"
  by (auto simp: DeepEqual_maps_def range_map_def gm_eq_iff split: option.splits)

section \<open>Sets of strings\<close>

text \<open>
  \<^verbatim>\<open>sets.String\<close> is a list without repetitions; the order is the order of
  \<^verbatim>\<open>UnsortedList\<close>.
\<close>

abbreviation str_insert :: "'a \<Rightarrow> 'a list \<Rightarrow> 'a list" where
  "str_insert \<equiv> List.insert"

lemma set_fold_insert:
  "set (fold (\<lambda>x st. if P x then str_insert (f x) st else st) xs st) = set st \<union> f ` {x \<in> set xs. P x}"
  by (induction xs arbitrary: st) auto

section \<open>Loops whose body may panic\<close>

fun foldM :: "('a \<Rightarrow> 's \<Rightarrow> 's option) \<Rightarrow> 'a list \<Rightarrow> 's \<Rightarrow> 's option" where
  "foldM f [] s = Some s"
| "foldM f (x # xs) s = Option.bind (f x s) (foldM f xs)"

lemma foldM_Nil_fun: "foldM f [] = Some"
  by (simp add: fun_eq_iff)

lemma foldM_append: "foldM f (xs @ ys) s = Option.bind (foldM f xs s) (foldM f ys)"
  by (induction xs arbitrary: s) (auto simp: bind_assoc split: Option.bind_splits)

lemma foldM_inv:
  assumes "\<And>x s. x \<in> set xs \<Longrightarrow> I s \<Longrightarrow> \<exists>s'. f x s = Some s' \<and> I s'" and "I s"
  shows "\<exists>s'. foldM f xs s = Some s' \<and> I s'"
  using assms
proof (induction xs arbitrary: s)
  case Nil
  then show ?case by simp
next
  case (Cons x xs)
  obtain s' where s': "f x s = Some s'" "I s'"
    using Cons.prems(1) [of x s] Cons.prems(2) by auto
  have "\<exists>t. foldM f xs s' = Some t \<and> I t"
    using Cons.prems(1) s'(2) by (intro Cons.IH) auto
  with s'(1) show ?case by simp
qed

text \<open>The same with an invariant that speaks of the elements already done.\<close>

lemma foldM_prefix:
  assumes step: "\<And>us x vs s. xs = us @ x # vs \<Longrightarrow> I us s \<Longrightarrow> \<exists>s'. f x s = Some s' \<and> I (us @ [x]) s'"
    and start: "I [] s"
  shows "\<exists>s'. foldM f xs s = Some s' \<and> I xs s'"
proof -
  have "\<exists>s'. foldM f ys s = Some s' \<and> I ys s'" if "xs = ys @ zs" for ys zs
    using that
  proof (induction ys arbitrary: zs rule: rev_induct)
    case Nil
    with start show ?case by simp
  next
    case (snoc y ys)
    then obtain s' where s': "foldM f ys s = Some s'" "I ys s'" by auto
    from snoc.prems have "xs = ys @ y # zs" by simp
    from step [OF this s'(2)] s'(1) show ?case by (auto simp: foldM_append)
  qed
  from this [of xs "[]"] show ?thesis by simp
qed

lemma foldM_preserves:
  assumes "foldM f xs s = Some t" and "I s"
    and "\<And>x s s'. x \<in> set xs \<Longrightarrow> I s \<Longrightarrow> f x s = Some s' \<Longrightarrow> I s'"
  shows "I t"
  using assms
proof (induction xs arbitrary: s)
  case Nil
  then show ?case by simp
next
  case (Cons x xs)
  then obtain s' where s': "f x s = Some s'" "foldM f xs s' = Some t"
    by (auto split: Option.bind_splits)
  have "I s'" using Cons.prems(3) [OF _ Cons.prems(2) s'(1)] by simp
  with s'(2) show ?case using Cons.prems(3) by (intro Cons.IH) auto
qed

section \<open>Strings\<close>

definition HasPrefix :: "string \<Rightarrow> string \<Rightarrow> bool" where
  "HasPrefix s p \<longleftrightarrow> take (length p) s = p"

fun Contains :: "string \<Rightarrow> string \<Rightarrow> bool" where
  "Contains [] sub = (sub = [])"
| "Contains (c # s) sub = (HasPrefix (c # s) sub \<or> Contains s sub)"

text \<open>\<^verbatim>\<open>strings.ToLower\<close> on ASCII text.\<close>

definition lower_char :: "char \<Rightarrow> char" where
  "lower_char c = (let n = of_char c :: nat in if 65 \<le> n \<and> n \<le> 90 then char_of (n + 32) else c)"

definition ToLower :: "string \<Rightarrow> string" where
  "ToLower s = map lower_char s"

definition is_digit :: "char \<Rightarrow> bool" where
  "is_digit c \<longleftrightarrow> (let n = of_char c :: nat in 48 \<le> n \<and> n \<le> 57)"

definition digit_val :: "char \<Rightarrow> nat" where
  "digit_val c = of_char c - 48"

definition digit_char :: "nat \<Rightarrow> char" where
  "digit_char d = char_of (48 + d)"

fun show_nat :: "nat \<Rightarrow> string" where
  "show_nat n = (if n < 10 then [] else show_nat (n div 10)) @ [digit_char (n mod 10)]"

declare show_nat.simps [simp del]

text \<open>\<^verbatim>\<open>strconv.Itoa\<close> and \<^verbatim>\<open>%d\<close>.\<close>

definition Itoa :: "int \<Rightarrow> string" where
  "Itoa i = (if i < 0 then CHR ''-'' # show_nat (nat (- i)) else show_nat (nat i))"

definition digits_val :: "string \<Rightarrow> nat" where
  "digits_val s = foldl (\<lambda>n c. 10 * n + digit_val c) 0 s"

text \<open>\<^verbatim>\<open>strings.Split\<close> with a separator of one character.\<close>

fun split_on :: "char \<Rightarrow> string \<Rightarrow> string list" where
  "split_on sep [] = [[]]"
| "split_on sep (c # cs) =
     (if c = sep then [] # split_on sep cs
      else (case split_on sep cs of [] \<Rightarrow> [[c]] | w # ws \<Rightarrow> (c # w) # ws))"

lemma split_on_plain: "sep \<notin> set l \<Longrightarrow> split_on sep (l @ sep # r) = l # split_on sep r"
  by (induction l) auto

lemma split_on_lines:
  "(\<And>l. l \<in> set ls \<Longrightarrow> sep \<notin> set l) \<Longrightarrow> split_on sep (concat (map (\<lambda>l. l @ [sep]) ls)) = ls @ [[]]"
  by (induction ls) (auto simp: split_on_plain)

text \<open>\<^verbatim>\<open>strings.Join\<close>.\<close>

fun Join :: "string list \<Rightarrow> string \<Rightarrow> string" where
  "Join [] sep = []"
| "Join [s] sep = s"
| "Join (s # ss) sep = s @ sep @ Join ss sep"

text \<open>\<^verbatim>\<open>strings.Trim\<close> with a cutset.\<close>

definition Trim :: "string \<Rightarrow> string \<Rightarrow> string" where
  "Trim s cutset = rev (dropWhile (\<lambda>c. c \<in> set cutset) (rev (dropWhile (\<lambda>c. c \<in> set cutset) s)))"

definition is_space :: "char \<Rightarrow> bool" where
  "is_space c \<longleftrightarrow> c \<in> {CHR '' '', CHR 0x09, CHR 0x0A, CHR 0x0B, CHR 0x0C, CHR 0x0D}"

text \<open>\<^verbatim>\<open>strings.Fields\<close>: the maximal runs without white space.\<close>

function Fields :: "string \<Rightarrow> string list" where
  "Fields s =
     (let r = dropWhile is_space s in
      if r = [] then [] else takeWhile (\<lambda>c. \<not> is_space c) r # Fields (dropWhile (\<lambda>c. \<not> is_space c) r))"
  by pat_completeness auto
termination
proof (relation "measure length")
  fix s r :: string
  assume r: "r = dropWhile is_space s" "r \<noteq> []"
  then have "\<not> is_space (hd r)" using hd_dropWhile by blast
  with r(2) have "length (dropWhile (\<lambda>c. \<not> is_space c) r) < length r"
    by (cases r) (simp_all add: le_imp_less_Suc length_dropWhile_le)
  also have "length r \<le> length s" using r(1) length_dropWhile_le by metis
  finally show "(dropWhile (\<lambda>c. \<not> is_space c) r, s) \<in> measure length" by simp
qed simp

declare Fields.simps [simp del]

text \<open>\<^verbatim>\<open>strconv.Atoi\<close> on a 64-bit platform; \<open>None\<close> is the error.\<close>

definition Atoi :: "string \<Rightarrow> int option" where
  "Atoi s =
     (let d = (case s of c # r \<Rightarrow> if c = CHR ''-'' \<or> c = CHR ''+'' then r else s | [] \<Rightarrow> s);
          i = (if s \<noteq> [] \<and> hd s = CHR ''-'' then - int (digits_val d) else int (digits_val d))
      in if d = [] \<or> \<not> list_all is_digit d \<or> i < - (2 ^ 63) \<or> i \<ge> 2 ^ 63 then None else Some i)"

lemma is_digit_char [go_string, simp]: "d < 10 \<Longrightarrow> is_digit (digit_char d)"
  by (simp add: is_digit_def digit_char_def Let_def)

lemma digit_val_char [go_string, simp]: "d < 10 \<Longrightarrow> digit_val (digit_char d) = d"
  by (simp add: digit_val_def digit_char_def)

lemma show_nat_neq_Nil [simp]: "show_nat n \<noteq> []"
  by (simp add: show_nat.simps)

lemma show_nat_digits: "c \<in> set (show_nat n) \<Longrightarrow> is_digit c"
proof (induction n rule: show_nat.induct)
  case (1 n)
  from "1.prems" have "(\<not> n < 10 \<and> c \<in> set (show_nat (n div 10))) \<or> c = digit_char (n mod 10)"
    by (subst (asm) show_nat.simps) (auto split: if_splits)
  with "1.IH" show ?case by auto
qed

lemma digits_val_snoc [simp]: "digits_val (s @ [c]) = 10 * digits_val s + digit_val c"
  by (simp add: digits_val_def)

lemma digits_val_show_nat [go_string, simp]: "digits_val (show_nat n) = n"
proof (induction n rule: show_nat.induct)
  case (1 n)
  show ?case
  proof (cases "n < 10")
    case True
    then show ?thesis by (subst show_nat.simps) (simp add: digits_val_def)
  next
    case False
    with "1.IH" show ?thesis by (subst show_nat.simps) simp
  qed
qed

lemma Atoi_show_nat: "int n < 2 ^ 63 \<Longrightarrow> Atoi (show_nat n) = Some (int n)"
proof -
  assume n: "int n < 2 ^ 63"
  obtain c r where cr: "show_nat n = c # r" by (cases "show_nat n") auto
  then have "is_digit c" using show_nat_digits [of c n] by simp
  then have "c \<noteq> CHR ''-''" "c \<noteq> CHR ''+''" by (auto simp: is_digit_def)
  moreover have "list_all is_digit (c # r)" using show_nat_digits [of _ n] by (auto simp: list_all_iff cr)
  moreover have "digits_val (c # r) = n" using digits_val_show_nat [of n] by (simp add: cr)
  ultimately show ?thesis using n by (simp add: Atoi_def cr)
qed


lemma show_nat_inj [simp]: "show_nat m = show_nat n \<longleftrightarrow> m = n"
  by (metis digits_val_show_nat)

lemma digit_chars [go_string, simp]:
  "digit_char 0 = CHR ''0''" "digit_char (Suc 0) = CHR ''1''" "digit_char 1 = CHR ''1''"
  "digit_char 2 = CHR ''2''" "digit_char 3 = CHR ''3''" "digit_char 4 = CHR ''4''"
  "digit_char 5 = CHR ''5''" "digit_char 6 = CHR ''6''" "digit_char 7 = CHR ''7''"
  "digit_char 8 = CHR ''8''" "digit_char 9 = CHR ''9''"
  by (simp_all add: digit_char_def char_of_def bit_0)

lemma HasPrefix_append [go_string, simp]: "HasPrefix (p @ s) p"
  by (simp add: HasPrefix_def)

lemma HasPrefix_iff: "HasPrefix s p \<longleftrightarrow> (\<exists>r. s = p @ r)"
  by (metis HasPrefix_def append_take_drop_id append_eq_conv_conj)

lemma Contains_iff: "Contains s sub \<longleftrightarrow> (\<exists>u v. s = u @ sub @ v)"
proof (induction s)
  case Nil
  then show ?case by auto
next
  case (Cons c s)
  have "(\<exists>u v. c # s = u @ sub @ v) \<longleftrightarrow> (\<exists>v. c # s = sub @ v) \<or> (\<exists>u v. s = u @ sub @ v)"
    by (metis Cons_eq_append_conv append_Cons append_Nil)
  with Cons show ?case by (simp add: HasPrefix_iff)
qed

lemma restrict_map_dom: "dom m \<subseteq> A \<Longrightarrow> m |` A = m"
  by (rule ext) (auto simp: restrict_map_def, metis domIff subsetD)

end
