(* ===== verification/Net_IP.thy ===== *)
theory Net_IP
  imports Prelude
begin

text \<open>
  The part of Go's package net that the sources use: textual IP addresses
  (\<^verbatim>\<open>ParseIP\<close>, \<^verbatim>\<open>IP.String\<close>, \<^verbatim>\<open>IP.To4\<close>, \<^verbatim>\<open>IP.Equal\<close>, \<^verbatim>\<open>ParseCIDR\<close>) and host-port pairs
  (\<^verbatim>\<open>JoinHostPort\<close>, \<^verbatim>\<open>SplitHostPort\<close>), as the library behaves in the releases of the time
  of the sources (leading zeros of an IPv4 octet are accepted).  An IP is its byte slice; the nil
  IP is the empty slice.  The round trips at the end are what the proxy relies on when it turns
  addresses into map keys and back.
\<close>

type_synonym IP = "8 word list"

abbreviation (input) nilIP :: IP where "nilIP \<equiv> []"

definition v4InV6Prefix :: IP where
  "v4InV6Prefix = [0, 0, 0, 0, 0, 0, 0, 0, 0, 0, 255, 255]"

definition To4 :: "IP \<Rightarrow> IP" where
  "To4 ip =
     (if length ip = 4 then ip
      else if length ip = 16 \<and> take 12 ip = v4InV6Prefix then drop 12 ip
      else nilIP)"

definition IP_Equal :: "IP \<Rightarrow> IP \<Rightarrow> bool" where
  "IP_Equal ip x =
     (if length ip = length x then ip = x
      else if length ip = 4 \<and> length x = 16 then take 12 x = v4InV6Prefix \<and> ip = drop 12 x
      else if length ip = 16 \<and> length x = 4 then take 12 ip = v4InV6Prefix \<and> drop 12 ip = x
      else False)"

section \<open>Parsing\<close>

definition big :: nat where "big = 0xFFFFFF"

text \<open>Decimal and hexadecimal prefixes of a string: the value and what is left.\<close>

definition dtoi :: "string \<Rightarrow> (nat \<times> string) option" where
  "dtoi s =
     (let ds = takeWhile is_digit s
      in if ds = [] \<or> digits_val ds \<ge> big then None else Some (digits_val ds, dropWhile is_digit s))"

definition hex_val :: "char \<Rightarrow> nat option" where
  "hex_val c =
     (let n = of_char c :: nat
      in if 48 \<le> n \<and> n \<le> 57 then Some (n - 48)
         else if 97 \<le> n \<and> n \<le> 102 then Some (n - 87)
         else if 65 \<le> n \<and> n \<le> 70 then Some (n - 55)
         else None)"

definition xtoi :: "string \<Rightarrow> (nat \<times> string) option" where
  "xtoi s =
     (let hs = takeWhile (\<lambda>c. hex_val c \<noteq> None) s;
          n = foldl (\<lambda>n c. 16 * n + the (hex_val c)) 0 hs
      in if hs = [] \<or> n \<ge> big then None else Some (n, drop (length hs) s))"

text \<open>One octet of a dotted address; the dot is expected before every octet but the first.\<close>

definition parse_octet :: "bool \<Rightarrow> string \<Rightarrow> (8 word \<times> string) option" where
  "parse_octet dot s = do {
     s' \<leftarrow> (if dot then (case s of c # r \<Rightarrow> if c = CHR ''.'' then Some r else None | [] \<Rightarrow> None)
           else Some s);
     (n, r) \<leftarrow> dtoi s';
     if n > 255 then None else Some (of_nat n, r)
   }"

definition parse_quad :: "string \<Rightarrow> IP option" where
  "parse_quad s = do {
     (a, s1) \<leftarrow> parse_octet False s;
     (b, s2) \<leftarrow> parse_octet True s1;
     (c, s3) \<leftarrow> parse_octet True s2;
     (d, s4) \<leftarrow> parse_octet True s3;
     if s4 = [] then Some [a, b, c, d] else None
   }"

definition parseIPv4 :: "string \<Rightarrow> IP" where
  "parseIPv4 s = (case parse_quad s of None \<Rightarrow> nilIP | Some q \<Rightarrow> v4InV6Prefix @ q)"

text \<open>
  The chunk loop of \<^verbatim>\<open>parseIPv6\<close>: \<open>acc\<close> holds the bytes read so far, \<open>ell\<close> the position
  of the ellipsis.  The first argument bounds the chunks: sixteen bytes hold eight.
\<close>

fun parse_chunks :: "nat \<Rightarrow> IP \<Rightarrow> nat option \<Rightarrow> string \<Rightarrow> (IP \<times> nat option \<times> string) option" where
  "parse_chunks 0 acc ell s = Some (acc, ell, s)"
| "parse_chunks (Suc k) acc ell s = do {
     (n, r) \<leftarrow> xtoi s;
     if n > 0xFFFF then None
     else if r \<noteq> [] \<and> hd r = CHR ''.'' then
       (if ell = None \<and> length acc \<noteq> 12 then None
        else if length acc + 4 > 16 then None
        else (case parse_quad s of None \<Rightarrow> None | Some q \<Rightarrow> Some (acc @ q, ell, [])))
     else
       (let acc' = acc @ [of_nat (n div 256), of_nat (n mod 256)]
        in if r = [] then Some (acc', ell, [])
           else if hd r \<noteq> CHR '':'' \<or> length r = 1 then None
           else let r' = tl r
             in if hd r' = CHR '':'' then
                  (if ell \<noteq> None then None
                   else if tl r' = [] then Some (acc', Some (length acc'), [])
                   else parse_chunks k acc' (Some (length acc')) (tl r'))
                else parse_chunks k acc' ell r')
   }"

definition expand_ellipsis :: "IP \<Rightarrow> nat option \<Rightarrow> IP" where
  "expand_ellipsis acc ell =
     (if length acc < 16 then
        (case ell of None \<Rightarrow> nilIP
         | Some e \<Rightarrow> take e acc @ replicate (16 - length acc) 0 @ drop e acc)
      else if ell \<noteq> None then nilIP else acc)"

definition parseIPv6 :: "string \<Rightarrow> IP" where
  "parseIPv6 s =
     (if HasPrefix s ''::'' then
        (if s = ''::'' then replicate 16 0
         else case parse_chunks 8 [] (Some 0) (drop 2 s) of
             None \<Rightarrow> nilIP
           | Some (acc, ell, r) \<Rightarrow> if r \<noteq> [] then nilIP else expand_ellipsis acc ell)
      else case parse_chunks 8 [] None s of
             None \<Rightarrow> nilIP
           | Some (acc, ell, r) \<Rightarrow> if r \<noteq> [] then nilIP else expand_ellipsis acc ell)"

fun ParseIP_scan :: "string \<Rightarrow> string \<Rightarrow> IP" where
  "ParseIP_scan s [] = nilIP"
| "ParseIP_scan s (c # r) =
     (if c = CHR ''.'' then parseIPv4 s
      else if c = CHR '':'' then parseIPv6 s
      else ParseIP_scan s r)"

definition ParseIP :: "string \<Rightarrow> IP" where
  "ParseIP s = ParseIP_scan s s"

text \<open>\<^verbatim>\<open>ParseCIDR\<close>: only the address part is used by the sources.\<close>

definition ParseCIDR :: "string \<Rightarrow> go_error + IP" where
  "ParseCIDR s =
     (let addr = takeWhile (\<lambda>c. c \<noteq> CHR ''/'') s; rest = dropWhile (\<lambda>c. c \<noteq> CHR ''/'') s
      in if rest = [] then Inl (''invalid CIDR address: '' @ s)
         else
           let mask = tl rest; ip4 = parseIPv4 addr;
               ip = (if ip4 \<noteq> nilIP then ip4 else parseIPv6 addr);
               iplen = (if ip4 \<noteq> nilIP then 4 else 16 :: nat)
           in case dtoi mask of
                None \<Rightarrow> Inl (''invalid CIDR address: '' @ s)
              | Some (n, r) \<Rightarrow>
                  if ip = nilIP \<or> r \<noteq> [] \<or> n > 8 * iplen
                  then Inl (''invalid CIDR address: '' @ s) else Inr ip)"

section \<open>Printing\<close>

definition hex_digit :: "nat \<Rightarrow> char" where
  "hex_digit d = (if d < 10 then char_of (48 + d) else char_of (87 + d))"

fun show_hex :: "nat \<Rightarrow> string" where
  "show_hex n = (if n < 16 then [] else show_hex (n div 16)) @ [hex_digit (n mod 16)]"

declare show_hex.simps [simp del]

definition dotted :: "IP \<Rightarrow> string" where
  "dotted q =
     (case q of [a, b, c, d] \<Rightarrow>
        show_nat (unat a) @ ''.'' @ show_nat (unat b) @ ''.'' @ show_nat (unat c) @ ''.'' @ show_nat (unat d)
      | _ \<Rightarrow> [])"

fun groups16 :: "IP \<Rightarrow> nat list" where
  "groups16 (a # b # r) = (256 * unat a + unat b) # groups16 r"
| "groups16 _ = []"

text \<open>The longest run of zero groups (the first of that length): its start and its length.\<close>

fun longest_zeros :: "nat \<Rightarrow> nat list \<Rightarrow> nat \<times> nat \<Rightarrow> nat \<times> nat" where
  "longest_zeros i [] best = best"
| "longest_zeros i (g # gs) best =
     (let n = length (takeWhile (\<lambda>x. x = 0) (g # gs))
      in longest_zeros (Suc i) gs (if n > snd best then (i, n) else best))"

definition colon_hex :: "nat list \<Rightarrow> string" where
  "colon_hex gs = (case gs of [] \<Rightarrow> [] | g # r \<Rightarrow> show_hex g @ concat (map (\<lambda>x. CHR '':'' # show_hex x) r))"

definition IP_String :: "IP \<Rightarrow> string" where
  "IP_String ip =
     (if length ip = 0 then ''<nil>''
      else if length (To4 ip) = 4 then dotted (To4 ip)
      else if length ip \<noteq> 16 then
        CHR ''?'' # concat (map (\<lambda>b. [hex_digit (unat b div 16), hex_digit (unat b mod 16)]) ip)
      else
        let gs = groups16 ip; (e, n) = longest_zeros 0 gs (0, 0)
        in if n \<le> 1 then colon_hex gs
           else colon_hex (take e gs) @ ''::'' @ colon_hex (drop (e + n) gs))"

section \<open>Host and port\<close>

definition JoinHostPort :: "string \<Rightarrow> string \<Rightarrow> string" where
  "JoinHostPort host port =
     (if CHR '':'' \<in> set host \<or> CHR ''%'' \<in> set host
      then CHR ''['' # host @ '']:'' @ port
      else host @ CHR '':'' # port)"

text \<open>The error of \<^verbatim>\<open>SplitHostPort\<close> is only logged by the sources; its kind is kept.\<close>

datatype addr_error = MissingPort | TooManyColons | MissingBracket | UnexpectedBracket

definition SplitHostPort :: "string \<Rightarrow> addr_error + (string \<times> string)" where
  "SplitHostPort hp =
     (if CHR '':'' \<notin> set hp then Inl MissingPort
      else
        let port = rev (takeWhile (\<lambda>c. c \<noteq> CHR '':'') (rev hp));
            i = length hp - length port - 1
        in if hd hp = CHR ''['' then
             (let e = length (takeWhile (\<lambda>c. c \<noteq> CHR '']'') hp)
              in if e = length hp then Inl MissingBracket
                 else if e + 1 = length hp then Inl MissingPort
                 else if e + 1 \<noteq> i then
                   (if hp ! (e + 1) = CHR '':'' then Inl TooManyColons else Inl MissingPort)
                 else if CHR ''['' \<in> set (drop 1 hp) then Inl UnexpectedBracket
                 else if CHR '']'' \<in> set (drop (e + 1) hp) then Inl UnexpectedBracket
                 else Inr (drop 1 (take e hp), port))
           else
             (let host = take i hp
              in if CHR '':'' \<in> set host then Inl TooManyColons
                 else if CHR ''['' \<in> set hp then Inl UnexpectedBracket
                 else if CHR '']'' \<in> set hp then Inl UnexpectedBracket
                 else Inr (host, port)))"

section \<open>Round trips\<close>

lemma takeWhile_digits:
  "r = [] \<or> \<not> is_digit (hd r) \<Longrightarrow> takeWhile is_digit (show_nat n @ r) = show_nat n"
  by (cases r) (auto simp: takeWhile_append show_nat_digits)

lemma dropWhile_digits:
  "r = [] \<or> \<not> is_digit (hd r) \<Longrightarrow> dropWhile is_digit (show_nat n @ r) = r"
  by (cases r) (auto simp: dropWhile_append show_nat_digits)

lemma dtoi_show_nat [go_string]:
  "n < big \<Longrightarrow> r = [] \<or> \<not> is_digit (hd r) \<Longrightarrow> dtoi (show_nat n @ r) = Some (n, r)"
  by (simp add: dtoi_def takeWhile_digits dropWhile_digits)

lemma unat_byte_lt: "unat (a :: 8 word) < 256"
  using unsigned_less [of a, where 'a = nat] by simp

lemma not_digit_dot [simp]: "\<not> is_digit CHR ''.''" "\<not> is_digit CHR '':''"
  "\<not> is_digit CHR ''%''" "\<not> is_digit CHR ''[''" "\<not> is_digit CHR '']''"
  by (simp_all add: is_digit_def)

lemma parse_octet_show [go_string]:
  assumes "r = [] \<or> hd r = CHR ''.''"
  shows "parse_octet False (show_nat (unat a) @ r) = Some (a, r)"
    and "parse_octet True (CHR ''.'' # show_nat (unat a) @ r) = Some (a, r)"
proof -
  have "dtoi (show_nat (unat a) @ r) = Some (unat a, r)"
    using assms unat_byte_lt [of a] by (intro dtoi_show_nat) (auto simp: big_def)
  then show "parse_octet False (show_nat (unat a) @ r) = Some (a, r)"
    and "parse_octet True (CHR ''.'' # show_nat (unat a) @ r) = Some (a, r)"
    using unat_byte_lt [of a] by (simp_all add: parse_octet_def)
qed

lemma parse_quad_dotted [go_string]: "parse_quad (dotted [a, b, c, d]) = Some [a, b, c, d]"
proof -
  let ?t = "\<lambda>x r. CHR ''.'' # show_nat (unat (x :: 8 word)) @ r"
  have "parse_octet False (dotted [a, b, c, d]) = Some (a, ?t b (?t c (?t d [])))"
    unfolding dotted_def using parse_octet_show(1) [of "?t b (?t c (?t d []))" a] by simp
  moreover have "parse_octet True (?t b (?t c (?t d []))) = Some (b, ?t c (?t d []))"
    by (rule parse_octet_show(2)) simp
  moreover have "parse_octet True (?t c (?t d [])) = Some (c, ?t d [])"
    by (rule parse_octet_show(2)) simp
  moreover have "parse_octet True (?t d []) = Some (d, [])"
    by (rule parse_octet_show(2)) simp
  ultimately show ?thesis by (simp only: parse_quad_def bind.bind_lunit prod.case if_True simp_thms)
qed

lemma ParseIP_scan_digits:
  "\<forall>c \<in> set u. is_digit c \<Longrightarrow> ParseIP_scan s (u @ CHR ''.'' # r) = parseIPv4 s"
  by (induction u) auto

lemma ParseIP_dotted [go_string]:
  "ParseIP (dotted [a, b, c, d]) = v4InV6Prefix @ [a, b, c, d]"
proof -
  have "ParseIP (dotted [a, b, c, d]) = parseIPv4 (dotted [a, b, c, d])"
    using ParseIP_scan_digits [of "show_nat (unat a)"] show_nat_digits
    by (simp add: ParseIP_def dotted_def)
  then show ?thesis by (simp add: parseIPv4_def parse_quad_dotted)
qed

text \<open>An IPv4 address in either of its two byte forms.\<close>

definition is_v4 :: "IP \<Rightarrow> bool" where
  "is_v4 ip \<longleftrightarrow> length (To4 ip) = 4"

lemma length4_cases:
  assumes "length q = 4" obtains a b c d where "q = [a, b, c, d]"
  using assms by (auto simp: length_Suc_conv numeral_eq_Suc)

lemma To4_v4_form [simp]: "length q = 4 \<Longrightarrow> To4 (v4InV6Prefix @ q) = q"
  by (simp add: To4_def v4InV6Prefix_def)

lemma is_v4_not_nil: "is_v4 ip \<Longrightarrow> ip \<noteq> nilIP"
  by (auto simp: is_v4_def To4_def)

lemma IP_String_v4: "is_v4 ip \<Longrightarrow> IP_String ip = dotted (To4 ip)"
  using is_v4_not_nil [of ip] by (simp add: IP_String_def is_v4_def)

lemma ParseIP_String_v4 [go_string]:
  assumes "is_v4 ip" shows "ParseIP (IP_String ip) = v4InV6Prefix @ To4 ip"
proof -
  obtain a b c d where q: "To4 ip = [a, b, c, d]"
    using assms length4_cases unfolding is_v4_def by metis
  show ?thesis by (simp add: IP_String_v4 [OF assms] q ParseIP_dotted)
qed

lemma IP_String_ParseIP_v4 [go_string]:
  assumes "is_v4 ip" shows "IP_String (ParseIP (IP_String ip)) = IP_String ip"
proof -
  have "length (To4 ip) = 4" using assms by (simp add: is_v4_def)
  then have t: "To4 (v4InV6Prefix @ To4 ip) = To4 ip" by simp
  with \<open>length (To4 ip) = 4\<close> have "is_v4 (v4InV6Prefix @ To4 ip)" by (simp add: is_v4_def)
  from IP_String_v4 [OF this] show ?thesis
    unfolding ParseIP_String_v4 [OF assms] t by (simp only: IP_String_v4 [OF assms])
qed

text \<open>A textual address that the library prints back unchanged: what the API server stores.\<close>

definition canonical_v4 :: "string \<Rightarrow> bool" where
  "canonical_v4 s \<longleftrightarrow> is_v4 (ParseIP s) \<and> IP_String (ParseIP s) = s"

lemma canonical_v4_String: "is_v4 ip \<Longrightarrow> canonical_v4 (IP_String ip)"
  unfolding canonical_v4_def using IP_String_ParseIP_v4 [of ip]
  by (simp add: ParseIP_String_v4 is_v4_def)

lemma dotted_chars:
  "ch \<in> set (dotted q) \<Longrightarrow> is_digit ch \<or> ch = CHR ''.''"
  by (auto simp: dotted_def show_nat_digits split: list.splits)

lemma canonical_v4_chars: "canonical_v4 s \<Longrightarrow> ch \<in> set s \<Longrightarrow> is_digit ch \<or> ch = CHR ''.''"
  by (metis canonical_v4_def IP_String_v4 dotted_chars)

lemma SplitHostPort_JoinHostPort:
  assumes "canonical_v4 host" and "\<And>ch. ch \<in> set port \<Longrightarrow> is_digit ch"
  shows "SplitHostPort (JoinHostPort host port) = Inr (host, port)"
proof -
  have noc: "ch \<notin> set host" if "\<not> is_digit ch" "ch \<noteq> CHR ''.''" for ch
    using canonical_v4_chars [OF assms(1)] that by blast
  have nop: "ch \<notin> set port" if "\<not> is_digit ch" for ch using assms(2) that by blast
  have ne: "host \<noteq> []" using assms(1)
    by (auto simp: canonical_v4_def is_v4_def ParseIP_def To4_def)
  have j: "JoinHostPort host port = host @ CHR '':'' # port"
    using noc by (simp add: JoinHostPort_def)
  have tw: "takeWhile (\<lambda>c. c \<noteq> CHR '':'') (rev port @ CHR '':'' # rev host) = rev port"
    using nop [of "CHR '':''"] by (subst takeWhile_append2) auto
  have "hd host \<noteq> CHR ''[''" using noc [of "CHR ''[''"] ne by (cases host) auto
  with ne have hd: "hd (host @ CHR '':'' # port) \<noteq> CHR ''[''" by simp
  show ?thesis unfolding j SplitHostPort_def Let_def
    using hd ne noc nop tw by (simp add: tw)
qed

text \<open>An address that parses as IPv4 has only digits and dots; with a port it does not parse.\<close>

lemma dtoi_chars: "dtoi s = Some (n, r) \<Longrightarrow> \<exists>u. s = u @ r \<and> (\<forall>c \<in> set u. is_digit c)"
  by (auto simp: dtoi_def Let_def split: if_splits intro!: exI [of _ "takeWhile is_digit s"] dest: set_takeWhileD)

lemma parse_octet_chars:
  assumes "parse_octet dot s = Some (a, r)"
  shows "\<exists>u. s = u @ r \<and> (\<forall>c \<in> set u. is_digit c \<or> c = CHR ''.'')"
proof -
  obtain s' n where d: "dtoi s' = Some (n, r)" "s = s' \<or> s = CHR ''.'' # s'"
    using assms by (auto simp: parse_octet_def bind_eq_Some_conv split: if_splits list.splits)
  from dtoi_chars [OF d(1)] obtain u where u: "s' = u @ r" "\<forall>c \<in> set u. is_digit c" by blast
  show ?thesis
  proof (cases "s = s'")
    case True
    with u show ?thesis by blast
  next
    case False
    with d(2) u show ?thesis by (intro exI [of _ "CHR ''.'' # u"]) auto
  qed
qed

lemma parse_quad_chars:
  assumes "parse_quad s = Some q" "c \<in> set s"
  shows "is_digit c \<or> c = CHR ''.''"
proof -
  from assms(1) obtain a s1 b s2 d s3 e where o: "parse_octet False s = Some (a, s1)"
    "parse_octet True s1 = Some (b, s2)" "parse_octet True s2 = Some (d, s3)" "parse_octet True s3 = Some (e, [])"
    by (auto simp: parse_quad_def bind_eq_Some_conv split: if_splits)
  show ?thesis
    using o [THEN parse_octet_chars] assms(2) by (metis Un_iff append_Nil2 set_append)
qed

lemma ParseIP_JoinHostPort:
  assumes "canonical_v4 host" shows "ParseIP (JoinHostPort host port) = nilIP"
proof -
  from assms have v4: "is_v4 (ParseIP host)" and host: "host = IP_String (ParseIP host)"
    by (auto simp: canonical_v4_def)
  obtain a b c d where "host = dotted [a, b, c, d]"
    using host IP_String_v4 [OF v4] v4 length4_cases unfolding is_v4_def by metis
  then have "JoinHostPort host port = show_nat (unat a) @ CHR ''.'' #
      (show_nat (unat b) @ CHR ''.'' # show_nat (unat c) @ CHR ''.'' # show_nat (unat d)) @ CHR '':'' # port"
    using canonical_v4_chars [OF assms, of "CHR '':''"] canonical_v4_chars [OF assms, of "CHR ''%''"]
    by (auto simp: JoinHostPort_def dotted_def)
  note j = this
  have "ParseIP (JoinHostPort host port) = parseIPv4 (JoinHostPort host port)"
    unfolding ParseIP_def by (subst (2) j) (rule ParseIP_scan_digits, simp add: show_nat_digits)
  moreover have "CHR '':'' \<in> set (JoinHostPort host port)" unfolding j by simp
  then have "parse_quad (JoinHostPort host port) = None"
    using parse_quad_chars [of "JoinHostPort host port" _ "CHR '':''"]
    by (cases "parse_quad (JoinHostPort host port)") auto
  ultimately show ?thesis by (simp add: parseIPv4_def)
qed

lemma IP_String_inj_v4: "is_v4 a \<Longrightarrow> is_v4 b \<Longrightarrow> IP_String a = IP_String b \<longleftrightarrow> To4 a = To4 b"
  using ParseIP_String_v4 [of a] ParseIP_String_v4 [of b] by (metis IP_String_v4 same_append_eq)

end
