(* ===== verification/Api_Types.thy ===== *)
theory Api_Types
  imports Net_IP
begin

text \<open>
  The API objects the proxy reads, with the fields the sources use, and the names it keys its
  maps by (src/pkg/proxy/type.go).  An int32 port is an integer; a missing
  \<^verbatim>\<open>*string\<close> is \<open>None\<close>.
\<close>

record NamespacedName =
  nn_Namespace :: string
  nn_Name :: string

text \<open>\<^verbatim>\<open>ServicePortName\<close> embeds the namespaced name and so inherits its \<^verbatim>\<open>String\<close> method.\<close>

record ServicePortName =
  spn_NamespacedName :: NamespacedName
  spn_Port :: string

definition NamespacedName_String :: "NamespacedName \<Rightarrow> string" where
  "NamespacedName_String n = nn_Namespace n @ ''/'' @ nn_Name n"

record ServicePort =
  sp_Name :: string
  sp_Protocol :: string
  sp_Port :: int
  sp_NodePort :: int

record api_Service =
  as_Namespace :: string
  as_Name :: string
  as_ClusterIP :: string
  as_Type :: string
  as_SessionAffinity :: string
  as_ExternalIPs :: "string list"
  as_Ports :: "ServicePort list"

record EndpointAddress =
  ea_IP :: string
  ea_NodeName :: "string option"

record EndpointPort =
  ep_Name :: string
  ep_Port :: int

record EndpointSubset =
  es_Addresses :: "EndpointAddress list"
  es_Ports :: "EndpointPort list"

record api_Endpoints =
  ae_Namespace :: string
  ae_Name :: string
  ae_Subsets :: "EndpointSubset list"

definition service_nsn :: "api_Service \<Rightarrow> NamespacedName" where
  "service_nsn s = \<lparr>nn_Namespace = as_Namespace s, nn_Name = as_Name s\<rparr>"

definition endpoints_nsn :: "api_Endpoints \<Rightarrow> NamespacedName" where
  "endpoints_nsn e = \<lparr>nn_Namespace = ae_Namespace e, nn_Name = ae_Name e\<rparr>"

definition ProtocolUDP :: string where "ProtocolUDP = ''UDP''"

lemma ToLower_UDP [simp]: "ToLower ProtocolUDP = ''udp''"
  by (simp add: ToLower_def ProtocolUDP_def lower_char_def char_of_def bit_0)

lemma ServicePortName_eq_iff:
  "k = \<lparr>spn_NamespacedName = n, spn_Port = p\<rparr> \<longleftrightarrow>
     spn_NamespacedName k = n \<and> spn_Port k = p"
  by (cases k) auto

section \<open>Pending changes of named objects\<close>

text \<open>
  Both change maps (services and endpoints) follow one contract.  \<open>tr\<close> translates an object
  (or nil) to the proxy's map, \<open>upd\<close> is the \<^verbatim>\<open>Update\<close> method, \<open>deq\<close> the comparison of
  translations, and \<open>prev\<close>, \<open>cur\<close> read a pending change.  The laws say what \<^verbatim>\<open>Update\<close> does
  to the entry of its name and to every other entry.  The client is the event stream of an
  informer: an event carries the name, the object before and the object after.
\<close>

type_synonym ('n, 'o) event = "'n \<times> 'o option \<times> 'o option"

fun store_after :: "('n \<rightharpoonup> 'o) \<Rightarrow> ('n, 'o) event list \<Rightarrow> ('n \<rightharpoonup> 'o)" where
  "store_after st [] = st"
| "store_after st ((n, _, new) # es) = store_after (st(n := new)) es"

text \<open>Every event reports as the old object what the store held.\<close>

fun consistent :: "('n \<rightharpoonup> 'o) \<Rightarrow> ('n, 'o) event list \<Rightarrow> bool" where
  "consistent st [] = True"
| "consistent st ((n, old, new) # es) = (old = st n \<and> consistent (st(n := new)) es)"

lemma store_after_Cons: "store_after st (e # es) = store_after (store_after st [e]) es"
  by (cases e) simp

lemma consistent_Cons: "consistent st (e # es) \<longleftrightarrow> consistent st [e] \<and> consistent (store_after st [e]) es"
  by (cases e) simp

text \<open>
  What the pending changes mean: relative to the store \<open>base\<close> the proxy has already applied and
  the store \<open>st\<close> the informer has reached, an entry holds the two translations and exists exactly
  where they differ.
\<close>

definition pending_changes ::
  "('o option \<Rightarrow> 'm option) \<Rightarrow> ('m option \<Rightarrow> 'm option \<Rightarrow> bool) \<Rightarrow> ('c \<Rightarrow> 'm option) \<Rightarrow> ('c \<Rightarrow> 'm option)
   \<Rightarrow> ('n \<rightharpoonup> 'o) \<Rightarrow> ('n \<rightharpoonup> 'o) \<Rightarrow> ('n, 'c) gomap \<Rightarrow> bool" where
  "pending_changes tr deq prev cur base st items \<longleftrightarrow> wf_gomap items \<and> (\<forall>n.
     case map_of items n of
       None \<Rightarrow> deq (tr (base n)) (tr (st n))
     | Some ch \<Rightarrow> deq (prev ch) (tr (base n)) \<and> cur ch = tr (st n) \<and> \<not> deq (prev ch) (cur ch)
         \<and> prev ch \<in> range tr)"

lemma pending_SomeD:
  assumes "pending_changes tr deq prev cur base st items" and "map_of items n = Some ch"
  shows "deq (prev ch) (tr (base n))" and "cur ch = tr (st n)" and "\<not> deq (prev ch) (cur ch)"
    and "prev ch \<in> range tr"
proof -
  from assms(1) have "case map_of items n of
       None \<Rightarrow> deq (tr (base n)) (tr (st n))
     | Some ch \<Rightarrow> deq (prev ch) (tr (base n)) \<and> cur ch = tr (st n) \<and> \<not> deq (prev ch) (cur ch)
         \<and> prev ch \<in> range tr"
    unfolding pending_changes_def by blast
  with assms(2) show "deq (prev ch) (tr (base n))" and "cur ch = tr (st n)" and "\<not> deq (prev ch) (cur ch)"
    and "prev ch \<in> range tr"
    by auto
qed

lemma pending_NoneD:
  assumes "pending_changes tr deq prev cur base st items" and "map_of items n = None"
  shows "deq (tr (base n)) (tr (st n))"
proof -
  from assms(1) have "case map_of items n of
       None \<Rightarrow> deq (tr (base n)) (tr (st n))
     | Some ch \<Rightarrow> deq (prev ch) (tr (base n)) \<and> cur ch = tr (st n) \<and> \<not> deq (prev ch) (cur ch)
         \<and> prev ch \<in> range tr"
    unfolding pending_changes_def by blast
  with assms(2) show ?thesis by simp
qed

lemma pending_wf: "pending_changes tr deq prev cur base st items \<Longrightarrow> wf_gomap items"
  by (simp add: pending_changes_def)

fun run_updates ::
  "(('n, 'c) gomap \<Rightarrow> 'n \<Rightarrow> 'o option \<Rightarrow> 'o option \<Rightarrow> ('n, 'c) gomap \<times> bool)
   \<Rightarrow> ('n, 'c) gomap \<Rightarrow> ('n, 'o) event list \<Rightarrow> ('n, 'c) gomap" where
  "run_updates upd items [] = items"
| "run_updates upd items ((n, old, new) # es) = run_updates upd (fst (upd items n old new)) es"

locale change_map =
  fixes tr :: "'o option \<Rightarrow> 'm option"
    and deq :: "'m option \<Rightarrow> 'm option \<Rightarrow> bool"
    and upd :: "('n, 'c) gomap \<Rightarrow> 'n \<Rightarrow> 'o option \<Rightarrow> 'o option \<Rightarrow> ('n, 'c) gomap \<times> bool"
    and prev :: "'c \<Rightarrow> 'm option"
    and cur :: "'c \<Rightarrow> 'm option"
  assumes deq_equivp: "equivp deq"
    and upd_other: "n' \<noteq> n \<Longrightarrow> map_of (fst (upd items n old new)) n' = map_of items n'"
    and upd_clears: "deq (case map_of items n of None \<Rightarrow> tr old | Some ch \<Rightarrow> prev ch) (tr new)
        \<Longrightarrow> map_of (fst (upd items n old new)) n = None"
    and upd_records: "\<not> deq (case map_of items n of None \<Rightarrow> tr old | Some ch \<Rightarrow> prev ch) (tr new)
        \<Longrightarrow> \<exists>ch. map_of (fst (upd items n old new)) n = Some ch
              \<and> prev ch = (case map_of items n of None \<Rightarrow> tr old | Some c \<Rightarrow> prev c)
              \<and> cur ch = tr new"
    and upd_reports: "snd (upd items n old new) \<longleftrightarrow> fst (upd items n old new) \<noteq> []"
    and upd_wf: "wf_gomap items \<Longrightarrow> wf_gomap (fst (upd items n old new))"
begin

abbreviation pending :: "('n \<rightharpoonup> 'o) \<Rightarrow> ('n \<rightharpoonup> 'o) \<Rightarrow> ('n, 'c) gomap \<Rightarrow> bool" where
  "pending \<equiv> pending_changes tr deq prev cur"

lemma deq_refl: "deq m m"
  using deq_equivp by (rule equivp_reflp)

lemma deq_sym: "deq m m' \<Longrightarrow> deq m' m"
  using deq_equivp by (rule equivp_symp)

lemma deq_trans: "deq m m' \<Longrightarrow> deq m' m'' \<Longrightarrow> deq m m''"
  using deq_equivp by (rule equivp_transp)

lemma pending_empty: "pending base base []"
  by (simp add: pending_changes_def deq_refl)

lemma pending_upd:
  assumes "pending base st items" and "old = st n"
  shows "pending base (st(n := new)) (fst (upd items n old new))"
proof -
  let ?b = "case map_of items n of None \<Rightarrow> tr old | Some ch \<Rightarrow> prev ch"
  have inv: "case map_of items n' of
       None \<Rightarrow> deq (tr (base n')) (tr (st n'))
     | Some ch \<Rightarrow> deq (prev ch) (tr (base n')) \<and> cur ch = tr (st n') \<and> \<not> deq (prev ch) (cur ch)
         \<and> prev ch \<in> range tr"
    for n' using assms(1) unfolding pending_changes_def by blast
  have b: "deq ?b (tr (base n))"
    using inv [of n] assms(2) by (auto intro: deq_sym split: option.splits)
  have "case map_of (fst (upd items n old new)) n' of
       None \<Rightarrow> deq (tr (base n')) (tr ((st(n := new)) n'))
     | Some ch \<Rightarrow> deq (prev ch) (tr (base n')) \<and> cur ch = tr ((st(n := new)) n')
          \<and> \<not> deq (prev ch) (cur ch) \<and> prev ch \<in> range tr" for n'
  proof (cases "n' = n")
    case False
    with inv [of n'] show ?thesis by (auto simp: upd_other split: option.splits)
  next
    case True
    show ?thesis
    proof (cases "deq ?b (tr new)")
      case eq: True
      then have "deq (tr (base n)) (tr new)" using b by (blast intro: deq_sym deq_trans)
      with True upd_clears [OF eq] show ?thesis by simp
    next
      case neq: False
      have "?b \<in> range tr" using inv [of n] by (auto split: option.splits)
      with upd_records [OF neq] b True neq show ?thesis by auto
    qed
  qed
  with assms(1) show ?thesis by (simp add: pending_changes_def upd_wf)
qed

lemma pending_run:
  "pending base st items \<Longrightarrow> consistent st es \<Longrightarrow> pending base (store_after st es) (run_updates upd items es)"
proof (induction es arbitrary: st items)
  case Nil
  then show ?case by simp
next
  case (Cons e es)
  obtain n old new where e: "e = (n, old, new)" by (cases e)
  with Cons.prems have "pending base (st(n := new)) (fst (upd items n old new))"
    by (intro pending_upd) auto
  moreover from Cons.prems(2) e have "consistent (st(n := new)) es" by simp
  ultimately have "pending base (store_after (st(n := new)) es)
      (run_updates upd (fst (upd items n old new)) es)" by (rule Cons.IH)
  with e show ?case by simp
qed

text \<open>An object that goes back to what it was leaves nothing pending for its name.\<close>

lemma upd_revert:
  assumes "pending base st items" and "deq (tr new) (tr (base n))"
  shows "map_of (fst (upd items n (st n) new)) n = None"
proof -
  have "case map_of items n of
       None \<Rightarrow> deq (tr (base n)) (tr (st n))
     | Some ch \<Rightarrow> deq (prev ch) (tr (base n)) \<and> cur ch = tr (st n) \<and> \<not> deq (prev ch) (cur ch)
         \<and> prev ch \<in> range tr"
    using assms(1) unfolding pending_changes_def by blast
  then have "deq (case map_of items n of None \<Rightarrow> tr (st n) | Some ch \<Rightarrow> prev ch) (tr new)"
    using assms(2) by (auto intro: deq_sym deq_trans split: option.splits)
  then show ?thesis by (rule upd_clears)
qed

end

section \<open>Applying the pending changes\<close>

text \<open>
  The proxy's map of named entries holds, for each name, the translation of the object of that
  name.  \<open>object_view\<close> is that content for a whole store.
\<close>

definition object_view ::
  "('o option \<Rightarrow> ('k, 'v) gomap option) \<Rightarrow> ('k \<Rightarrow> 'n) \<Rightarrow> ('n \<rightharpoonup> 'o) \<Rightarrow> ('k \<rightharpoonup> 'v)" where
  "object_view tr name_of st k = map_of (range_map (tr (st (name_of k)))) k"

definition well_named :: "('o \<Rightarrow> 'n) \<Rightarrow> ('n \<rightharpoonup> 'o) \<Rightarrow> bool" where
  "well_named nsn st \<longleftrightarrow> (\<forall>n s. st n = Some s \<longrightarrow> nsn s = n)"

lemma fst_set_map_of_eq: "map_of m = map_of m' \<Longrightarrow> fst ` set m = fst ` set m'"
  by (metis dom_map_of_conv_image_fst)

text \<open>
  The provider promises that applying one change replaces the entries of the name by the current
  translation, when the map holds no other entries of that name than those of the two
  translations; the client lemma lifts this to all pending changes in any order.
\<close>

locale change_apply = change_map tr deq upd prev cur
  for tr :: "'o option \<Rightarrow> ('k, 'v) gomap option"
    and deq :: "('k, 'v) gomap option \<Rightarrow> ('k, 'v) gomap option \<Rightarrow> bool"
    and upd :: "('n, 'c) gomap \<Rightarrow> 'n \<Rightarrow> 'o option \<Rightarrow> 'o option \<Rightarrow> ('n, 'c) gomap \<times> bool"
    and prev :: "'c \<Rightarrow> ('k, 'v) gomap option"
    and cur :: "'c \<Rightarrow> ('k, 'v) gomap option" +
  fixes app :: "'c \<Rightarrow> 's \<Rightarrow> 's"
    and content :: "'s \<Rightarrow> ('k \<rightharpoonup> 'v)"
    and name_of :: "'k \<Rightarrow> 'n"
    and nsn :: "'o \<Rightarrow> 'n"
  assumes deq_content: "deq a b \<Longrightarrow> map_of (range_map a) = map_of (range_map b)"
    and tr_wf: "wf_gomap (range_map (tr x))"
    and tr_keys: "map_of (range_map (tr x)) k = Some v \<Longrightarrow> \<exists>y. x = Some y \<and> name_of k = nsn y"
    and app_content:
      "wf_gomap (range_map (cur ch)) \<Longrightarrow>
       (\<And>k. k \<in> fst ` set (range_map (prev ch)) \<Longrightarrow> name_of k = n) \<Longrightarrow>
       (\<And>k. k \<in> fst ` set (range_map (cur ch)) \<Longrightarrow> name_of k = n) \<Longrightarrow>
       (\<And>k. name_of k = n \<Longrightarrow> content s k \<noteq> None \<Longrightarrow>
          k \<in> fst ` set (range_map (prev ch)) \<union> fst ` set (range_map (cur ch))) \<Longrightarrow>
       content (app ch s) k = (if name_of k = n then map_of (range_map (cur ch)) k else content s k)"
begin

abbreviation view :: "('n \<rightharpoonup> 'o) \<Rightarrow> ('k \<rightharpoonup> 'v)" where
  "view \<equiv> object_view tr name_of"

lemma named_keys:
  assumes "well_named nsn st" and "k \<in> fst ` set (range_map (tr (st n)))"
  shows "name_of k = n"
proof -
  obtain v where "map_of (range_map (tr (st n))) k = Some v"
    using assms(2) by (metis map_of_eq_None_iff not_None_eq)
  from tr_keys [OF this] assms(1) show ?thesis by (auto simp: well_named_def)
qed

lemma pending_item:
  assumes "pending base st items" and "(n, ch) \<in> set items"
  shows "cur ch = tr (st n)"
    and "map_of (range_map (prev ch)) = map_of (range_map (tr (base n)))"
    and "wf_gomap (range_map (prev ch))"
proof -
  from pending_wf [OF assms(1)] assms(2) have "map_of items n = Some ch" by (simp add: wf_gomap_mem)
  note p = pending_SomeD [OF assms(1) this]
  show "cur ch = tr (st n)" by (rule p(2))
  show "wf_gomap (range_map (prev ch))" using p(4) tr_wf by auto
  show "map_of (range_map (prev ch)) = map_of (range_map (tr (base n)))"
    using p(1) by (rule deq_content)
qed

lemma app_step:
  assumes pend: "pending base st items" and wn: "well_named nsn base" "well_named nsn st"
    and mem: "(n, ch) \<in> set items"
    and s: "\<And>k. name_of k = n \<Longrightarrow> content s k = view base k \<or> content s k = view st k"
  shows "content (app ch s) k = (if name_of k = n then view st k else content s k)"
proof -
  note c = pending_item [OF pend mem]
  note p = fst_set_map_of_eq [OF c(2)]
  have "content (app ch s) k = (if name_of k = n then map_of (range_map (cur ch)) k else content s k)"
  proof (rule app_content)
    show "wf_gomap (range_map (cur ch))" using c(1) tr_wf by simp
    show "k \<in> fst ` set (range_map (prev ch)) \<Longrightarrow> name_of k = n" for k
      unfolding p by (rule named_keys [OF wn(1)])
    show "k \<in> fst ` set (range_map (cur ch)) \<Longrightarrow> name_of k = n" for k
      unfolding c(1) by (rule named_keys [OF wn(2)])
    fix k assume k: "name_of k = n" "content s k \<noteq> None"
    then have "view base k \<noteq> None \<or> view st k \<noteq> None" using s [of k] by auto
    then show "k \<in> fst ` set (range_map (prev ch)) \<union> fst ` set (range_map (cur ch))"
      unfolding p c(1) using k(1) by (auto simp: object_view_def map_of_eq_None_iff)
  qed
  then show ?thesis by (simp add: c(1) object_view_def)
qed

lemma view_unchanged:
  assumes "pending base st items" and "name_of k \<notin> fst ` set items"
  shows "view base k = view st k"
proof -
  from assms(2) have "map_of items (name_of k) = None" by (simp add: map_of_eq_None_iff)
  from deq_content [OF pending_NoneD [OF assms(1) this]] show ?thesis
    by (simp add: object_view_def)
qed

lemma app_all:
  assumes pend: "pending base st items" and wn: "well_named nsn base" "well_named nsn st"
    and s: "\<And>k. content s k = view base k \<or> content s k = view st k"
  shows "content (fold (\<lambda>(_, ch). app ch) items s) = view st"
proof -
  let ?f = "fold (\<lambda>(_, ch). app ch)"
  have res: "content (?f its s) k =
      (if name_of k \<in> fst ` set its then view st k else content s k)"
    if "set its \<subseteq> set items" "wf_gomap its"
      "\<And>k. content s k = view base k \<or> content s k = view st k" for its s k
    using that
  proof (induction its arbitrary: s)
    case (Cons it its)
    obtain n ch where it: "it = (n, ch)" by (cases it)
    have step: "content (app ch s) k = (if name_of k = n then view st k else content s k)" for k
      using Cons.prems it by (intro app_step [OF pend wn]) auto
    have "content (?f its (app ch s)) k =
      (if name_of k \<in> fst ` set its then view st k else content (app ch s) k)"
      using Cons.prems it step by (intro Cons.IH) auto
    with it step show ?case by auto
  qed simp
  show ?thesis
  proof
    fix k
    have "content (?f items s) k =
        (if name_of k \<in> fst ` set items then view st k else content s k)"
      using res [of items s k] s pending_wf [OF pend] by simp
    then show "content (?f items s) k = view st k"
      using s [of k] view_unchanged [OF pend, of k] by auto
  qed
qed

end

end
