(* ===== verification/Services.thy ===== *)
theory Services
  imports Api_Types
begin

text \<open>
  src/pkg/proxy/util/services.go: the proxy's view of services, the pending service changes
  and their application to the service map.
\<close>

section \<open>Data\<close>

record ServiceInfo =
  si_ClusterIP :: IP
  si_Port :: int
  si_Protocol :: string
  si_NodePort :: int
  si_SessionAffinity :: bool
  si_ExternalIPs :: "string list"
  si_OnlyNodeLocalEndpoints :: bool
  si_healthCheckNodePort :: int

type_synonym ProxyServiceMap = "(ServicePortName, ServiceInfo) gomap"

text \<open>The two maps of a change may be nil, and \<^verbatim>\<open>DeepEqual\<close> tells a nil map from an empty one.\<close>

record ServiceChange =
  sc_Previous :: "ProxyServiceMap option"
  sc_Current :: "ProxyServiceMap option"

type_synonym ServiceChangeItems = "(NamespacedName, ServiceChange) gomap"

record UpdateServiceMapResult =
  us_HcServices :: "(NamespacedName, 16 word) gomap"
  us_StaleServices :: "string list"

section \<open>Operations\<close>

definition IsServiceIPSet :: "api_Service \<Rightarrow> bool" where
  "IsServiceIPSet service \<longleftrightarrow> as_ClusterIP service \<noteq> ''None'' \<and> as_ClusterIP service \<noteq> ''''"

definition ShouldSkipService :: "NamespacedName \<Rightarrow> api_Service \<Rightarrow> bool" where
  "ShouldSkipService svcName service =
     (if \<not> IsServiceIPSet service then True
      else if as_Type service = ''ExternalName'' then True
      else False)"

definition NewServiceInfo :: "ServicePortName \<Rightarrow> ServicePort \<Rightarrow> api_Service \<Rightarrow> ServiceInfo" where
  "NewServiceInfo serviceName port service =
     \<lparr>si_ClusterIP = ParseIP (as_ClusterIP service),
      si_Port = sp_Port port,
      si_Protocol = ToLower (sp_Protocol port),
      si_NodePort = sp_NodePort port,
      si_SessionAffinity = (as_SessionAffinity service = ''ClientIP''),
      si_ExternalIPs = as_ExternalIPs service,
      si_OnlyNodeLocalEndpoints = False,
      si_healthCheckNodePort = 0\<rparr>"

text \<open>The port loop that \<^verbatim>\<open>serviceToServiceMap\<close> and \<^verbatim>\<open>BuildServiceMap\<close> share.\<close>

definition add_service_ports :: "api_Service \<Rightarrow> ProxyServiceMap \<Rightarrow> ProxyServiceMap" where
  "add_service_ports service m =
     fold (\<lambda>servicePort m.
         let svcPortName = \<lparr>spn_NamespacedName = service_nsn service, spn_Port = sp_Name servicePort\<rparr>
         in gm_put m svcPortName (NewServiceInfo svcPortName servicePort service))
       (as_Ports service) m"

definition serviceToServiceMap :: "api_Service option \<Rightarrow> ProxyServiceMap option" where
  "serviceToServiceMap service =
     (case service of
        None \<Rightarrow> None
      | Some s \<Rightarrow>
          if ShouldSkipService (service_nsn s) s then None else Some (add_service_ports s []))"

text \<open>The loop body of \<^verbatim>\<open>BuildServiceMap\<close>.\<close>

definition build_service :: "api_Service \<Rightarrow> ProxyServiceMap \<Rightarrow> ProxyServiceMap" where
  "build_service service m =
     (if as_ClusterIP service = ''None'' \<or> as_ClusterIP service = '''' then m
      else if as_Type service = ''ExternalName'' then m
      else add_service_ports service m)"

text \<open>One pass of its loop over the old service map.\<close>

definition build_stale :: "ProxyServiceMap \<Rightarrow> ServicePortName \<times> ServiceInfo \<Rightarrow> string list \<Rightarrow> string list" where
  "build_stale newServiceMap entry st =
     (let (name, info) = entry
      in if \<not> gm_has newServiceMap name then
           (if si_Protocol info = ToLower ProtocolUDP
            then str_insert (IP_String (si_ClusterIP info)) st else st)
         else st)"

text \<open>
  \<^verbatim>\<open>BuildServiceMap\<close> rebuilds the map from the watcher's list and reports the cluster IPs of the
  UDP services that disappeared.
\<close>

definition BuildServiceMap :: "api_Service list \<Rightarrow> ProxyServiceMap \<Rightarrow> ProxyServiceMap \<times> string list" where
  "BuildServiceMap services oldServiceMap =
     (let newServiceMap = fold build_service services [];
          staleUDPServices = fold (build_stale newServiceMap) oldServiceMap []
      in (newServiceMap, staleUDPServices))"

definition NewServiceChangeMap :: ServiceChangeItems where
  "NewServiceChangeMap = []"

definition ServiceChangeMap_Update ::
  "ServiceChangeItems \<Rightarrow> NamespacedName \<Rightarrow> api_Service option \<Rightarrow> api_Service option
   \<Rightarrow> ServiceChangeItems \<times> bool" where
  "ServiceChangeMap_Update items namespacedName previous current =
     (let change0 = (case gm_get items namespacedName of
            Some ch \<Rightarrow> ch
          | None \<Rightarrow> \<lparr>sc_Previous = serviceToServiceMap previous, sc_Current = None\<rparr>);
          change = change0\<lparr>sc_Current := serviceToServiceMap current\<rparr>;
          items1 = gm_put items namespacedName change;
          items2 = (if DeepEqual_maps (sc_Previous change) (sc_Current change)
                    then gm_del items1 namespacedName else items1)
      in (items2, length items2 > 0))"

definition ProxyServiceMap_merge :: "ProxyServiceMap \<Rightarrow> ProxyServiceMap option \<Rightarrow> ProxyServiceMap \<times> string list" where
  "ProxyServiceMap_merge sm other =
     fold (\<lambda>(svcPortName, info) (sm, existingPorts).
         (gm_put sm svcPortName info, str_insert (spn_Port svcPortName) existingPorts))
       (range_map other) (sm, [])"

text \<open>The loop body of \<^verbatim>\<open>unmerge\<close>.\<close>

definition unmerge_port ::
  "string list \<Rightarrow> ServicePortName \<Rightarrow> ProxyServiceMap \<times> string list \<Rightarrow> ProxyServiceMap \<times> string list" where
  "unmerge_port existingPorts svcPortName s =
     (let (sm, staleServices) = s
      in if spn_Port svcPortName \<in> set existingPorts then (sm, staleServices)
         else case gm_get sm svcPortName of
             Some info \<Rightarrow>
               (gm_del sm svcPortName,
                if si_Protocol info = ToLower ProtocolUDP
                then str_insert (IP_String (si_ClusterIP info)) staleServices else staleServices)
           | None \<Rightarrow> (sm, staleServices))"

definition ProxyServiceMap_unmerge ::
  "ProxyServiceMap \<Rightarrow> ProxyServiceMap option \<Rightarrow> string list \<Rightarrow> string list \<Rightarrow> ProxyServiceMap \<times> string list" where
  "ProxyServiceMap_unmerge sm other existingPorts staleServices =
     fold (unmerge_port existingPorts) (map fst (range_map other)) (sm, staleServices)"

text \<open>One pass of the loop over the pending changes.\<close>

definition apply_service_change ::
  "ServiceChange \<Rightarrow> ProxyServiceMap \<times> string list \<Rightarrow> ProxyServiceMap \<times> string list" where
  "apply_service_change change s =
     (let (serviceMap, stale) = s;
          (serviceMap1, existingPorts) = ProxyServiceMap_merge serviceMap (sc_Current change)
      in ProxyServiceMap_unmerge serviceMap1 (sc_Previous change) existingPorts stale)"

definition UpdateServiceMap ::
  "ProxyServiceMap \<Rightarrow> ServiceChangeItems \<Rightarrow> ProxyServiceMap \<times> UpdateServiceMapResult" where
  "UpdateServiceMap serviceMap items =
     (let (serviceMap1, stale) =
            fold (\<lambda>(_, change). apply_service_change change) items (serviceMap, []);
          hc = fold (\<lambda>(svcPortName, info) hc.
                  if si_healthCheckNodePort info \<noteq> 0
                  then gm_put hc (spn_NamespacedName svcPortName) (word_of_int (si_healthCheckNodePort info))
                  else hc)
                serviceMap1 []
      in (serviceMap1, \<lparr>us_HcServices = hc, us_StaleServices = stale\<rparr>))"

section \<open>The change map keeps its contract\<close>

lemma add_service_ports_keys:
  "map_of (add_service_ports s m) k = Some info \<Longrightarrow>
     map_of m k = Some info \<or> spn_NamespacedName k = service_nsn s"
proof -
  have "map_of (fold (\<lambda>p m. let n = \<lparr>spn_NamespacedName = service_nsn s, spn_Port = sp_Name p\<rparr>
           in gm_put m n (NewServiceInfo n p s)) ps m) k = Some info
        \<Longrightarrow> map_of m k = Some info \<or> spn_NamespacedName k = service_nsn s" for ps
    by (induction ps arbitrary: m) (fastforce simp: Let_def split: if_splits)+
  then show "map_of (add_service_ports s m) k = Some info \<Longrightarrow> ?thesis"
    by (simp add: add_service_ports_def)
qed

lemma add_service_ports_wf: "wf_gomap m \<Longrightarrow> wf_gomap (add_service_ports s m)"
  unfolding add_service_ports_def
  by (rule fold_invariant [where P = wf_gomap]) (auto simp: Let_def)

lemma serviceToServiceMap_wf: "wf_gomap (range_map (serviceToServiceMap s))"
  by (auto simp: serviceToServiceMap_def range_map_def add_service_ports_wf split: option.splits)

lemma serviceToServiceMap_keys:
  "map_of (range_map (serviceToServiceMap s)) k = Some info \<Longrightarrow>
     \<exists>sv. s = Some sv \<and> spn_NamespacedName k = service_nsn sv"
  by (auto simp: serviceToServiceMap_def range_map_def dest!: add_service_ports_keys
      split: option.splits if_splits)

section \<open>Merging and unmerging\<close>

lemma merge_map:
  assumes "wf_gomap (range_map other)"
  shows "map_of (fst (ProxyServiceMap_merge sm other)) = map_of sm ++ map_of (range_map other)"
    and "set (snd (ProxyServiceMap_merge sm other)) = spn_Port ` fst ` set (range_map other)"
proof -
  let ?f = "\<lambda>(n, info) (sm, ex). (gm_put sm n info, str_insert (spn_Port n) ex)"
  have "wf_gomap xs \<Longrightarrow> map_of (fst (fold ?f xs (sm, ex))) = map_of sm ++ map_of xs
      \<and> set (snd (fold ?f xs (sm, ex))) = set ex \<union> spn_Port ` fst ` set xs"
    for xs :: ProxyServiceMap and sm ex
  proof (induction xs arbitrary: sm ex)
    case (Cons x xs)
    then show ?case
      by (cases x) (auto simp: fun_eq_iff map_add_def split: option.splits)
  qed simp
  with assms show "map_of (fst (ProxyServiceMap_merge sm other)) = map_of sm ++ map_of (range_map other)"
    and "set (snd (ProxyServiceMap_merge sm other)) = spn_Port ` fst ` set (range_map other)"
    by (auto simp: ProxyServiceMap_merge_def)
qed

definition stale_udp :: "ProxyServiceMap \<Rightarrow> ServicePortName set \<Rightarrow> string set" where
  "stale_udp sm ks =
     {IP_String (si_ClusterIP info) | k info. k \<in> ks \<and> map_of sm k = Some info \<and> si_Protocol info = ''udp''}"

lemma stale_udp_Un: "stale_udp sm (A \<union> B) = stale_udp sm A \<union> stale_udp sm B"
  unfolding stale_udp_def by blast

lemma unmerge_port_map:
  "map_of (fst (unmerge_port ex n s)) =
     (if spn_Port n \<in> set ex then map_of (fst s) else (map_of (fst s))(n := None))"
  by (cases s) (auto simp: unmerge_port_def fun_eq_iff split: option.splits)

lemma unmerge_map:
  "map_of (fst (ProxyServiceMap_unmerge sm other ex st)) k =
     (if k \<in> fst ` set (range_map other) \<and> spn_Port k \<notin> set ex then None else map_of sm k)"
proof -
  have "map_of (fst (fold (unmerge_port ex) ks s)) k =
     (if k \<in> set ks \<and> spn_Port k \<notin> set ex then None else map_of (fst s) k)" for ks s
    by (induction ks arbitrary: s) (auto simp: unmerge_port_map)
  then show ?thesis by (simp add: ProxyServiceMap_unmerge_def)
qed

lemma unmerge_port_wf: "wf_gomap (fst s) \<Longrightarrow> wf_gomap (fst (unmerge_port ex n s))"
  by (cases s) (auto simp: unmerge_port_def split: option.splits)

lemma unmerge_wf: "wf_gomap sm \<Longrightarrow> wf_gomap (fst (ProxyServiceMap_unmerge sm other ex st))"
  unfolding ProxyServiceMap_unmerge_def
  by (rule fold_invariant [where P = "\<lambda>s. wf_gomap (fst s)"]) (auto simp: unmerge_port_wf)

text \<open>The stale cluster IPs that an unmerge adds: those of the UDP entries it removes.\<close>

lemma unmerge_stale:
  "set (snd (ProxyServiceMap_unmerge sm other ex st)) =
     set st \<union> stale_udp sm {k \<in> fst ` set (range_map other). spn_Port k \<notin> set ex}"
proof -
  have "set (snd (fold (unmerge_port ex) ks s)) =
     set (snd s) \<union> stale_udp (fst s) {k \<in> set ks. spn_Port k \<notin> set ex}" for ks s
  proof (induction ks arbitrary: s)
    case (Cons n ks)
    have port: "set (snd (unmerge_port ex n s)) =
        set (snd s) \<union> stale_udp (fst s) {k \<in> {n}. spn_Port k \<notin> set ex}"
      by (cases s) (auto simp: unmerge_port_def stale_udp_def split: option.splits)
    have "stale_udp (fst (unmerge_port ex n s)) {k \<in> set ks. spn_Port k \<notin> set ex}
        = stale_udp (fst s) {k \<in> set ks - {n}. spn_Port k \<notin> set ex}"
      by (auto simp: stale_udp_def unmerge_port_map split: if_splits) (blast+)?
    moreover have "{k \<in> set (n # ks). spn_Port k \<notin> set ex}
        = {k \<in> {n}. spn_Port k \<notin> set ex} \<union> {k \<in> set ks - {n}. spn_Port k \<notin> set ex}" by auto
    ultimately show ?case using port by (simp only: fold.simps o_apply Cons.IH stale_udp_Un Un_assoc)
  qed (simp add: stale_udp_def)
  then show ?thesis by (simp add: ProxyServiceMap_unmerge_def)
qed

section \<open>The service map follows the API store\<close>

text \<open>The abstract contents of the service map: every port of every proxied service of the store.\<close>

abbreviation service_view :: "(NamespacedName \<rightharpoonup> api_Service) \<Rightarrow> ServicePortName \<rightharpoonup> ServiceInfo" where
  "service_view \<equiv> object_view serviceToServiceMap spn_NamespacedName"

abbreviation service_pending where
  "service_pending \<equiv> pending_changes serviceToServiceMap DeepEqual_maps sc_Previous sc_Current"

lemma apply_service_change_eq:
  "apply_service_change ch s =
     ProxyServiceMap_unmerge (fst (ProxyServiceMap_merge (fst s) (sc_Current ch))) (sc_Previous ch)
       (snd (ProxyServiceMap_merge (fst s) (sc_Current ch))) (snd s)"
  by (simp add: apply_service_change_def split: prod.splits)

lemma apply_service_change_map:
  assumes wf: "wf_gomap (range_map (sc_Current ch))"
    and prev: "\<And>k. k \<in> fst ` set (range_map (sc_Previous ch)) \<Longrightarrow> spn_NamespacedName k = n"
    and cur: "\<And>k. k \<in> fst ` set (range_map (sc_Current ch)) \<Longrightarrow> spn_NamespacedName k = n"
    and sub: "\<And>k. spn_NamespacedName k = n \<Longrightarrow> map_of (fst s) k \<noteq> None \<Longrightarrow>
        k \<in> fst ` set (range_map (sc_Previous ch)) \<union> fst ` set (range_map (sc_Current ch))"
  shows "map_of (fst (apply_service_change ch s)) k =
     (if spn_NamespacedName k = n then map_of (range_map (sc_Current ch)) k else map_of (fst s) k)"
proof -
  let ?p = "fst ` set (range_map (sc_Previous ch))" and ?c = "fst ` set (range_map (sc_Current ch))"
  obtain sm1 ex where m: "ProxyServiceMap_merge (fst s) (sc_Current ch) = (sm1, ex)" by fastforce
  have sm1: "map_of sm1 = map_of (fst s) ++ map_of (range_map (sc_Current ch))"
    and ex: "set ex = spn_Port ` ?c"
    using merge_map [OF wf, of "fst s"] m by auto
  have main: "map_of (fst (apply_service_change ch s)) k =
      (if k \<in> ?p \<and> spn_Port k \<notin> set ex then None else map_of sm1 k)"
    by (simp add: apply_service_change_eq m unmerge_map)
  have port: "k \<in> ?c" if "spn_NamespacedName k = n" "spn_Port k \<in> set ex"
  proof -
    from that(2) ex have "spn_Port k \<in> spn_Port ` ?c" by simp
    then obtain k' where k': "spn_Port k = spn_Port k'" "k' \<in> ?c" by (rule imageE)
    with cur [of k'] that(1) have "k' = k" by (cases k, cases k') simp
    with k'(2) show ?thesis by simp
  qed
  show ?thesis
  proof (cases "spn_NamespacedName k = n")
    case False
    then have "k \<notin> ?p" "k \<notin> ?c" using prev cur by blast+
    with False main sm1 show ?thesis by (simp add: map_add_def map_of_eq_None_iff [THEN iffD2])
  next
    case True
    show ?thesis
    proof (cases "k \<in> ?c")
      case c: True
      then have "spn_Port k \<in> set ex" using ex by blast
      moreover obtain i where "map_of (range_map (sc_Current ch)) k = Some i"
        using c by (metis map_of_eq_None_iff not_None_eq)
      ultimately show ?thesis using True main sm1 by simp
    next
      case c: False
      then have "map_of (range_map (sc_Current ch)) k = None" by (simp add: map_of_eq_None_iff)
      moreover have "spn_Port k \<notin> set ex" using port True c by blast
      moreover have "k \<in> ?p \<or> map_of (fst s) k = None" using sub [OF True] c by blast
      ultimately show ?thesis using True main sm1 by (auto simp: map_add_def)
    qed
  qed
qed

interpretation svc: change_apply serviceToServiceMap DeepEqual_maps ServiceChangeMap_Update
  sc_Previous sc_Current apply_service_change "\<lambda>s. map_of (fst s)" spn_NamespacedName service_nsn
proof
  show "equivp (DeepEqual_maps :: ProxyServiceMap option \<Rightarrow> _)" by (rule DeepEqual_maps_equivp)
  show "wf_gomap (range_map (serviceToServiceMap x))" for x by (rule serviceToServiceMap_wf)
  show "map_of (range_map (serviceToServiceMap x)) k = Some v \<Longrightarrow>
      \<exists>y. x = Some y \<and> spn_NamespacedName k = service_nsn y" for x k v
    by (rule serviceToServiceMap_keys)
  show "map_of (fst (apply_service_change ch s)) k =
      (if spn_NamespacedName k = n then map_of (range_map (sc_Current ch)) k else map_of (fst s) k)"
    if "wf_gomap (range_map (sc_Current ch))"
      "\<And>k. k \<in> fst ` set (range_map (sc_Previous ch)) \<Longrightarrow> spn_NamespacedName k = n"
      "\<And>k. k \<in> fst ` set (range_map (sc_Current ch)) \<Longrightarrow> spn_NamespacedName k = n"
      "\<And>k. spn_NamespacedName k = n \<Longrightarrow> map_of (fst s) k \<noteq> None \<Longrightarrow>
        k \<in> fst ` set (range_map (sc_Previous ch)) \<union> fst ` set (range_map (sc_Current ch))"
    for ch n s k using that by (rule apply_service_change_map)
  show "map_of (range_map a) = map_of (range_map b)" if "DeepEqual_maps a b"
    for a b :: "ProxyServiceMap option" using that by (rule DeepEqual_maps_map_of)
qed (auto simp: ServiceChangeMap_Update_def Let_def split: option.splits)

lemma apply_service_change_wf:
  "wf_gomap (fst s) \<Longrightarrow> wf_gomap (fst (apply_service_change ch s))"
proof -
  assume "wf_gomap (fst s)"
  then have "wf_gomap (fst (ProxyServiceMap_merge (fst s) (sc_Current ch)))"
    unfolding ProxyServiceMap_merge_def
    by (intro fold_invariant [where P = "\<lambda>s. wf_gomap (fst s)" and Q = "\<lambda>_. True"]) auto
  then show ?thesis
    by (auto simp: apply_service_change_def unmerge_wf split: prod.splits)
qed

lemma UpdateServiceMap_parts:
  "fst (UpdateServiceMap sm items) = fst (fold (\<lambda>(_, ch). apply_service_change ch) items (sm, []))"
  "us_StaleServices (snd (UpdateServiceMap sm items)) =
     snd (fold (\<lambda>(_, ch). apply_service_change ch) items (sm, []))"
  by (simp_all add: UpdateServiceMap_def Let_def split: prod.splits)

lemma UpdateServiceMap_wf: "wf_gomap sm \<Longrightarrow> wf_gomap (fst (UpdateServiceMap sm items))"
proof -
  assume "wf_gomap sm"
  then have "wf_gomap (fst (fold (\<lambda>(_, ch). apply_service_change ch) items (sm, [])))"
    by (intro fold_invariant [where P = "\<lambda>s. wf_gomap (fst s)" and Q = "\<lambda>_. True"]) (auto simp: apply_service_change_wf)
  then show ?thesis by (simp add: UpdateServiceMap_parts)
qed

lemma UpdateServiceMap_view:
  assumes "service_pending base st items" and "well_named service_nsn base" "well_named service_nsn st"
    and "\<And>k. map_of sm k = service_view base k \<or> map_of sm k = service_view st k"
  shows "map_of (fst (UpdateServiceMap sm items)) = service_view st"
  using svc.app_all [OF assms(1-3), of "(sm, [])"] assms(4) by (simp add: UpdateServiceMap_parts)

section \<open>Stale services\<close>

definition vanished_udp :: "(ServicePortName \<rightharpoonup> ServiceInfo) \<Rightarrow> (ServicePortName \<rightharpoonup> ServiceInfo) \<Rightarrow> NamespacedName set \<Rightarrow> string set" where
  "vanished_udp old new N =
     {IP_String (si_ClusterIP info) | k info. spn_NamespacedName k \<in> N \<and>
        old k = Some info \<and> new k = None \<and> si_Protocol info = ''udp''}"

lemma vanished_udp_Un:
  "vanished_udp old new (M \<union> N) = vanished_udp old new M \<union> vanished_udp old new N"
  unfolding vanished_udp_def by blast

lemma existing_ports_view:
  assumes wn: "well_named service_nsn st" and cur: "sc_Current ch = serviceToServiceMap (st n)"
    and k: "spn_NamespacedName k = n"
  shows "spn_Port k \<in> spn_Port ` fst ` set (range_map (sc_Current ch)) \<longleftrightarrow> service_view st k \<noteq> None"
    (is "_ \<in> _ ` ?c \<longleftrightarrow> _")
proof -
  have "k \<in> ?c \<longleftrightarrow> service_view st k \<noteq> None"
    unfolding cur using k by (auto simp: object_view_def map_of_eq_None_iff)
  moreover have "spn_Port k \<in> spn_Port ` ?c \<longleftrightarrow> k \<in> ?c"
  proof
    assume "spn_Port k \<in> spn_Port ` ?c"
    then obtain k' where k': "spn_Port k = spn_Port k'" "k' \<in> ?c" by (rule imageE)
    moreover have "spn_NamespacedName k' = n"
      using k'(2) svc.named_keys [OF wn] unfolding cur by blast
    ultimately have "k' = k" using k by (cases k, cases k') simp
    with k'(2) show "k \<in> ?c" by simp
  qed simp
  ultimately show ?thesis by simp
qed

lemma apply_service_change_stale:
  assumes pend: "service_pending base st items" and wn: "well_named service_nsn base" "well_named service_nsn st"
    and mem: "(n, ch) \<in> set items"
    and sm: "\<And>k. spn_NamespacedName k = n \<Longrightarrow> map_of (fst s) k = service_view base k"
  shows "set (snd (apply_service_change ch s)) =
     set (snd s) \<union> vanished_udp (service_view base) (service_view st) {n}"
proof -
  note c = svc.pending_item [OF pend mem]
  let ?p = "fst ` set (range_map (sc_Previous ch))" and ?c = "fst ` set (range_map (sc_Current ch))"
  obtain sm1 ex where m: "ProxyServiceMap_merge (fst s) (sc_Current ch) = (sm1, ex)" by fastforce
  have wf: "wf_gomap (range_map (sc_Current ch))" using c(1) serviceToServiceMap_wf by simp
  have sm1: "map_of sm1 = map_of (fst s) ++ map_of (range_map (sc_Current ch))"
    and ex: "set ex = spn_Port ` ?c"
    using merge_map [OF wf, of "fst s"] m by auto
  have pk: "spn_NamespacedName k = n" if "k \<in> ?p" for k
    using that svc.named_keys [OF wn(1)] unfolding fst_set_map_of_eq [OF c(2)] by blast
  have ck: "spn_Port k \<in> set ex \<longleftrightarrow> service_view st k \<noteq> None" if "spn_NamespacedName k = n" for k
    using existing_ports_view [OF wn(2) c(1) that] ex by simp
  have "stale_udp sm1 {k \<in> ?p. spn_Port k \<notin> set ex} =
      vanished_udp (service_view base) (service_view st) {n}" (is "?l = ?r")
  proof (intro equalityI subsetI)
    fix x assume "x \<in> ?l"
    then obtain k info where k: "x = IP_String (si_ClusterIP info)" "k \<in> ?p" "spn_Port k \<notin> set ex"
      "map_of sm1 k = Some info" "si_Protocol info = ''udp''"
      by (auto simp: stale_udp_def)
    have n: "spn_NamespacedName k = n" using pk k(2) by blast
    with ck k(3) have v: "service_view st k = None" by blast
    then have "service_view base k = Some info"
      using sm1 sm [OF n] n c(1) k(4) by (simp add: object_view_def map_add_def)
    with v k n show "x \<in> ?r" unfolding vanished_udp_def by blast
  next
    fix x assume "x \<in> ?r"
    then obtain k info where k: "x = IP_String (si_ClusterIP info)" "spn_NamespacedName k = n"
      "service_view base k = Some info" "service_view st k = None" "si_Protocol info = ''udp''"
      by (auto simp: vanished_udp_def)
    have "k \<in> ?p" using k(2,3) unfolding fst_set_map_of_eq [OF c(2)] object_view_def
      by (metis map_of_eq_None_iff option.distinct(1))
    moreover have "map_of sm1 k = Some info"
      using sm1 sm [OF k(2)] k c(1) by (simp add: object_view_def map_add_def)
    moreover have "spn_Port k \<notin> set ex" using ck [OF k(2)] k(4) by simp
    ultimately show "x \<in> ?l" using k(1,5) unfolding stale_udp_def by blast
  qed
  then show ?thesis using unmerge_stale [of sm1 "sc_Previous ch" ex "snd s"]
    by (simp add: apply_service_change_eq m)
qed

lemma apply_service_changes_stale:
  assumes pend: "service_pending base st items" and wn: "well_named service_nsn base" "well_named service_nsn st"
    and sm: "map_of sm = service_view base"
  shows "set (snd (fold (\<lambda>(_, ch). apply_service_change ch) items (sm, []))) =
     vanished_udp (service_view base) (service_view st) UNIV"
proof -
  let ?f = "fold (\<lambda>(_ :: NamespacedName, ch). apply_service_change ch)"
  let ?v = "vanished_udp (service_view base) (service_view st)"
  have res: "set (snd (?f its s)) = set (snd s) \<union> ?v (fst ` set its)"
    if "set its \<subseteq> set items" "wf_gomap its"
      "\<And>k. spn_NamespacedName k \<in> fst ` set its \<Longrightarrow> map_of (fst s) k = service_view base k" for its s
    using that
  proof (induction its arbitrary: s)
    case (Cons it its)
    obtain n ch where it: "it = (n, ch)" by (cases it)
    have sv: "\<And>k. spn_NamespacedName k = n \<Longrightarrow> map_of (fst s) k = service_view base k"
      and mem: "(n, ch) \<in> set items"
      using Cons.prems it by auto
    have n: "n \<notin> fst ` set its" using Cons.prems(2) it by (simp add: map_of_eq_None_iff)
    have keep: "map_of (fst (apply_service_change ch s)) k = service_view base k"
      if "spn_NamespacedName k \<in> fst ` set its" for k
    proof -
      have "spn_NamespacedName k \<noteq> n" using that n by blast
      then have "map_of (fst (apply_service_change ch s)) k = map_of (fst s) k"
        using svc.app_step [OF pend wn mem, of s k] sv by auto
      with Cons.prems(3) [of k] that it show ?thesis by simp
    qed
    have "set (snd (?f its (apply_service_change ch s))) =
        set (snd (apply_service_change ch s)) \<union> ?v (fst ` set its)"
      using Cons.prems(1,2) it keep by (intro Cons.IH) auto
    with apply_service_change_stale [OF pend wn mem sv] show ?case
      using vanished_udp_Un [of _ _ "{n}" "fst ` set its"] by (simp add: it Un_assoc)
  qed (simp add: vanished_udp_def)
  have "?v (fst ` set items) = ?v UNIV"
    using svc.view_unchanged [OF pend] unfolding vanished_udp_def by fastforce
  with res [of items "(sm, [])"] sm pending_wf [OF pend] show ?thesis by simp
qed

section \<open>Rebuilding from the list\<close>

lemma add_service_ports_add:
  "map_of (add_service_ports s m) = map_of m ++ map_of (add_service_ports s [])"
proof -
  let ?g = "\<lambda>p m. let n = \<lparr>spn_NamespacedName = service_nsn s, spn_Port = sp_Name p\<rparr>
           in gm_put m n (NewServiceInfo n p s)"
  have "map_of (fold ?g ps m) = map_of m ++ map_of (fold ?g ps [])" for ps
    by (induction ps rule: rev_induct) (simp_all add: Let_def map_add_def fun_eq_iff)
  then show ?thesis by (simp add: add_service_ports_def)
qed

text \<open>The loop body of \<^verbatim>\<open>BuildServiceMap\<close> adds what \<^verbatim>\<open>serviceToServiceMap\<close> gives.\<close>

lemma build_step:
  "map_of (build_service s m) = map_of m ++ map_of (range_map (serviceToServiceMap (Some s)))"
  using add_service_ports_add [of s m]
  by (simp add: build_service_def serviceToServiceMap_def ShouldSkipService_def IsServiceIPSet_def
      range_map_def)

lemma serviceToServiceMap_other:
  "spn_NamespacedName k \<noteq> service_nsn s \<Longrightarrow> map_of (range_map (serviceToServiceMap (Some s))) k = None"
  using serviceToServiceMap_keys [of "Some s" k]
  by (cases "map_of (range_map (serviceToServiceMap (Some s))) k") auto

lemma build_services:
  assumes "\<And>s. s \<in> set ss \<Longrightarrow> st (service_nsn s) = Some s" and "well_named service_nsn st"
    and "map_of m k = None \<or> map_of m k = service_view st k"
  shows "map_of (fold build_service ss m) k =
     (if st (spn_NamespacedName k) \<in> Some ` set ss then service_view st k else map_of m k)"
  using assms(1,3)
proof (induction ss arbitrary: m)
  case (Cons s ss)
  have st: "st (service_nsn s) = Some s" using Cons.prems(1) by simp
  have m': "map_of (build_service s m) k =
      (if st (spn_NamespacedName k) = Some s then service_view st k else map_of m k)"
  proof (cases "spn_NamespacedName k = service_nsn s")
    case True
    with st Cons.prems(2) show ?thesis
      by (auto simp: build_step object_view_def map_add_def split: option.splits)
  next
    case False
    with assms(2) have "st (spn_NamespacedName k) \<noteq> Some s" by (auto simp: well_named_def)
    with serviceToServiceMap_other [OF False] show ?thesis by (simp add: build_step map_add_def)
  qed
  have "map_of (fold build_service ss (build_service s m)) k =
    (if st (spn_NamespacedName k) \<in> Some ` set ss then service_view st k
     else map_of (build_service s m) k)"
    using Cons.prems m' by (intro Cons.IH) auto
  with m' show ?case by auto
qed simp

lemma BuildServiceMap_view:
  assumes "\<And>s. s \<in> set services \<longleftrightarrow> st (service_nsn s) = Some s" and "well_named service_nsn st"
  shows "map_of (fst (BuildServiceMap services old)) = service_view st"
proof -
  have "map_of (fold build_service services []) k =
      (if st (spn_NamespacedName k) \<in> Some ` set services then service_view st k else None)" for k
    using build_services [of services st "[]" k] assms by simp
  moreover have "service_view st k = None" if "st (spn_NamespacedName k) \<notin> Some ` set services" for k
  proof (cases "st (spn_NamespacedName k)")
    case None
    then show ?thesis by (simp add: object_view_def serviceToServiceMap_def range_map_def)
  next
    case (Some s)
    with assms have "s \<in> set services" by (metis well_named_def)
    with that Some show ?thesis by simp
  qed
  ultimately show ?thesis unfolding BuildServiceMap_def Let_def by (auto simp: fun_eq_iff)
qed

lemma BuildServiceMap_stale:
  assumes "wf_gomap old"
  shows "set (snd (BuildServiceMap services old)) =
     vanished_udp (map_of old) (map_of (fst (BuildServiceMap services old))) UNIV"
proof -
  let ?new = "fst (BuildServiceMap services old)"
  define G where "G x = (if map_of ?new (fst x) = None \<and> si_Protocol (snd x) = ''udp''
      then {IP_String (si_ClusterIP (snd x))} else {})" for x :: "ServicePortName \<times> ServiceInfo"
  have one: "set (build_stale ?new x st) = G x \<union> set st" for x st
    by (cases x) (simp add: build_stale_def G_def)
  have "set (fold (build_stale ?new) xs st) = (\<Union>x \<in> set xs. G x) \<union> set st" for xs st
    by (induction xs arbitrary: st) (auto simp: one)
  from this [of old "[]"] have "set (snd (BuildServiceMap services old)) = (\<Union>x \<in> set old. G x)"
    by (simp add: BuildServiceMap_def Let_def)
  also have "\<dots> = vanished_udp (map_of old) (map_of ?new) UNIV"
    unfolding vanished_udp_def wf_gomap_mem [OF assms, symmetric] G_def by force
  finally show ?thesis .
qed

section \<open>Properties\<close>

text \<open>
  (C11) Whatever informer events arrive between two syncs, as long as each reports as its old
  object what the store held, applying the coalesced changes brings the service map from the
  view of the old store to the view of the new one: an entry for every port of every proxied
  service and no other entry, in any iteration order of the change map.
\<close>

theorem service_map_follows_store:
  assumes "consistent st0 es" and "well_named service_nsn st0" and "well_named service_nsn (store_after st0 es)"
    and "map_of sm = service_view st0"
  shows "map_of (fst (UpdateServiceMap sm (run_updates ServiceChangeMap_Update NewServiceChangeMap es)))
     = service_view (store_after st0 es)"
proof -
  have "service_pending st0 (store_after st0 es) (run_updates ServiceChangeMap_Update NewServiceChangeMap es)"
    unfolding NewServiceChangeMap_def using svc.pending_empty assms(1) by (rule svc.pending_run)
  then show ?thesis using assms(2-4) by (intro UpdateServiceMap_view) auto
qed

definition ex_nsn :: NamespacedName where
  "ex_nsn = \<lparr>nn_Namespace = ''ns'', nn_Name = ''web''\<rparr>"

definition ex_service :: "int \<Rightarrow> api_Service" where
  "ex_service np =
     \<lparr>as_Namespace = ''ns'', as_Name = ''web'', as_ClusterIP = ''10.0.0.1'', as_Type = ''ClusterIP'',
      as_SessionAffinity = ''None'', as_ExternalIPs = [],
      as_Ports = [\<lparr>sp_Name = ''http'', sp_Protocol = ''TCP'', sp_Port = 80, sp_NodePort = np\<rparr>,
                  \<lparr>sp_Name = ''dns'', sp_Protocol = ''UDP'', sp_Port = 53, sp_NodePort = 0\<rparr>]\<rparr>"

lemma ex_service_nsn [simp]: "service_nsn (ex_service np) = ex_nsn"
  by (simp add: service_nsn_def ex_service_def ex_nsn_def)

lemma service_view_empty [simp]: "service_view Map.empty = Map.empty"
  by (simp add: object_view_def serviceToServiceMap_def range_map_def fun_eq_iff)

theorem service_map_follows_store_witness:
  "map_of (fst (UpdateServiceMap [] (run_updates ServiceChangeMap_Update NewServiceChangeMap
       [(ex_nsn, None, Some (ex_service 0)), (ex_nsn, Some (ex_service 0), Some (ex_service 30080))])))
     = service_view [ex_nsn \<mapsto> ex_service 30080]"
  using service_map_follows_store [of Map.empty
      "[(ex_nsn, None, Some (ex_service 0)), (ex_nsn, Some (ex_service 0), Some (ex_service 30080))]" "[]"]
  by (simp add: well_named_def)

text \<open>
  (C13) The incremental update and the full rebuild from the watcher's list agree: the same
  service map and the same set of stale UDP cluster IPs, which is exactly the set of cluster IPs
  of the UDP ports that were served before and are not any more.
\<close>

theorem service_incremental_equals_rebuild:
  assumes "consistent st0 es" and "well_named service_nsn st0" and "well_named service_nsn (store_after st0 es)"
    and "wf_gomap sm" and "map_of sm = service_view st0"
    and "\<And>s. s \<in> set services \<longleftrightarrow> store_after st0 es (service_nsn s) = Some s"
  shows "let inc = UpdateServiceMap sm (run_updates ServiceChangeMap_Update NewServiceChangeMap es);
             full = BuildServiceMap services sm
         in map_of (fst inc) = map_of (fst full)
          \<and> set (us_StaleServices (snd inc)) = set (snd full)
          \<and> set (snd full) =
             {IP_String (si_ClusterIP info) | k info. service_view st0 k = Some info \<and>
                service_view (store_after st0 es) k = None \<and> si_Protocol info = ''udp''}"
proof -
  let ?items = "run_updates ServiceChangeMap_Update NewServiceChangeMap es"
  let ?inc = "UpdateServiceMap sm ?items"
  have pend: "service_pending st0 (store_after st0 es) ?items"
    unfolding NewServiceChangeMap_def using svc.pending_empty assms(1) by (rule svc.pending_run)
  have "map_of (fst ?inc) = service_view (store_after st0 es)"
    using pend assms(2,3,5) by (intro UpdateServiceMap_view) auto
  moreover have b: "map_of (fst (BuildServiceMap services sm)) = service_view (store_after st0 es)"
    using assms(6,3) by (rule BuildServiceMap_view)
  moreover have "set (us_StaleServices (snd ?inc)) =
      vanished_udp (service_view st0) (service_view (store_after st0 es)) UNIV"
    using apply_service_changes_stale [OF pend assms(2,3,5)] by (simp add: UpdateServiceMap_parts)
  moreover have "set (snd (BuildServiceMap services sm)) =
      vanished_udp (service_view st0) (service_view (store_after st0 es)) UNIV"
    using BuildServiceMap_stale [OF assms(4), of services] assms(5) b by simp
  ultimately show ?thesis by (simp add: vanished_udp_def)
qed

theorem service_incremental_equals_rebuild_witness:
  "map_of (fst (UpdateServiceMap [] (run_updates ServiceChangeMap_Update NewServiceChangeMap
       [(ex_nsn, None, Some (ex_service 0))]))) = map_of (fst (BuildServiceMap [ex_service 0] []))"
proof -
  let ?es = "[(ex_nsn, None, Some (ex_service 0))]"
  have "s \<in> set [ex_service 0] \<longleftrightarrow> store_after Map.empty ?es (service_nsn s) = Some s" for s
    by auto
  from service_incremental_equals_rebuild [OF _ _ _ _ _ this, of "[]"] show ?thesis
    by (simp add: well_named_def Let_def)
qed

text \<open>
  A service that is changed and changed back between two syncs leaves nothing to do: after
  the event that restores the object the proxy had applied, no change is pending for its name.
\<close>

theorem service_revert_coalesces:
  assumes "consistent st0 es"
  shows "map_of (fst (ServiceChangeMap_Update
      (run_updates ServiceChangeMap_Update NewServiceChangeMap es) n (store_after st0 es n) (st0 n))) n = None"
  unfolding NewServiceChangeMap_def
  by (rule svc.upd_revert [OF svc.pending_run [OF svc.pending_empty assms] svc.deq_refl])

theorem service_revert_coalesces_witness:
  "map_of (fst (ServiceChangeMap_Update
      (run_updates ServiceChangeMap_Update NewServiceChangeMap [(ex_nsn, None, Some (ex_service 0))])
      ex_nsn (Some (ex_service 0)) None)) ex_nsn = None"
  using service_revert_coalesces [of Map.empty "[(ex_nsn, None, Some (ex_service 0))]" ex_nsn] by simp

end
