(* ===== verification/Endpoints.thy ===== *)
theory Endpoints
  imports Api_Types
begin

text \<open>
  src/pkg/proxy/util/endpoints.go: the proxy's view of endpoints, the pending endpoints changes,
  their application to the endpoints map, and the detection of stale connections.
\<close>

section \<open>Data\<close>

record EndpointsInfo =
  ei_Ip :: string
  ei_Port :: int
  ei_IsLocal :: bool

type_synonym ProxyEndpointMap = "(ServicePortName, EndpointsInfo list) gomap"

record EndpointServicePair =
  esp_Endpoint :: string
  esp_ServicePortName :: ServicePortName

text \<open>
  A \<^verbatim>\<open>map[K]bool\<close> that only ever stores true is the list of its keys.  The field
  \<^verbatim>\<open>HcEndpoints\<close> is never written by the sources and is left out.
\<close>

record UpdateEndpointMapResult =
  ue_StaleEndpoints :: "EndpointServicePair list"
  ue_StaleServiceNames :: "ServicePortName list"

record EndpointsChange =
  ec_Previous :: "ProxyEndpointMap option"
  ec_Current :: "ProxyEndpointMap option"

type_synonym EndpointsChangeItems = "(NamespacedName, EndpointsChange) gomap"

record EndpointsChangeMap =
  ecm_Hostname :: string
  ecm_Items :: EndpointsChangeItems

section \<open>Operations\<close>

definition NewEndpointsInfo :: "EndpointAddress \<Rightarrow> EndpointPort \<Rightarrow> string \<Rightarrow> EndpointsInfo" where
  "NewEndpointsInfo address port hostname =
     \<lparr>ei_Ip = ea_IP address, ei_Port = ep_Port port, ei_IsLocal = (ea_NodeName address = Some hostname)\<rparr>"

definition NewEndpointsChangeMap :: "string \<Rightarrow> EndpointsChangeMap" where
  "NewEndpointsChangeMap hostname = \<lparr>ecm_Hostname = hostname, ecm_Items = []\<rparr>"

text \<open>The address loop: every address with a host is appended to the entry of the port.\<close>

definition add_addresses ::
  "string \<Rightarrow> ServicePortName \<Rightarrow> EndpointPort \<Rightarrow> EndpointAddress list \<Rightarrow> ProxyEndpointMap \<Rightarrow> ProxyEndpointMap" where
  "add_addresses hostname svcPort port addrs m =
     fold (\<lambda>addr m.
         if ea_IP addr = '''' then m
         else gm_put m svcPort (gm_slice m svcPort @ [NewEndpointsInfo addr port hostname]))
       addrs m"

definition add_subset :: "string \<Rightarrow> NamespacedName \<Rightarrow> EndpointSubset \<Rightarrow> ProxyEndpointMap \<Rightarrow> ProxyEndpointMap" where
  "add_subset hostname nsn ss m =
     fold (\<lambda>port m.
         if ep_Port port = 0 then m
         else add_addresses hostname \<lparr>spn_NamespacedName = nsn, spn_Port = ep_Name port\<rparr> port
                (es_Addresses ss) m)
       (es_Ports ss) m"

definition endpointsToEndpointsMap :: "string \<Rightarrow> api_Endpoints option \<Rightarrow> ProxyEndpointMap option" where
  "endpointsToEndpointsMap hostname endpoints =
     (case endpoints of
        None \<Rightarrow> None
      | Some e \<Rightarrow> Some (fold (add_subset hostname (endpoints_nsn e)) (ae_Subsets e) []))"

definition EndpointsChangeItems_Update ::
  "string \<Rightarrow> EndpointsChangeItems \<Rightarrow> NamespacedName \<Rightarrow> api_Endpoints option \<Rightarrow> api_Endpoints option
   \<Rightarrow> EndpointsChangeItems \<times> bool" where
  "EndpointsChangeItems_Update hostname items namespacedName previous current =
     (let change0 = (case gm_get items namespacedName of
            Some ch \<Rightarrow> ch
          | None \<Rightarrow> \<lparr>ec_Previous = endpointsToEndpointsMap hostname previous, ec_Current = None\<rparr>);
          change = change0\<lparr>ec_Current := endpointsToEndpointsMap hostname current\<rparr>;
          items1 = gm_put items namespacedName change;
          items2 = (if DeepEqual_maps (ec_Previous change) (ec_Current change)
                    then gm_del items1 namespacedName else items1)
      in (items2, length items2 > 0))"

definition EndpointsChangeMap_Update ::
  "EndpointsChangeMap \<Rightarrow> NamespacedName \<Rightarrow> api_Endpoints option \<Rightarrow> api_Endpoints option
   \<Rightarrow> EndpointsChangeMap \<times> bool" where
  "EndpointsChangeMap_Update ecm namespacedName previous current =
     (let (items, r) = EndpointsChangeItems_Update (ecm_Hostname ecm) (ecm_Items ecm) namespacedName
            previous current
      in (ecm\<lparr>ecm_Items := items\<rparr>, r))"

definition ProxyEndpointMap_merge :: "ProxyEndpointMap \<Rightarrow> ProxyEndpointMap option \<Rightarrow> ProxyEndpointMap" where
  "ProxyEndpointMap_merge em other =
     fold (\<lambda>(svcPort, eps) em. gm_put em svcPort eps) (range_map other) em"

definition ProxyEndpointMap_unmerge :: "ProxyEndpointMap \<Rightarrow> ProxyEndpointMap option \<Rightarrow> ProxyEndpointMap" where
  "ProxyEndpointMap_unmerge em other = fold (\<lambda>(svcPort, _) em. gm_del em svcPort) (range_map other) em"

definition endpoint_pair :: "ServicePortName \<Rightarrow> EndpointsInfo \<Rightarrow> EndpointServicePair" where
  "endpoint_pair svcPortName ep =
     \<lparr>esp_Endpoint = JoinHostPort (ei_Ip ep) (Itoa (ei_Port ep)), esp_ServicePortName = svcPortName\<rparr>"

text \<open>
  The inner loop of the stale check: an old endpoint is stale unless the new list holds an equal
  one.
\<close>

definition stale_endpoints ::
  "ProxyEndpointMap \<Rightarrow> ServicePortName \<Rightarrow> EndpointsInfo list \<Rightarrow> EndpointServicePair list \<Rightarrow> EndpointServicePair list" where
  "stale_endpoints newMap svcPortName epList st =
     fold (\<lambda>ep st.
         if list_ex (\<lambda>new. new = ep) (gm_slice newMap svcPortName) then st
         else str_insert (endpoint_pair svcPortName ep) st)
       epList st"

definition detectStaleConnections ::
  "ProxyEndpointMap option \<Rightarrow> ProxyEndpointMap option \<Rightarrow> EndpointServicePair list \<Rightarrow> ServicePortName list
   \<Rightarrow> EndpointServicePair list \<times> ServicePortName list" where
  "detectStaleConnections oldEndpointsMap newEndpointsMap staleEndpoints staleServiceNames =
     (fold (\<lambda>(svcPortName, epList). stale_endpoints (range_map newEndpointsMap) svcPortName epList)
        (range_map oldEndpointsMap) staleEndpoints,
      fold (\<lambda>(svcPortName, epList) st.
          if length epList > 0 \<and> length (gm_slice (range_map oldEndpointsMap) svcPortName) = 0
          then str_insert svcPortName st else st)
        (range_map newEndpointsMap) staleServiceNames)"

text \<open>One pass of the loop over the pending changes.\<close>

definition apply_endpoints_change ::
  "EndpointsChange \<Rightarrow> ProxyEndpointMap \<times> EndpointServicePair list \<times> ServicePortName list
   \<Rightarrow> ProxyEndpointMap \<times> EndpointServicePair list \<times> ServicePortName list" where
  "apply_endpoints_change change s =
     (let (endpointsMap, staleE, staleS) = s
      in (ProxyEndpointMap_merge (ProxyEndpointMap_unmerge endpointsMap (ec_Previous change)) (ec_Current change),
          detectStaleConnections (ec_Previous change) (ec_Current change) staleE staleS))"

definition UpdateEndpointsMap ::
  "ProxyEndpointMap \<Rightarrow> EndpointsChangeItems \<Rightarrow> ProxyEndpointMap \<times> UpdateEndpointMapResult" where
  "UpdateEndpointsMap endpointsMap items =
     (let (endpointsMap1, staleE, staleS) =
            fold (\<lambda>(_, change). apply_endpoints_change change) items (endpointsMap, [], [])
      in (endpointsMap1, \<lparr>ue_StaleEndpoints = staleE, ue_StaleServiceNames = staleS\<rparr>))"

text \<open>
  \<^verbatim>\<open>BuildEndPointsMap\<close> rebuilds the map from the watcher's list: the list of a port is
  assigned, not appended, for every subset that names it.
\<close>

definition build_subset :: "string \<Rightarrow> NamespacedName \<Rightarrow> EndpointSubset \<Rightarrow> ProxyEndpointMap \<Rightarrow> ProxyEndpointMap" where
  "build_subset hostname nsn ss m =
     fold (\<lambda>port m.
         if ep_Port port = 0 then m
         else gm_put m \<lparr>spn_NamespacedName = nsn, spn_Port = ep_Name port\<rparr>
                (map (\<lambda>addr. NewEndpointsInfo addr port hostname)
                  (filter (\<lambda>addr. ea_IP addr \<noteq> '''') (es_Addresses ss))))
       (es_Ports ss) m"

definition BuildEndPointsMap ::
  "string \<Rightarrow> api_Endpoints list \<Rightarrow> ProxyEndpointMap \<Rightarrow> ProxyEndpointMap \<times> EndpointServicePair list" where
  "BuildEndPointsMap hostname endpointsList curMap =
     (let endpointsMap =
            fold (\<lambda>e m. fold (build_subset hostname (endpoints_nsn e)) (ae_Subsets e) m) endpointsList []
      in (endpointsMap,
          fold (\<lambda>(svcPort, epList). stale_endpoints endpointsMap svcPort epList) curMap []))"

section \<open>The change map keeps its contract\<close>

lemma add_addresses_map:
  "map_of (add_addresses hostname n port addrs m) k \<noteq> None \<Longrightarrow> map_of m k \<noteq> None \<or> k = n"
proof -
  have "map_of (fold (\<lambda>addr m. if ea_IP addr = '''' then m
         else gm_put m n (gm_slice m n @ [NewEndpointsInfo addr port hostname])) addrs m) k \<noteq> None
      \<Longrightarrow> map_of m k \<noteq> None \<or> k = n"
    by (induction addrs arbitrary: m) (force split: if_splits)+
  then show "map_of (add_addresses hostname n port addrs m) k \<noteq> None \<Longrightarrow> ?thesis"
    by (simp add: add_addresses_def)
qed

lemma add_subset_map:
  "map_of (add_subset hostname nsn ss m) k \<noteq> None \<Longrightarrow> map_of m k \<noteq> None \<or> spn_NamespacedName k = nsn"
proof -
  have "map_of (fold (\<lambda>port m. if ep_Port port = 0 then m
         else add_addresses hostname \<lparr>spn_NamespacedName = nsn, spn_Port = ep_Name port\<rparr> port
                (es_Addresses ss) m) ports m) k \<noteq> None
      \<Longrightarrow> map_of m k \<noteq> None \<or> spn_NamespacedName k = nsn" for ports
  proof (induction ports arbitrary: m)
    case (Cons p ports)
    then show ?case
      using add_addresses_map [of hostname "\<lparr>spn_NamespacedName = nsn, spn_Port = ep_Name p\<rparr>" p
          "es_Addresses ss" m k]
      by (auto split: if_splits)
  qed simp
  then show "map_of (add_subset hostname nsn ss m) k \<noteq> None \<Longrightarrow> ?thesis"
    by (simp add: add_subset_def)
qed

lemma add_subset_wf: "wf_gomap m \<Longrightarrow> wf_gomap (add_subset hostname nsn ss m)"
proof -
  have a: "wf_gomap m \<Longrightarrow> wf_gomap (add_addresses hostname n p addrs m)" for n p addrs m
    unfolding add_addresses_def
    by (rule fold_invariant [where P = wf_gomap and Q = "\<lambda>_. True"]) auto
  then show "wf_gomap m \<Longrightarrow> ?thesis"
    unfolding add_subset_def
    by (intro fold_invariant [where P = wf_gomap and Q = "\<lambda>_. True"]) auto
qed

lemma endpointsToEndpointsMap_wf: "wf_gomap (range_map (endpointsToEndpointsMap hostname e))"
  unfolding endpointsToEndpointsMap_def range_map_def
  by (auto intro!: fold_invariant [where P = wf_gomap and Q = "\<lambda>_. True"] simp: add_subset_wf
      split: option.splits)

lemma endpointsToEndpointsMap_keys:
  assumes "map_of (range_map (endpointsToEndpointsMap hostname x)) k = Some v"
  shows "\<exists>e. x = Some e \<and> spn_NamespacedName k = endpoints_nsn e"
proof (cases x)
  case (Some e)
  have "map_of (fold (add_subset hostname (endpoints_nsn e)) sss m) k \<noteq> None \<Longrightarrow>
      map_of m k \<noteq> None \<or> spn_NamespacedName k = endpoints_nsn e" for sss m
  proof (induction sss arbitrary: m)
    case (Cons ss sss)
    then show ?case
      using Cons.IH [of "add_subset hostname (endpoints_nsn e) ss m"]
        add_subset_map [of hostname "endpoints_nsn e" ss m k] by auto
  qed simp
  from this [of "ae_Subsets e" "[]"] assms Some show ?thesis
    by (auto simp: endpointsToEndpointsMap_def range_map_def)
qed (use assms in \<open>simp add: endpointsToEndpointsMap_def range_map_def\<close>)

lemma ProxyEndpointMap_unmerge_map:
  "map_of (ProxyEndpointMap_unmerge em other) k =
     (if k \<in> fst ` set (range_map other) then None else map_of em k)"
proof -
  have "map_of (fold (\<lambda>(n, _) em. gm_del em n) xs em) k =
      (if k \<in> fst ` set xs then None else map_of em k)" for xs :: ProxyEndpointMap
    by (induction xs arbitrary: em) auto
  then show ?thesis by (simp add: ProxyEndpointMap_unmerge_def)
qed

lemma ProxyEndpointMap_merge_map:
  assumes "wf_gomap (range_map other)"
  shows "map_of (ProxyEndpointMap_merge em other) = map_of em ++ map_of (range_map other)"
  unfolding ProxyEndpointMap_merge_def by (rule map_of_fold_put [OF assms])

lemma apply_endpoints_change_map:
  assumes "wf_gomap (range_map (ec_Current ch))"
    and "\<And>k. k \<in> fst ` set (range_map (ec_Previous ch)) \<Longrightarrow> spn_NamespacedName k = n"
    and "\<And>k. k \<in> fst ` set (range_map (ec_Current ch)) \<Longrightarrow> spn_NamespacedName k = n"
    and "\<And>k. spn_NamespacedName k = n \<Longrightarrow> map_of (fst s) k \<noteq> None \<Longrightarrow>
        k \<in> fst ` set (range_map (ec_Previous ch)) \<union> fst ` set (range_map (ec_Current ch))"
  shows "map_of (fst (apply_endpoints_change ch s)) k =
     (if spn_NamespacedName k = n then map_of (range_map (ec_Current ch)) k else map_of (fst s) k)"
proof -
  let ?p = "fst ` set (range_map (ec_Previous ch))" and ?c = "fst ` set (range_map (ec_Current ch))"
  have c: "k \<in> ?c \<longleftrightarrow> map_of (range_map (ec_Current ch)) k \<noteq> None"
    by (simp add: map_of_eq_None_iff)
  have "map_of (fst (apply_endpoints_change ch s)) k =
      (case map_of (range_map (ec_Current ch)) k of
         None \<Rightarrow> if k \<in> ?p then None else map_of (fst s) k | Some v \<Rightarrow> Some v)"
    by (cases s) (auto simp: apply_endpoints_change_def ProxyEndpointMap_merge_map [OF assms(1)]
        ProxyEndpointMap_unmerge_map map_add_def split: option.splits)
  moreover have "k \<notin> ?p \<and> map_of (range_map (ec_Current ch)) k = None" if "spn_NamespacedName k \<noteq> n"
    using assms(2,3) c that by blast
  moreover have "k \<in> ?p \<or> map_of (fst s) k = None"
    if "spn_NamespacedName k = n" "map_of (range_map (ec_Current ch)) k = None"
    using assms(4) [OF that(1)] c that(2) by blast
  ultimately show ?thesis
    by (cases "spn_NamespacedName k = n"; cases "map_of (range_map (ec_Current ch)) k") auto
qed

interpretation ep: change_apply "endpointsToEndpointsMap hostname" DeepEqual_maps
  "EndpointsChangeItems_Update hostname" ec_Previous ec_Current apply_endpoints_change
  "\<lambda>s. map_of (fst s)" spn_NamespacedName endpoints_nsn
  for hostname
proof
  show "equivp (DeepEqual_maps :: ProxyEndpointMap option \<Rightarrow> _)" by (rule DeepEqual_maps_equivp)
  show "wf_gomap (range_map (endpointsToEndpointsMap hostname x))" for x
    by (rule endpointsToEndpointsMap_wf)
  show "map_of (range_map (endpointsToEndpointsMap hostname x)) k = Some v \<Longrightarrow>
      \<exists>y. x = Some y \<and> spn_NamespacedName k = endpoints_nsn y" for x k v
    by (rule endpointsToEndpointsMap_keys)
  show "map_of (fst (apply_endpoints_change ch s)) k =
      (if spn_NamespacedName k = n then map_of (range_map (ec_Current ch)) k else map_of (fst s) k)"
    if "wf_gomap (range_map (ec_Current ch))"
      "\<And>k. k \<in> fst ` set (range_map (ec_Previous ch)) \<Longrightarrow> spn_NamespacedName k = n"
      "\<And>k. k \<in> fst ` set (range_map (ec_Current ch)) \<Longrightarrow> spn_NamespacedName k = n"
      "\<And>k. spn_NamespacedName k = n \<Longrightarrow> map_of (fst s) k \<noteq> None \<Longrightarrow>
        k \<in> fst ` set (range_map (ec_Previous ch)) \<union> fst ` set (range_map (ec_Current ch))"
    for ch n s k using that by (rule apply_endpoints_change_map)
  show "map_of (range_map a) = map_of (range_map b)" if "DeepEqual_maps a b"
    for a b :: "ProxyEndpointMap option" using that by (rule DeepEqual_maps_map_of)
qed (auto simp: EndpointsChangeItems_Update_def Let_def split: option.splits)

section \<open>Stale connections\<close>

abbreviation endpoints_view ::
  "string \<Rightarrow> (NamespacedName \<rightharpoonup> api_Endpoints) \<Rightarrow> ServicePortName \<rightharpoonup> EndpointsInfo list" where
  "endpoints_view hostname \<equiv> object_view (endpointsToEndpointsMap hostname) spn_NamespacedName"

abbreviation endpoints_pending where
  "endpoints_pending hostname \<equiv>
     pending_changes (endpointsToEndpointsMap hostname) DeepEqual_maps ec_Previous ec_Current"

text \<open>The endpoints of a port, a missing port having none.\<close>

definition eps_of :: "('k \<rightharpoonup> 'e list) \<Rightarrow> 'k \<Rightarrow> 'e set" where
  "eps_of m k = (case m k of None \<Rightarrow> {} | Some es \<Rightarrow> set es)"

definition gone_pairs ::
  "(ServicePortName \<rightharpoonup> EndpointsInfo list) \<Rightarrow> (ServicePortName \<rightharpoonup> EndpointsInfo list)
   \<Rightarrow> NamespacedName set \<Rightarrow> EndpointServicePair set" where
  "gone_pairs old new N =
     {endpoint_pair k ep | k ep. spn_NamespacedName k \<in> N \<and> ep \<in> eps_of old k - eps_of new k}"

definition revived ::
  "(ServicePortName \<rightharpoonup> EndpointsInfo list) \<Rightarrow> (ServicePortName \<rightharpoonup> EndpointsInfo list)
   \<Rightarrow> NamespacedName set \<Rightarrow> ServicePortName set" where
  "revived old new N = {k. spn_NamespacedName k \<in> N \<and> eps_of new k \<noteq> {} \<and> eps_of old k = {}}"

lemma set_gm_slice: "set (gm_slice m k) = eps_of (map_of m) k"
  by (simp add: gm_slice_def eps_of_def split: option.splits)

lemma eps_Some: "ep \<in> eps_of m k - X \<longleftrightarrow> (\<exists>eps. m k = Some eps \<and> ep \<in> set eps - X)"
  "(\<exists>ep. ep \<in> eps_of m k) \<longleftrightarrow> (\<exists>eps ep. m k = Some eps \<and> ep \<in> set eps)"
  by (auto simp: eps_of_def split: option.splits)

lemma stale_endpoints_set:
  "set (stale_endpoints newMap n epList st) =
     set st \<union> endpoint_pair n ` (set epList - eps_of (map_of newMap) n)"
proof -
  have "set (fold (\<lambda>ep st. if list_ex (\<lambda>new. new = ep) (gm_slice newMap n) then st
         else str_insert (endpoint_pair n ep) st) eps st) =
      set st \<union> endpoint_pair n ` (set eps - eps_of (map_of newMap) n)" for eps
    unfolding set_gm_slice [symmetric]
    by (induction eps arbitrary: st) (auto simp: list_ex_iff)
  then show ?thesis by (simp add: stale_endpoints_def)
qed

lemma fold_stale_endpoints_set:
  "set (fold (\<lambda>(n, eps). stale_endpoints newMap n eps) xs st) =
     set st \<union> (\<Union>(n, eps) \<in> set xs. endpoint_pair n ` (set eps - eps_of (map_of newMap) n))"
  by (induction xs arbitrary: st) (auto simp: stale_endpoints_set)

text \<open>
  For a change whose two maps have only entries of one name, the check finds the endpoints that
  are gone and the ports that had no endpoint and now have one.
\<close>

lemma detectStaleConnections_sets:
  assumes wf: "wf_gomap (range_map old)" "wf_gomap (range_map new)"
    and keys: "\<And>k. k \<in> fst ` set (range_map old) \<union> fst ` set (range_map new) \<Longrightarrow> spn_NamespacedName k = n"
  shows "set (fst (detectStaleConnections old new se ss)) =
      set se \<union> gone_pairs (map_of (range_map old)) (map_of (range_map new)) {n}"
    and "set (snd (detectStaleConnections old new se ss)) =
      set ss \<union> revived (map_of (range_map old)) (map_of (range_map new)) {n}"
proof -
  let ?o = "range_map old" and ?n = "range_map new"
  have mem: "(k, eps) \<in> set ?o \<longleftrightarrow> map_of ?o k = Some eps"
    "(k, eps) \<in> set ?n \<longleftrightarrow> map_of ?n k = Some eps" for k eps
    using wf by (simp_all add: wf_gomap_mem)
  have nm: "map_of ?o k = Some eps \<or> map_of ?n k = Some eps \<Longrightarrow> spn_NamespacedName k = n" for k eps
    using keys [of k] mem [of k eps] by (metis UnI1 UnI2 fst_conv imageI)
  have "(\<Union>(k, eps) \<in> set ?o. endpoint_pair k ` (set eps - eps_of (map_of ?n) k)) =
      {endpoint_pair k ep | k eps ep. (k, eps) \<in> set ?o \<and> ep \<in> set eps - eps_of (map_of ?n) k}"
    by blast
  also have "\<dots> = gone_pairs (map_of ?o) (map_of ?n) {n}"
    unfolding gone_pairs_def eps_Some mem using nm by blast
  finally have "(\<Union>(k, eps) \<in> set ?o. endpoint_pair k ` (set eps - eps_of (map_of ?n) k)) =
      gone_pairs (map_of ?o) (map_of ?n) {n}" .
  then show "set (fst (detectStaleConnections old new se ss)) =
      set se \<union> gone_pairs (map_of ?o) (map_of ?n) {n}"
    by (simp add: detectStaleConnections_def fold_stale_endpoints_set)
  have step: "(\<lambda>(k, eps) st. if length eps > 0 \<and> length (gm_slice ?o k) = 0 then str_insert k st else st) =
      (\<lambda>x st. if snd x \<noteq> [] \<and> gm_slice ?o (fst x) = [] then str_insert (fst x) st else st)"
    by (auto simp: fun_eq_iff)
  have "fst ` {x \<in> set xs. snd x \<noteq> [] \<and> gm_slice ?o (fst x) = []} =
      {k. \<exists>eps ep. (k, eps) \<in> set xs \<and> ep \<in> set eps \<and> eps_of (map_of ?o) k = {}}"
    for xs :: ProxyEndpointMap
    unfolding set_gm_slice [symmetric] set_empty image_def
    by (auto intro!: bexI) (metis list.set_sel(1))
  then have "set (fold (\<lambda>(k, eps) st. if length eps > 0 \<and> length (gm_slice ?o k) = 0
          then str_insert k st else st) ?n ss) =
      set ss \<union> {k. \<exists>eps ep. (k, eps) \<in> set ?n \<and> ep \<in> set eps \<and> eps_of (map_of ?o) k = {}}"
    unfolding step set_fold_insert by simp
  moreover have "{k. \<exists>eps ep. (k, eps) \<in> set ?n \<and> ep \<in> set eps \<and> eps_of (map_of ?o) k = {}} =
      revived (map_of ?o) (map_of ?n) {n}"
    unfolding revived_def ex_in_conv [symmetric] eps_Some mem using nm by blast
  ultimately show "set (snd (detectStaleConnections old new se ss)) =
      set ss \<union> revived (map_of ?o) (map_of ?n) {n}"
    by (simp add: detectStaleConnections_def)
qed


lemma gone_pairs_cong:
  assumes "\<And>k. spn_NamespacedName k \<in> N \<Longrightarrow> old k = old' k \<and> new k = new' k"
  shows "gone_pairs old new N = gone_pairs old' new' N" and "revived old new N = revived old' new' N"
  using assms unfolding gone_pairs_def revived_def eps_of_def by (safe; fastforce)+

lemma gone_pairs_insert:
  "gone_pairs old new (insert n N) = gone_pairs old new {n} \<union> gone_pairs old new N"
  "revived old new (insert n N) = revived old new {n} \<union> revived old new N"
  by (auto simp: gone_pairs_def revived_def)

lemma apply_endpoints_change_stale:
  assumes pend: "endpoints_pending hostname base st items"
    and wn: "well_named endpoints_nsn base" "well_named endpoints_nsn st"
    and mem: "(n, ch) \<in> set items"
  shows "set (fst (snd (apply_endpoints_change ch s))) =
      set (fst (snd s)) \<union> gone_pairs (endpoints_view hostname base) (endpoints_view hostname st) {n}"
    and "set (snd (snd (apply_endpoints_change ch s))) =
      set (snd (snd s)) \<union> revived (endpoints_view hostname base) (endpoints_view hostname st) {n}"
proof -
  note c = ep.pending_item [OF pend mem]
  have view: "spn_NamespacedName k \<in> {n} \<Longrightarrow>
      endpoints_view hostname base k = map_of (range_map (ec_Previous ch)) k \<and>
      endpoints_view hostname st k = map_of (range_map (ec_Current ch)) k" for k
    by (simp add: object_view_def c)
  have wf: "wf_gomap (range_map (ec_Current ch))"
    unfolding c(1) by (rule endpointsToEndpointsMap_wf)
  have keys: "spn_NamespacedName k = n"
    if "k \<in> fst ` set (range_map (ec_Previous ch)) \<union> fst ` set (range_map (ec_Current ch))" for k
    using that ep.named_keys [OF wn(1), of k hostname n] ep.named_keys [OF wn(2), of k hostname n]
    unfolding c(1) fst_set_map_of_eq [OF c(2)] by blast
  let ?p = "map_of (range_map (ec_Previous ch))" and ?c = "map_of (range_map (ec_Current ch))"
  have "gone_pairs (endpoints_view hostname base) (endpoints_view hostname st) {n} = gone_pairs ?p ?c {n}"
    by (rule gone_pairs_cong(1)) (rule view)
  moreover have "set (fst (detectStaleConnections (ec_Previous ch) (ec_Current ch) a b)) =
      set a \<union> gone_pairs ?p ?c {n}" for a b
    by (rule detectStaleConnections_sets(1) [OF c(3) wf]) (rule keys)
  ultimately show "set (fst (snd (apply_endpoints_change ch s))) =
      set (fst (snd s)) \<union> gone_pairs (endpoints_view hostname base) (endpoints_view hostname st) {n}"
    by (cases s) (simp add: apply_endpoints_change_def)
  have "revived (endpoints_view hostname base) (endpoints_view hostname st) {n} = revived ?p ?c {n}"
    by (rule gone_pairs_cong(2)) (rule view)
  moreover have "set (snd (detectStaleConnections (ec_Previous ch) (ec_Current ch) a b)) =
      set b \<union> revived ?p ?c {n}" for a b
    by (rule detectStaleConnections_sets(2) [OF c(3) wf]) (rule keys)
  ultimately show "set (snd (snd (apply_endpoints_change ch s))) =
      set (snd (snd s)) \<union> revived (endpoints_view hostname base) (endpoints_view hostname st) {n}"
    by (cases s) (simp add: apply_endpoints_change_def)
qed

lemma apply_endpoints_changes_stale:
  assumes pend: "endpoints_pending hostname base st items"
    and wn: "well_named endpoints_nsn base" "well_named endpoints_nsn st"
    and sub: "set its \<subseteq> set items"
  shows "set (fst (snd (fold (\<lambda>(_, ch). apply_endpoints_change ch) its s))) = set (fst (snd s)) \<union>
      gone_pairs (endpoints_view hostname base) (endpoints_view hostname st) (fst ` set its) \<and>
    set (snd (snd (fold (\<lambda>(_, ch). apply_endpoints_change ch) its s))) = set (snd (snd s)) \<union>
      revived (endpoints_view hostname base) (endpoints_view hostname st) (fst ` set its)"
  using sub
proof (induction its arbitrary: s)
  case Nil
  then show ?case by (simp add: gone_pairs_def revived_def)
next
  case (Cons it its)
  obtain n ch where it: "it = (n, ch)" by (cases it)
  with Cons.prems have "(n, ch) \<in> set items" by simp
  note st = apply_endpoints_change_stale [OF pend wn this, of s]
  have "set its \<subseteq> set items" using Cons.prems by simp
  note ih = Cons.IH [OF this, of "apply_endpoints_change ch s"]
  show ?case
    using ih gone_pairs_insert [of _ _ n "fst ` set its"] by (simp add: it st Un_assoc)
qed

lemma UpdateEndpointsMap_stale:
  assumes pend: "endpoints_pending hostname base st items"
    and wn: "well_named endpoints_nsn base" "well_named endpoints_nsn st"
  shows "set (ue_StaleEndpoints (snd (UpdateEndpointsMap em items))) =
      gone_pairs (endpoints_view hostname base) (endpoints_view hostname st) UNIV"
    and "set (ue_StaleServiceNames (snd (UpdateEndpointsMap em items))) =
      revived (endpoints_view hostname base) (endpoints_view hostname st) UNIV"
proof -
  have "k \<notin> fst ` set items \<Longrightarrow> gone_pairs (endpoints_view hostname base) (endpoints_view hostname st) {k} = {}
      \<and> revived (endpoints_view hostname base) (endpoints_view hostname st) {k} = {}" for k
    using ep.view_unchanged [OF pend] by (auto simp: gone_pairs_def revived_def eps_of_def)
  then have un: "gone_pairs (endpoints_view hostname base) (endpoints_view hostname st) (fst ` set items) =
      gone_pairs (endpoints_view hostname base) (endpoints_view hostname st) UNIV"
    "revived (endpoints_view hostname base) (endpoints_view hostname st) (fst ` set items) =
      revived (endpoints_view hostname base) (endpoints_view hostname st) UNIV"
    unfolding gone_pairs_def revived_def by blast+
  show "set (ue_StaleEndpoints (snd (UpdateEndpointsMap em items))) =
      gone_pairs (endpoints_view hostname base) (endpoints_view hostname st) UNIV"
    "set (ue_StaleServiceNames (snd (UpdateEndpointsMap em items))) =
      revived (endpoints_view hostname base) (endpoints_view hostname st) UNIV"
    using apply_endpoints_changes_stale [OF pend wn order_refl, of "(em, [], [])"] un
    by (simp_all add: UpdateEndpointsMap_def split_beta)
qed

lemma UpdateEndpointsMap_view:
  assumes "endpoints_pending hostname base st items"
    and "well_named endpoints_nsn base" "well_named endpoints_nsn st"
    and "\<And>k. map_of em k = endpoints_view hostname base k \<or> map_of em k = endpoints_view hostname st k"
  shows "map_of (fst (UpdateEndpointsMap em items)) = endpoints_view hostname st"
  using ep.app_all [OF assms(1-3), of "(em, [], [])"] assms(4)
  by (simp add: UpdateEndpointsMap_def split_beta)

section \<open>Properties\<close>

text \<open>
  (C12) After any sequence of endpoints events and one update, the endpoints map holds for every
  service port exactly the endpoints of the object the informer's store ends with, in any
  iteration order of the pending changes.
\<close>

theorem endpoints_map_follows_store:
  assumes "consistent st0 es" and "well_named endpoints_nsn st0"
    and "well_named endpoints_nsn (store_after st0 es)"
    and "map_of em = endpoints_view hostname st0"
  shows "map_of (fst (UpdateEndpointsMap em
      (run_updates (EndpointsChangeItems_Update hostname) (ecm_Items (NewEndpointsChangeMap hostname)) es)))
     = endpoints_view hostname (store_after st0 es)"
proof -
  have "endpoints_pending hostname st0 (store_after st0 es)
      (run_updates (EndpointsChangeItems_Update hostname) (ecm_Items (NewEndpointsChangeMap hostname)) es)"
    unfolding NewEndpointsChangeMap_def EndpointsChangeMap.simps
    using ep.pending_empty assms(1) by (rule ep.pending_run)
  then show ?thesis using assms(2-4) by (intro UpdateEndpointsMap_view) auto
qed

definition ex_ep_nsn :: NamespacedName where
  "ex_ep_nsn = \<lparr>nn_Namespace = ''ns'', nn_Name = ''web''\<rparr>"

definition ex_endpoints :: "string list \<Rightarrow> api_Endpoints" where
  "ex_endpoints ips =
     \<lparr>ae_Namespace = ''ns'', ae_Name = ''web'',
      ae_Subsets = [\<lparr>es_Addresses = map (\<lambda>ip. \<lparr>ea_IP = ip, ea_NodeName = Some ''node1''\<rparr>) ips,
                     es_Ports = [\<lparr>ep_Name = ''http'', ep_Port = 8080\<rparr>]\<rparr>]\<rparr>"

lemma ex_endpoints_nsn [simp]: "endpoints_nsn (ex_endpoints ips) = ex_ep_nsn"
  by (simp add: endpoints_nsn_def ex_endpoints_def ex_ep_nsn_def)

lemma endpoints_view_empty [simp]: "endpoints_view hostname Map.empty = Map.empty"
  by (simp add: object_view_def endpointsToEndpointsMap_def range_map_def fun_eq_iff)

theorem endpoints_map_follows_store_witness:
  "map_of (fst (UpdateEndpointsMap [] (run_updates (EndpointsChangeItems_Update ''node1'')
      (ecm_Items (NewEndpointsChangeMap ''node1'')) [(ex_ep_nsn, None, Some (ex_endpoints [''10.1.1.1'']))])))
     = endpoints_view ''node1'' [ex_ep_nsn \<mapsto> ex_endpoints [''10.1.1.1'']]"
  using endpoints_map_follows_store [of Map.empty "[(ex_ep_nsn, None, Some (ex_endpoints [''10.1.1.1'']))]" "[]" "''node1''"]
  by (simp add: well_named_def)

text \<open>
  (C14) The update reports exactly the stale connections: an endpoint pair for every endpoint a
  service port had and has no more, and the name of every service port that had no endpoint and
  now has one.  Nothing else is reported, however many events were coalesced.
\<close>

theorem endpoints_stale_exact:
  assumes "consistent st0 es" and "well_named endpoints_nsn st0"
    and "well_named endpoints_nsn (store_after st0 es)"
  shows "let old = eps_of (endpoints_view hostname st0);
             new = eps_of (endpoints_view hostname (store_after st0 es));
             r = snd (UpdateEndpointsMap em (run_updates (EndpointsChangeItems_Update hostname)
                   (ecm_Items (NewEndpointsChangeMap hostname)) es))
         in set (ue_StaleEndpoints r) = {endpoint_pair k ep | k ep. ep \<in> old k - new k}
          \<and> set (ue_StaleServiceNames r) = {k. old k = {} \<and> new k \<noteq> {}}"
proof -
  have "endpoints_pending hostname st0 (store_after st0 es)
      (run_updates (EndpointsChangeItems_Update hostname) (ecm_Items (NewEndpointsChangeMap hostname)) es)"
    unfolding NewEndpointsChangeMap_def EndpointsChangeMap.simps
    using ep.pending_empty assms(1) by (rule ep.pending_run)
  note UpdateEndpointsMap_stale [OF this assms(2,3)]
  then show ?thesis unfolding Let_def by (auto simp: gone_pairs_def revived_def)
qed

theorem endpoints_stale_exact_witness:
  "set (ue_StaleEndpoints (snd (UpdateEndpointsMap [] (run_updates (EndpointsChangeItems_Update ''node1'')
      (ecm_Items (NewEndpointsChangeMap ''node1''))
      [(ex_ep_nsn, Some (ex_endpoints [''10.1.1.1'', ''10.1.1.2'']), Some (ex_endpoints [''10.1.1.2'']))]))))
    = {endpoint_pair k ep | k ep.
        ep \<in> eps_of (endpoints_view ''node1'' [ex_ep_nsn \<mapsto> ex_endpoints [''10.1.1.1'', ''10.1.1.2'']]) k
           - eps_of (endpoints_view ''node1'' [ex_ep_nsn \<mapsto> ex_endpoints [''10.1.1.2'']]) k}"
  using endpoints_stale_exact [of "[ex_ep_nsn \<mapsto> ex_endpoints [''10.1.1.1'', ''10.1.1.2'']]"
      "[(ex_ep_nsn, Some (ex_endpoints [''10.1.1.1'', ''10.1.1.2'']), Some (ex_endpoints [''10.1.1.2'']))]"
      "''node1''" "[]"]
  by (simp add: well_named_def Let_def)

end
