(* ===== verification/Ipvs.thy ===== *)
theory Ipvs
  imports Net_IP
begin

text \<open>
  src/pkg/util/ipvs/ipvs.go: the wrapper that the proxy uses to program the kernel.  The packages
  it calls (the IPVS netlink handle of libnetwork and the netlink package) are not part of the
  program: they are the functions of the record \<open>libnet\<close>, over a type \<open>'w\<close> of worlds (the state of
  the kernel).  A call that can only report an error returns it next to the new world; a Go panic
  is \<open>None\<close>.
\<close>

unbundle bit_operations_syntax

section \<open>Data\<close>

record ipvs_Service =
  s_ClusterIP :: IP
  s_Port :: int
  s_Protocol :: string
  s_Scheduler :: string
  s_SessionAffinity :: bool

record Server =
  sv_Ip :: string
  sv_Port :: int
  sv_Weight :: int

text \<open>The fields of the library's service and destination that the wrapper writes or reads.\<close>

record lib_Service =
  ls_Address :: IP
  ls_AddressFamily :: "16 word"
  ls_Protocol :: "16 word"
  ls_Port :: "16 word"
  ls_SchedName :: string
  ls_Flags :: "32 word"
  ls_Netmask :: "32 word"
  ls_Timeout :: "32 word"

record lib_Destination =
  ld_Address :: IP
  ld_AddressFamily :: "16 word"
  ld_Port :: "16 word"
  ld_Weight :: int

record Link =
  lk_Name :: string
  lk_Index :: int

record Addr =
  ad_IP :: IP
  ad_Mask :: IP
  ad_Scope :: int

record Route =
  rt_LinkIndex :: int
  rt_Table :: int
  rt_Type :: int
  rt_Protocol :: int
  rt_Src :: IP

record 'w libnet =
  h_GetService :: "lib_Service \<Rightarrow> 'w \<Rightarrow> go_error + lib_Service"
  h_GetServices :: "'w \<Rightarrow> go_error + lib_Service list"
  h_GetDestinations :: "lib_Service \<Rightarrow> 'w \<Rightarrow> go_error + lib_Destination list"
  h_NewService :: "lib_Service \<Rightarrow> 'w \<Rightarrow> go_error option \<times> 'w"
  h_DelService :: "lib_Service \<Rightarrow> 'w \<Rightarrow> go_error option \<times> 'w"
  h_NewDestination :: "lib_Service \<Rightarrow> lib_Destination \<Rightarrow> 'w \<Rightarrow> go_error option \<times> 'w"
  h_DelDestination :: "lib_Service \<Rightarrow> lib_Destination \<Rightarrow> 'w \<Rightarrow> go_error option \<times> 'w"
  nl_LinkByName :: "string \<Rightarrow> 'w \<Rightarrow> go_error + Link"
  nl_LinkAdd :: "string \<Rightarrow> 'w \<Rightarrow> go_error option \<times> 'w"
  nl_LinkSetUp :: "Link \<Rightarrow> 'w \<Rightarrow> go_error option \<times> 'w"
  nl_LinkDel :: "Link \<Rightarrow> 'w \<Rightarrow> go_error option \<times> 'w"
  nl_AddrAdd :: "Link \<Rightarrow> Addr \<Rightarrow> 'w \<Rightarrow> go_error option \<times> 'w"
  nl_AddrDel :: "Link \<Rightarrow> Addr \<Rightarrow> 'w \<Rightarrow> go_error option \<times> 'w"
  nl_AddrList :: "Link \<Rightarrow> int \<Rightarrow> 'w \<Rightarrow> go_error + Addr list"
  nl_RouteListFiltered :: "int \<Rightarrow> Route \<Rightarrow> 64 word \<Rightarrow> 'w \<Rightarrow> go_error + Route list"

text \<open>The Go interface \<^verbatim>\<open>utilipvs.Interface\<close>: what the proxy and the tool call.\<close>

record 'w ipvs_Interface =
  i_GetIpvsService :: "ipvs_Service \<Rightarrow> 'w \<Rightarrow> go_error + lib_Service"
  i_ListIpvsService :: "'w \<Rightarrow> go_error + lib_Service list"
  i_ListIpvsServer :: "lib_Service \<Rightarrow> 'w \<Rightarrow> go_error + Server list"
  i_AddIpvsService :: "ipvs_Service \<Rightarrow> 'w \<Rightarrow> (go_error option \<times> 'w) option"
  i_DeleteIpvsService :: "ipvs_Service \<Rightarrow> 'w \<Rightarrow> go_error option \<times> 'w"
  i_AddIpvsServer :: "ipvs_Service \<Rightarrow> Server \<Rightarrow> 'w \<Rightarrow> go_error option \<times> 'w"
  i_DeleteIpvsServer :: "ipvs_Service \<Rightarrow> Server \<Rightarrow> 'w \<Rightarrow> go_error option \<times> 'w"
  i_FlushIpvs :: "'w \<Rightarrow> go_error option \<times> 'w"
  i_GetDummyLink :: "'w \<Rightarrow> ((go_error + Link) \<times> 'w) option"
  i_AddDummyLink :: "'w \<Rightarrow> go_error option \<times> 'w"
  i_SetDummyLinkUp :: "Link \<Rightarrow> 'w \<Rightarrow> go_error option \<times> 'w"
  i_DeleteDummyLink :: "'w \<Rightarrow> go_error option \<times> 'w"
  i_AddDummyClusterIp :: "IP \<Rightarrow> Link \<Rightarrow> 'w \<Rightarrow> go_error option \<times> 'w"
  i_DeleteDummyClusterIp :: "IP \<Rightarrow> Link \<Rightarrow> 'w \<Rightarrow> go_error option \<times> 'w"
  i_ListDuumyClusterIp :: "Link \<Rightarrow> 'w \<Rightarrow> go_error + Addr list"
  i_GetLocalAddresses :: "string \<Rightarrow> 'w \<Rightarrow> go_error + string list"

section \<open>Constants\<close>

definition ENN_DUMMY :: string where "ENN_DUMMY = ''enn-dummy''"
definition DEFAULWEIGHT :: int where "DEFAULWEIGHT = 1"
definition IFACE_NOT_FOUND :: string where "IFACE_NOT_FOUND = ''Link not found''"
definition IFACE_HAS_ADDR :: string where "IFACE_HAS_ADDR = ''file exists''"
definition IPVS_SERVER_EXISTS :: string where "IPVS_SERVER_EXISTS = ''file exists''"
definition DefaultTimeoutSeconds :: "32 word" where "DefaultTimeoutSeconds = 180 * 60"
definition FlagPersistent :: "32 word" where "FlagPersistent = 0x1"
definition DefaultMask :: "32 word" where "DefaultMask = 0xFFFFFFFF"

definition IpvsModules :: "string list" where
  "IpvsModules = [''ip_vs'', ''ip_vs_rr'', ''nf_conntrack_ipv4'']"

text \<open>Constants of the syscall, unix and netlink packages on Linux.\<close>

definition AF_INET :: int where "AF_INET = 2"
definition FAMILY_ALL :: int where "FAMILY_ALL = 0"
definition IPPROTO_TCP :: "16 word" where "IPPROTO_TCP = 6"
definition IPPROTO_UDP :: "16 word" where "IPPROTO_UDP = 17"
definition RT_SCOPE_LINK :: int where "RT_SCOPE_LINK = 253"
definition RT_TABLE_LOCAL :: int where "RT_TABLE_LOCAL = 255"
definition RTN_LOCAL :: int where "RTN_LOCAL = 2"
definition RTPROT_KERNEL :: int where "RTPROT_KERNEL = 2"
definition RT_FILTER_PROTOCOL :: "64 word" where "RT_FILTER_PROTOCOL = 2"
definition RT_FILTER_TYPE :: "64 word" where "RT_FILTER_TYPE = 8"
definition RT_FILTER_OIF :: "64 word" where "RT_FILTER_OIF = 64"
definition RT_FILTER_TABLE :: "64 word" where "RT_FILTER_TABLE = 1024"

section \<open>Conversions\<close>

definition ToProtocolNumber :: "ipvs_Service \<Rightarrow> 16 word" where
  "ToProtocolNumber service = (if s_Protocol service = ''tcp'' then IPPROTO_TCP else IPPROTO_UDP)"

definition ToProtocolString :: "lib_Service \<Rightarrow> string" where
  "ToProtocolString service =
     (if ls_Protocol service = IPPROTO_TCP then ''tcp''
      else if ls_Protocol service = IPPROTO_UDP then ''udp''
      else ''unknow'')"

text \<open>A pointer argument is an option here; the conversion to uint16 keeps the low 16 bits.\<close>

definition CreateLibIpvsService :: "ipvs_Service option \<Rightarrow> go_error + lib_Service" where
  "CreateLibIpvsService service =
     (case service of
        None \<Rightarrow> Inl ''ipvs service is empty''
      | Some s \<Rightarrow>
          (let svc = \<lparr>ls_Address = s_ClusterIP s, ls_AddressFamily = word_of_int AF_INET,
                      ls_Protocol = ToProtocolNumber s, ls_Port = word_of_int (s_Port s),
                      ls_SchedName = s_Scheduler s, ls_Flags = 0, ls_Netmask = 0, ls_Timeout = 0\<rparr>
           in Inr (if s_SessionAffinity s
                   then svc\<lparr>ls_Flags := ls_Flags svc OR FlagPersistent,
                            ls_Netmask := ls_Netmask svc OR DefaultMask,
                            ls_Timeout := DefaultTimeoutSeconds\<rparr>
                   else svc)))"

definition CreateLibIpvsServer :: "Server option \<Rightarrow> go_error + lib_Destination" where
  "CreateLibIpvsServer dest =
     (case dest of
        None \<Rightarrow> Inl ''ipvs destination is empty''
      | Some d \<Rightarrow> Inr \<lparr>ld_Address = ParseIP (sv_Ip d), ld_AddressFamily = word_of_int AF_INET,
                        ld_Port = word_of_int (sv_Port d), ld_Weight = DEFAULWEIGHT\<rparr>)"

definition CreateInterService :: "lib_Service option \<Rightarrow> go_error + ipvs_Service" where
  "CreateInterService ipvsSvc =
     (case ipvsSvc of
        None \<Rightarrow> Inl ''ipvs service is empty''
      | Some s \<Rightarrow> Inr \<lparr>s_ClusterIP = ls_Address s, s_Port = uint (ls_Port s),
                        s_Protocol = ToProtocolString s, s_Scheduler = ls_SchedName s,
                        s_SessionAffinity = False\<rparr>)"

definition CreateInterServer :: "lib_Destination option \<Rightarrow> go_error + Server" where
  "CreateInterServer ipvsDst =
     (case ipvsDst of
        None \<Rightarrow> Inl ''ipvs dst is empty''
      | Some d \<Rightarrow> Inr \<lparr>sv_Ip = IP_String (ld_Address d), sv_Port = uint (ld_Port d),
                        sv_Weight = ld_Weight d\<rparr>)"

section \<open>The methods of EnnIpvs\<close>

definition GetIpvsService :: "'w libnet \<Rightarrow> ipvs_Service \<Rightarrow> 'w \<Rightarrow> go_error + lib_Service" where
  "GetIpvsService h service w =
     (case CreateLibIpvsService (Some service) of
        Inl err \<Rightarrow> Inl err
      | Inr svc \<Rightarrow> h_GetService h svc w)"

definition ListIpvsService :: "'w libnet \<Rightarrow> 'w \<Rightarrow> go_error + lib_Service list" where
  "ListIpvsService h w = h_GetServices h w"

text \<open>The conversion loop of \<^verbatim>\<open>ListIpvsServer\<close> returns the first error.\<close>

fun inter_servers :: "lib_Destination list \<Rightarrow> go_error + Server list" where
  "inter_servers [] = Inr []"
| "inter_servers (d # ds) =
     (case CreateInterServer (Some d) of
        Inl err \<Rightarrow> Inl err
      | Inr s \<Rightarrow> (case inter_servers ds of Inl err \<Rightarrow> Inl err | Inr ss \<Rightarrow> Inr (s # ss)))"

definition ListIpvsServer :: "'w libnet \<Rightarrow> lib_Service \<Rightarrow> 'w \<Rightarrow> go_error + Server list" where
  "ListIpvsServer h service w =
     (case h_GetDestinations h service w of
        Inl err \<Rightarrow> Inl err
      | Inr dsts \<Rightarrow> inter_servers dsts)"

definition service_text :: "ipvs_Service \<Rightarrow> string" where
  "service_text service =
     IP_String (s_ClusterIP service) @ '':'' @ s_Protocol service @ '':'' @ Itoa (s_Port service)"

definition same_service :: "ipvs_Service \<Rightarrow> lib_Service \<Rightarrow> bool" where
  "same_service service svc \<longleftrightarrow>
     IP_String (s_ClusterIP service) = IP_String (ls_Address svc) \<and>
     ToProtocolNumber service = ls_Protocol svc \<and> word_of_int (s_Port service) = ls_Port svc"

definition AddIpvsService :: "'w libnet \<Rightarrow> ipvs_Service \<Rightarrow> 'w \<Rightarrow> (go_error option \<times> 'w) option" where
  "AddIpvsService h service w =
     (case h_GetServices h w of
        Inl err \<Rightarrow> None
      | Inr svcs \<Rightarrow>
          if list_ex (same_service service) svcs then Some (None, w)
          else (case CreateLibIpvsService (Some service) of
                  Inl err \<Rightarrow> Some (Some err, w)
                | Inr svc \<Rightarrow>
                    (case h_NewService h svc w of
                       (Some err, w1) \<Rightarrow>
                         Some (Some (''AddIpvsService: create service '' @ service_text service @
                                     '' failed: '' @ err), w1)
                     | (None, w1) \<Rightarrow> Some (None, w1))))"

definition DeleteIpvsService :: "'w libnet \<Rightarrow> ipvs_Service \<Rightarrow> 'w \<Rightarrow> go_error option \<times> 'w" where
  "DeleteIpvsService h service w =
     (case CreateLibIpvsService (Some service) of
        Inl err \<Rightarrow> (Some err, w)
      | Inr svc \<Rightarrow>
          (case h_DelService h svc w of
             (Some err, w1) \<Rightarrow>
               (Some (''DeleteIpvsService: delete service '' @ service_text service @ '' failed: '' @ err), w1)
           | (None, w1) \<Rightarrow> (None, w1)))"

definition destination_text :: "lib_Service \<Rightarrow> lib_Destination \<Rightarrow> string" where
  "destination_text svc dest =
     IP_String (ld_Address dest) @ '':'' @ Itoa (uint (ld_Port dest)) @ '' to the service '' @
     IP_String (ls_Address svc) @ '':'' @ ToProtocolString svc @ '':'' @ Itoa (uint (ls_Port svc))"

text \<open>
  The error of the first conversion is overwritten by that of the second before it is tested;
  for a service that is not nil the first conversion has no error.
\<close>

definition AddIpvsServer :: "'w libnet \<Rightarrow> ipvs_Service \<Rightarrow> Server \<Rightarrow> 'w \<Rightarrow> go_error option \<times> 'w" where
  "AddIpvsServer h service server w =
     (case (CreateLibIpvsService (Some service), CreateLibIpvsServer (Some server)) of
        (_, Inl err) \<Rightarrow> (Some err, w)
      | (Inl err, Inr _) \<Rightarrow> (Some err, w)
      | (Inr svc, Inr dest) \<Rightarrow>
          (case h_NewDestination h svc dest w of
             (None, w1) \<Rightarrow> (None, w1)
           | (Some err, w1) \<Rightarrow>
               if Contains err IPVS_SERVER_EXISTS then (None, w1)
               else (Some (''AddIpvsServer destination '' @ destination_text svc dest @ '' failed: '' @ err), w1)))"

definition DeleteIpvsServer :: "'w libnet \<Rightarrow> ipvs_Service \<Rightarrow> Server \<Rightarrow> 'w \<Rightarrow> go_error option \<times> 'w" where
  "DeleteIpvsServer h service server w =
     (case (CreateLibIpvsService (Some service), CreateLibIpvsServer (Some server)) of
        (_, Inl err) \<Rightarrow> (Some err, w)
      | (Inl err, Inr _) \<Rightarrow> (Some err, w)
      | (Inr svc, Inr dest) \<Rightarrow>
          (case h_DelDestination h svc dest w of
             (None, w1) \<Rightarrow> (None, w1)
           | (Some err, w1) \<Rightarrow>
               (Some (''DeleteIpvsServer: delete destination '' @ destination_text svc dest @
                      '' failed: '' @ err), w1)))"

text \<open>Errors of single deletions are only logged.\<close>

definition FlushIpvs :: "'w libnet \<Rightarrow> 'w \<Rightarrow> go_error option \<times> 'w" where
  "FlushIpvs h w =
     (case h_GetServices h w of
        Inl err \<Rightarrow> (Some err, w)
      | Inr svcs \<Rightarrow> (None, fold (\<lambda>svc w. snd (h_DelService h svc w)) svcs w))"

definition AddDummyLink :: "'w libnet \<Rightarrow> 'w \<Rightarrow> go_error option \<times> 'w" where
  "AddDummyLink h w = nl_LinkAdd h ENN_DUMMY w"

definition GetDummyLink :: "'w libnet \<Rightarrow> 'w \<Rightarrow> ((go_error + Link) \<times> 'w) option" where
  "GetDummyLink h w =
     (case nl_LinkByName h ENN_DUMMY w of
        Inr link \<Rightarrow> Some (Inr link, w)
      | Inl err \<Rightarrow>
          if err = IFACE_NOT_FOUND then
            (case AddDummyLink h w of
               (Some _, _) \<Rightarrow> None
             | (None, w1) \<Rightarrow> Some (nl_LinkByName h ENN_DUMMY w1, w1))
          else Some (Inl err, w))"

definition SetDummyLinkUp :: "'w libnet \<Rightarrow> Link \<Rightarrow> 'w \<Rightarrow> go_error option \<times> 'w" where
  "SetDummyLinkUp h link w = nl_LinkSetUp h link w"

definition DeleteDummyLink :: "'w libnet \<Rightarrow> 'w \<Rightarrow> go_error option \<times> 'w" where
  "DeleteDummyLink h w =
     (case nl_LinkByName h ENN_DUMMY w of
        Inl err \<Rightarrow> (Some err, w)
      | Inr link \<Rightarrow> nl_LinkDel h link w)"

definition dummy_vip :: "IP \<Rightarrow> Addr" where
  "dummy_vip clusterIP =
     \<lparr>ad_IP = clusterIP, ad_Mask = [255, 255, 255, 255], ad_Scope = RT_SCOPE_LINK\<rparr>"

definition AddDummyClusterIp :: "'w libnet \<Rightarrow> IP \<Rightarrow> Link \<Rightarrow> 'w \<Rightarrow> go_error option \<times> 'w" where
  "AddDummyClusterIp h clusterIP link w =
     (case nl_AddrAdd h link (dummy_vip clusterIP) w of
        (None, w1) \<Rightarrow> (None, w1)
      | (Some err, w1) \<Rightarrow> if err \<noteq> IFACE_HAS_ADDR then (Some err, w1) else (None, w1))"

definition DeleteDummyClusterIp :: "'w libnet \<Rightarrow> IP \<Rightarrow> Link \<Rightarrow> 'w \<Rightarrow> go_error option \<times> 'w" where
  "DeleteDummyClusterIp h clusterIP link w = nl_AddrDel h link (dummy_vip clusterIP) w"

definition ListDuumyClusterIp :: "'w libnet \<Rightarrow> Link \<Rightarrow> 'w \<Rightarrow> go_error + Addr list" where
  "ListDuumyClusterIp h link w = nl_AddrList h link AF_INET w"

definition GetLocalAddresses :: "'w libnet \<Rightarrow> string \<Rightarrow> 'w \<Rightarrow> go_error + string list" where
  "GetLocalAddresses h Dev w =
     (let linkIndex = (if length Dev \<noteq> 0 then
            (case nl_LinkByName h Dev w of
               Inl err \<Rightarrow> Inl (''error get filter device '' @ Dev @ '', err: '' @ err)
             | Inr link \<Rightarrow> Inr (lk_Index link))
          else Inr (-1))
      in case linkIndex of
           Inl err \<Rightarrow> Inl err
         | Inr ix \<Rightarrow>
             (let routeFilter = \<lparr>rt_LinkIndex = 0, rt_Table = RT_TABLE_LOCAL, rt_Type = RTN_LOCAL,
                                 rt_Protocol = RTPROT_KERNEL, rt_Src = nilIP\<rparr>;
                  filterMask = RT_FILTER_TABLE OR RT_FILTER_TYPE OR RT_FILTER_PROTOCOL;
                  (routeFilter1, filterMask1) =
                    (if ix \<noteq> -1 then (routeFilter\<lparr>rt_LinkIndex := ix\<rparr>, filterMask OR RT_FILTER_OIF)
                     else (routeFilter, filterMask))
              in case nl_RouteListFiltered h FAMILY_ALL routeFilter1 filterMask1 w of
                   Inl err \<Rightarrow> Inl (''error list route table, err: '' @ err)
                 | Inr routes \<Rightarrow>
                     Inr (fold (\<lambda>route res. if rt_Src route \<noteq> nilIP
                                  then str_insert (IP_String (rt_Src route)) res else res) routes [])))"

definition EnnIpvs :: "'w libnet \<Rightarrow> 'w ipvs_Interface" where
  "EnnIpvs h =
     \<lparr>i_GetIpvsService = GetIpvsService h, i_ListIpvsService = ListIpvsService h,
      i_ListIpvsServer = ListIpvsServer h, i_AddIpvsService = AddIpvsService h,
      i_DeleteIpvsService = DeleteIpvsService h, i_AddIpvsServer = AddIpvsServer h,
      i_DeleteIpvsServer = DeleteIpvsServer h, i_FlushIpvs = FlushIpvs h,
      i_GetDummyLink = GetDummyLink h, i_AddDummyLink = AddDummyLink h,
      i_SetDummyLinkUp = SetDummyLinkUp h, i_DeleteDummyLink = DeleteDummyLink h,
      i_AddDummyClusterIp = AddDummyClusterIp h, i_DeleteDummyClusterIp = DeleteDummyClusterIp h,
      i_ListDuumyClusterIp = ListDuumyClusterIp h, i_GetLocalAddresses = GetLocalAddresses h\<rparr>"

text \<open>\<^verbatim>\<open>NewEnnIpvs\<close> panics when the library cannot open its netlink handle.\<close>

definition NewEnnIpvs :: "(go_error + 'w libnet) \<Rightarrow> 'w ipvs_Interface option" where
  "NewEnnIpvs handle = (case handle of Inl err \<Rightarrow> None | Inr h \<Rightarrow> Some (EnnIpvs h))"

end
