(* ===== verification/Node_Utils.thy ===== *)
theory Node_Utils
  imports Services Endpoints Ipvs
begin

text \<open>
  src/pkg/proxy/util/ports.go, nodes.go and conntrack.go: local sockets that hold service ports,
  the addresses of the node, and the calls of the conntrack tool.  The operating system (sockets,
  interfaces, host name), the API server and the executor of commands are records of functions
  over the world \<open>'w\<close>.
\<close>

section \<open>The environment\<close>

type_synonym socket = nat

record 'w netio =
  n_Listen :: "string \<Rightarrow> 'w \<Rightarrow> (go_error + socket) \<times> 'w"
  n_ResolveUDPAddr :: "string \<Rightarrow> 'w \<Rightarrow> go_error + string"
  n_ListenUDP :: "string \<Rightarrow> 'w \<Rightarrow> (go_error + socket) \<times> 'w"
  n_Close :: "socket \<Rightarrow> 'w \<Rightarrow> 'w"
  n_Interfaces :: "'w \<Rightarrow> go_error + string list"
  n_InterfaceAddrs :: "'w \<Rightarrow> go_error + string list"
  n_Hostname :: "'w \<Rightarrow> go_error + string"

record 'w execer =
  x_LookPath :: "string \<Rightarrow> 'w \<Rightarrow> go_error + string"
  x_CombinedOutput :: "string \<Rightarrow> string list \<Rightarrow> 'w \<Rightarrow> (string \<times> go_error option) \<times> 'w"

section \<open>Local ports\<close>

record LocalPort =
  lp_Desc :: string
  lp_Ip :: string
  lp_Port :: int
  lp_Protocol :: string

type_synonym PortsMap = "(LocalPort, socket) gomap"

text \<open>\<^verbatim>\<open>strconv.Quote\<close> (the verb q) on ASCII text.\<close>

definition quote_char :: "char \<Rightarrow> string" where
  "quote_char c =
     (let n = of_char c :: nat in
      if n = 34 \<or> n = 92 then [char_of (92 :: nat), c]
      else if 32 \<le> n \<and> n \<noteq> 127 then [c]
      else if n = 7 then [char_of (92 :: nat), CHR ''a'']
      else if n = 8 then [char_of (92 :: nat), CHR ''b'']
      else if n = 9 then [char_of (92 :: nat), CHR ''t'']
      else if n = 10 then [char_of (92 :: nat), CHR ''n'']
      else if n = 11 then [char_of (92 :: nat), CHR ''v'']
      else if n = 12 then [char_of (92 :: nat), CHR ''f'']
      else if n = 13 then [char_of (92 :: nat), CHR ''r'']
      else [char_of (92 :: nat), CHR ''x'', hex_digit (n div 16), hex_digit (n mod 16)])"

definition Quote :: "string \<Rightarrow> string" where
  "Quote s = [char_of (34 :: nat)] @ concat (map quote_char s) @ [char_of (34 :: nat)]"

definition LocalPort_String :: "LocalPort \<Rightarrow> string" where
  "LocalPort_String lp =
     Quote (lp_Desc lp) @ '' ('' @ lp_Ip lp @ '':'' @ Itoa (lp_Port lp) @ ''/'' @ lp_Protocol lp @ '')''"

definition openLocalPort :: "'w netio \<Rightarrow> LocalPort \<Rightarrow> 'w \<Rightarrow> (go_error + socket) \<times> 'w" where
  "openLocalPort net lp w =
     (let addr = JoinHostPort (lp_Ip lp) (Itoa (lp_Port lp)) in
      if lp_Protocol lp = ''tcp'' then n_Listen net addr w
      else if lp_Protocol lp = ''udp'' then
        (case n_ResolveUDPAddr net addr w of
           Inl err \<Rightarrow> (Inl err, w)
         | Inr udpaddr \<Rightarrow> n_ListenUDP net udpaddr w)
      else (Inl (''unknown protocol '' @ Quote (lp_Protocol lp)), w))"

definition revertPorts :: "'w netio \<Rightarrow> PortsMap \<Rightarrow> PortsMap \<Rightarrow> 'w \<Rightarrow> 'w" where
  "revertPorts net replacementPortsMap originalPortsMap w =
     fold (\<lambda>(k, v) w. if gm_has originalPortsMap k then w else n_Close net v w) replacementPortsMap w"

section \<open>Nodes\<close>

record NodeAddress =
  na_Type :: string
  na_Address :: string

record Node =
  nd_Name :: string
  nd_PodCIDR :: string
  nd_Addresses :: "NodeAddress list"

definition TrimSpace :: "string \<Rightarrow> string" where
  "TrimSpace s = rev (dropWhile is_space (rev (dropWhile is_space s)))"

text \<open>A fatal log message ends the process: \<open>None\<close>.\<close>

definition GetHostname :: "'w netio \<Rightarrow> string \<Rightarrow> 'w \<Rightarrow> string option" where
  "GetHostname net hostnameOverride w =
     (if hostnameOverride = '''' then
        (case n_Hostname net w of
           Inl err \<Rightarrow> None
         | Inr nodename \<Rightarrow> Some (ToLower (TrimSpace nodename)))
      else Some (ToLower (TrimSpace hostnameOverride)))"

definition GetNode :: "'w netio \<Rightarrow> (string \<Rightarrow> 'w \<Rightarrow> go_error + Node) \<Rightarrow> string \<Rightarrow> 'w \<Rightarrow> (go_error + Node) option" where
  "GetNode net nodes_Get hostnameOverride w =
     (case GetHostname net hostnameOverride w of
        None \<Rightarrow> None
      | Some hostname \<Rightarrow>
          (let failed = Inl ''Failed to identify the node by hostname or --hostname-override'' in
           Some (if hostname \<noteq> '''' then
                   (case nodes_Get hostname w of Inr node \<Rightarrow> Inr node | Inl _ \<Rightarrow> failed)
                 else failed)))"

definition GetPodCidrFromNodeSpec ::
  "'w netio \<Rightarrow> (string \<Rightarrow> 'w \<Rightarrow> go_error + Node) \<Rightarrow> string \<Rightarrow> 'w \<Rightarrow> (go_error + string) option" where
  "GetPodCidrFromNodeSpec net nodes_Get hostnameOverride w =
     (case GetNode net nodes_Get hostnameOverride w of
        None \<Rightarrow> None
      | Some (Inl err) \<Rightarrow> Some (Inl (''Failed to get pod CIDR allocated for the node due to: '' @ err))
      | Some (Inr node) \<Rightarrow> Some (Inr (nd_PodCIDR node)))"

fun show_addresses :: "NodeAddress list \<Rightarrow> string" where
  "show_addresses [] = ''''"
| "show_addresses [a] = ''{'' @ na_Type a @ '' '' @ na_Address a @ ''}''"
| "show_addresses (a # as) = ''{'' @ na_Type a @ '' '' @ na_Address a @ ''} '' @ show_addresses as"

definition address_map :: "NodeAddress list \<Rightarrow> (string, NodeAddress list) gomap" where
  "address_map addresses =
     fold (\<lambda>a m. gm_put m (na_Type a) (gm_slice m (na_Type a) @ [a])) addresses []"

text \<open>Indexing an empty slice would panic: \<open>None\<close>.\<close>

definition first_address :: "NodeAddress list \<Rightarrow> (go_error + IP) option" where
  "first_address as = (case as of [] \<Rightarrow> None | a # _ \<Rightarrow> Some (Inr (ParseIP (na_Address a))))"

definition InternalGetNodeHostIP :: "Node \<Rightarrow> (go_error + IP) option" where
  "InternalGetNodeHostIP node =
     (let addressMap = address_map (nd_Addresses node) in
      case gm_get addressMap ''InternalIP'' of
        Some as \<Rightarrow> first_address as
      | None \<Rightarrow>
          (case gm_get addressMap ''ExternalIP'' of
             Some as \<Rightarrow> first_address as
           | None \<Rightarrow> Some (Inl (''host IP unknown; known addresses: ['' @
                              show_addresses (nd_Addresses node) @ '']''))))"

definition excluded_interface :: "string \<Rightarrow> bool" where
  "excluded_interface name \<longleftrightarrow>
     HasPrefix name ''docker'' \<or> HasPrefix name ''flannel'' \<or> HasPrefix name ''enn-dummy'' \<or>
     HasPrefix name ''cni'' \<or> HasPrefix name ''lo''"

text \<open>The loop over the interfaces: the addresses of excluded ones are taken away.\<close>

fun remove_excluded ::
  "'w ipvs_Interface \<Rightarrow> 'w \<Rightarrow> string list \<Rightarrow> string list \<Rightarrow> go_error + string list" where
  "remove_excluded ipvs w [] nodeAddress = Inr nodeAddress"
| "remove_excluded ipvs w (name # names) nodeAddress =
     (if excluded_interface name then
        (case i_GetLocalAddresses ipvs name w of
           Inl err \<Rightarrow> Inl (''get node ip err: '' @ err)
         | Inr fakeAddress \<Rightarrow>
             remove_excluded ipvs w names (filter (\<lambda>a. a \<notin> set fakeAddress) nodeAddress))
      else remove_excluded ipvs w names nodeAddress)"

text \<open>The nil slice of addresses and the empty one behave alike: both are the empty list.\<close>

definition GetNodeIPs :: "'w netio \<Rightarrow> 'w ipvs_Interface \<Rightarrow> 'w \<Rightarrow> go_error + IP list" where
  "GetNodeIPs net ipvs w =
     (case n_Interfaces net w of
        Inl err \<Rightarrow> Inl (''get node ip err: '' @ err)
      | Inr interfaces \<Rightarrow>
          (case i_GetLocalAddresses ipvs '''' w of
             Inl err \<Rightarrow> Inl (''get node ip err: '' @ err)
           | Inr nodeAddress \<Rightarrow>
               (case remove_excluded ipvs w interfaces nodeAddress of
                  Inl err \<Rightarrow> Inl err
                | Inr rest \<Rightarrow> Inr (map ParseIP rest))))"

section \<open>Connection tracking\<close>

definition noConnectionToDelete :: string where
  "noConnectionToDelete = ''0 flow entries have been deleted''"

definition IPPart :: "string \<Rightarrow> string" where
  "IPPart s =
     (if ParseIP s \<noteq> nilIP then s
      else (case SplitHostPort s of
              Inl err \<Rightarrow> ''''
            | Inr (host, _) \<Rightarrow>
                (let ip = ParseIP host in if ip \<noteq> nilIP then IP_String ip else '''')))"

definition IsIPv6 :: "IP \<Rightarrow> bool" where
  "IsIPv6 netIP \<longleftrightarrow> netIP \<noteq> nilIP \<and> To4 netIP = nilIP"

definition IsIPv6String :: "string \<Rightarrow> bool" where
  "IsIPv6String ip = IsIPv6 (ParseIP ip)"

definition parametersWithFamily :: "bool \<Rightarrow> string list \<Rightarrow> string list" where
  "parametersWithFamily isIPv6 parameters =
     (if isIPv6 then parameters @ [''-f'', ''ipv6''] else parameters)"

definition ExecConntrackTool :: "'w execer \<Rightarrow> string list \<Rightarrow> 'w \<Rightarrow> go_error option \<times> 'w" where
  "ExecConntrackTool x parameters w =
     (case x_LookPath x ''conntrack'' w of
        Inl err \<Rightarrow> (Some (''error looking for path of conntrack: '' @ err), w)
      | Inr conntrackPath \<Rightarrow>
          (case x_CombinedOutput x conntrackPath parameters w of
             ((_, None), w1) \<Rightarrow> (None, w1)
           | ((output, Some err), w1) \<Rightarrow>
               (Some (''conntrack command returned: '' @ Quote output @ '', error message: '' @ err), w1)))"

definition ClearUDPConntrackForIP :: "'w execer \<Rightarrow> string \<Rightarrow> 'w \<Rightarrow> go_error option \<times> 'w" where
  "ClearUDPConntrackForIP x ip w =
     (case ExecConntrackTool x (parametersWithFamily (IsIPv6String ip)
             [''-D'', ''--orig-dst'', ip, ''-p'', ''udp'']) w of
        (None, w1) \<Rightarrow> (None, w1)
      | (Some err, w1) \<Rightarrow>
          if \<not> Contains err noConnectionToDelete
          then (Some (''error deleting connection tracking state for UDP service IP: '' @ ip @
                      '', error: '' @ err), w1)
          else (None, w1))"

definition ClearUDPConntrackForPeers :: "'w execer \<Rightarrow> string \<Rightarrow> string \<Rightarrow> 'w \<Rightarrow> go_error option \<times> 'w" where
  "ClearUDPConntrackForPeers x origin dest w =
     (case ExecConntrackTool x (parametersWithFamily (IsIPv6String origin)
             [''-D'', ''--orig-dst'', origin, ''--dst-nat'', dest, ''-p'', ''udp'']) w of
        (None, w1) \<Rightarrow> (None, w1)
      | (Some err, w1) \<Rightarrow>
          if \<not> Contains err noConnectionToDelete
          then (Some (''error deleting conntrack entries for UDP peer {'' @ origin @ '', '' @ dest @
                      ''}, error: '' @ err), w1)
          else (None, w1))"

text \<open>Its errors are only logged.\<close>

definition ClearUdpConntrackForPort :: "'w execer \<Rightarrow> int \<Rightarrow> 'w \<Rightarrow> 'w" where
  "ClearUdpConntrackForPort x port w =
     (if port > 0
      then snd (ExecConntrackTool x [''-D'', ''-p'', ''udp'', ''--dport'', Itoa port] w)
      else w)"

definition DeleteEndpointConnections ::
  "'w execer \<Rightarrow> ProxyServiceMap \<Rightarrow> EndpointServicePair list \<Rightarrow> 'w \<Rightarrow> 'w" where
  "DeleteEndpointConnections x serviceMap connectionMap w =
     fold (\<lambda>p w.
         case gm_get serviceMap (esp_ServicePortName p) of
           None \<Rightarrow> w
         | Some svcInfo \<Rightarrow>
             if si_Protocol svcInfo = ToLower ProtocolUDP
             then snd (ExecConntrackTool x
                    [''-D'', ''--orig-dst'', IP_String (si_ClusterIP svcInfo), ''--dst-nat'',
                     takeWhile (\<lambda>c. c \<noteq> CHR '':'') (esp_Endpoint p), ''-p'', ''udp''] w)
             else w)
       connectionMap w"

definition DeleteServiceConnections :: "'w execer \<Rightarrow> string list \<Rightarrow> 'w \<Rightarrow> 'w" where
  "DeleteServiceConnections x svcIPs w =
     fold (\<lambda>ip w. snd (ExecConntrackTool x [''-D'', ''--orig-dst'', ip, ''-p'', ''udp''] w)) svcIPs w"

section \<open>Properties\<close>

lemma show_Itoa_digits: "p \<ge> 0 \<Longrightarrow> ch \<in> set (Itoa p) \<Longrightarrow> is_digit ch"
  by (simp add: Itoa_def show_nat_digits)

text \<open>
  The endpoint text that the stale check stores is read back: for an endpoint with a
  canonical IPv4 address the IP part of its pair is that address, so the conntrack entries that
  are deleted are those of the endpoint.
\<close>

theorem IPPart_endpoint_pair:
  assumes "canonical_v4 (ei_Ip ep)" and "ei_Port ep \<ge> 0"
  shows "IPPart (esp_Endpoint (endpoint_pair n ep)) = ei_Ip ep"
proof -
  have "SplitHostPort (JoinHostPort (ei_Ip ep) (Itoa (ei_Port ep))) = Inr (ei_Ip ep, Itoa (ei_Port ep))"
    using assms(1) show_Itoa_digits [OF assms(2)] by (rule SplitHostPort_JoinHostPort)
  moreover from assms(1) have "ParseIP (ei_Ip ep) \<noteq> nilIP" "IP_String (ParseIP (ei_Ip ep)) = ei_Ip ep"
    using is_v4_not_nil by (auto simp: canonical_v4_def)
  ultimately show ?thesis
    using ParseIP_JoinHostPort [OF assms(1)] by (simp add: IPPart_def endpoint_pair_def)
qed

lemma dotted_canonical: "canonical_v4 (dotted [a, b, c, d])"
proof -
  have v4: "is_v4 [a, b, c, d]" by (simp add: is_v4_def To4_def)
  from canonical_v4_String [OF v4] IP_String_v4 [OF v4] show ?thesis by (simp add: To4_def)
qed

theorem IPPart_endpoint_pair_witness:
  "IPPart (esp_Endpoint (endpoint_pair \<lparr>spn_NamespacedName = ex_nsn, spn_Port = ''dns''\<rparr>
      \<lparr>ei_Ip = dotted [10, 1, 1, 1], ei_Port = 53, ei_IsLocal = False\<rparr>)) = dotted [10, 1, 1, 1]"
  using IPPart_endpoint_pair [of "\<lparr>ei_Ip = dotted [10, 1, 1, 1], ei_Port = 53, ei_IsLocal = False\<rparr>"]
  by (simp add: dotted_canonical)

text \<open>Quoting keeps plain text, so the marker of a harmless failure survives it.\<close>

definition plain_char :: "char \<Rightarrow> bool" where
  "plain_char c \<longleftrightarrow> quote_char c = [c]"

lemma noConnection_plain: "list_all plain_char noConnectionToDelete"
  by (simp add: noConnectionToDelete_def plain_char_def quote_char_def Let_def)

lemma quote_plain: "list_all plain_char s \<Longrightarrow> concat (map quote_char s) = s"
  by (induction s) (auto simp: plain_char_def)

lemma Contains_Quote: "list_all plain_char sub \<Longrightarrow> Contains s sub \<Longrightarrow> Contains (Quote s) sub"
proof -
  assume p: "list_all plain_char sub" and "Contains s sub"
  then obtain u v where "s = u @ sub @ v" by (auto simp: Contains_iff)
  with quote_plain [OF p] have "Quote s = ([char_of (34 :: nat)] @ concat (map quote_char u)) @ sub @
      (concat (map quote_char v) @ [char_of (34 :: nat)])"
    by (simp add: Quote_def)
  then show ?thesis unfolding Contains_iff by blast
qed

lemma ExecConntrackTool_harmless:
  assumes "x_LookPath x ''conntrack'' w = Inr path"
    and "x_CombinedOutput x path ps w = ((output, e), w1)"
    and "e = None \<or> Contains output noConnectionToDelete"
  shows "\<exists>r. ExecConntrackTool x ps w = (r, w1) \<and> (\<forall>m. r = Some m \<longrightarrow> Contains m noConnectionToDelete)"
proof (cases e)
  case (Some err)
  with assms(3) have "Contains (Quote output) noConnectionToDelete"
    using Contains_Quote [OF noConnection_plain] by simp
  then have "Contains (''conntrack command returned: '' @ Quote output @ '', error message: '' @ err)
      noConnectionToDelete" unfolding Contains_iff by (metis append.assoc)
  with assms(1,2) Some show ?thesis by (simp add: ExecConntrackTool_def)
qed (use assms in \<open>simp add: ExecConntrackTool_def\<close>)

lemma snd_ClearUDPConntrack:
  "snd (ClearUDPConntrackForIP x ip w) = snd (ExecConntrackTool x
     (parametersWithFamily (IsIPv6String ip) [''-D'', ''--orig-dst'', ip, ''-p'', ''udp'']) w)"
  "snd (ClearUDPConntrackForPeers x orig dest w) = snd (ExecConntrackTool x
     (parametersWithFamily (IsIPv6String orig) [''-D'', ''--orig-dst'', orig, ''--dst-nat'', dest, ''-p'', ''udp'']) w)"
  unfolding ClearUDPConntrackForIP_def ClearUDPConntrackForPeers_def
  by (auto split: prod.splits option.splits)

text \<open>
  Having nothing to delete is not an error: when the conntrack tool is found and either
  succeeds or reports that no entry was deleted, clearing the entries of a UDP service address
  reports no error, whatever exit status the tool has; the world is the one the tool left.
\<close>

theorem ClearUDPConntrackForIP_harmless:
  assumes "x_LookPath x ''conntrack'' w = Inr path"
    and "x_CombinedOutput x path (parametersWithFamily (IsIPv6String ip)
           [''-D'', ''--orig-dst'', ip, ''-p'', ''udp'']) w = ((out, e), w1)"
    and "e = None \<or> Contains out noConnectionToDelete"
  shows "ClearUDPConntrackForIP x ip w = (None, w1)"
  using ExecConntrackTool_harmless [OF assms]
  by (auto simp: ClearUDPConntrackForIP_def split: option.splits)

definition ex_execer :: "unit execer" where
  "ex_execer = \<lparr>x_LookPath = (\<lambda>_ _. Inr ''/usr/sbin/conntrack''),
     x_CombinedOutput = (\<lambda>_ _ _. ((''conntrack v1.4.3: 0 flow entries have been deleted.'',
        Some ''exit status 1''), ()))\<rparr>"

theorem ClearUDPConntrackForIP_harmless_witness:
  "ClearUDPConntrackForIP ex_execer ''10.0.0.1'' () = (None, ())"
  by (rule ClearUDPConntrackForIP_harmless [where path = "''/usr/sbin/conntrack''" and
        out = "''conntrack v1.4.3: 0 flow entries have been deleted.''" and e = "Some ''exit status 1''"])
    (simp_all add: ex_execer_def noConnectionToDelete_def HasPrefix_def)

lemma gm_slice_address_map:
  "gm_get (address_map as) t =
     (if filter (\<lambda>a. na_Type a = t) as = [] then None else Some (filter (\<lambda>a. na_Type a = t) as))"
proof -
  have "gm_get (fold (\<lambda>a m. gm_put m (na_Type a) (gm_slice m (na_Type a) @ [a])) as m) t =
      (if filter (\<lambda>a. na_Type a = t) as = [] then gm_get m t
       else Some (gm_slice m t @ filter (\<lambda>a. na_Type a = t) as))" for m
    by (induction as arbitrary: m) (auto simp: gm_slice_put)
  from this [of "[]"] show ?thesis by (simp add: address_map_def gm_slice_def)
qed

text \<open>
  The host address of a node is its first internal address, or its first external one when
  it has no internal one, and an error otherwise; the lookup never panics.
\<close>

theorem InternalGetNodeHostIP_spec:
  "InternalGetNodeHostIP node =
     (case find (\<lambda>a. na_Type a = ''InternalIP'') (nd_Addresses node) of
        Some a \<Rightarrow> Some (Inr (ParseIP (na_Address a)))
      | None \<Rightarrow>
          (case find (\<lambda>a. na_Type a = ''ExternalIP'') (nd_Addresses node) of
             Some a \<Rightarrow> Some (Inr (ParseIP (na_Address a)))
           | None \<Rightarrow> Some (Inl (''host IP unknown; known addresses: ['' @
                              show_addresses (nd_Addresses node) @ '']''))))"
proof -
  have f: "find P as = (case filter P as of [] \<Rightarrow> None | a # _ \<Rightarrow> Some a)" for P and as :: "NodeAddress list"
    by (induction as) auto
  show ?thesis
    unfolding InternalGetNodeHostIP_def Let_def gm_slice_address_map f first_address_def
    by (auto split: list.splits)
qed

lemma remove_excluded_ok:
  assumes "\<And>name. name \<in> set names \<Longrightarrow> excluded_interface name \<Longrightarrow> i_GetLocalAddresses ipvs name w = Inr (locals name)"
  shows "remove_excluded ipvs w names as =
    Inr (filter (\<lambda>a. \<forall>name \<in> set names. excluded_interface name \<longrightarrow> a \<notin> set (locals name)) as)"
  using assms by (induction names arbitrary: as) (auto simp: conj_commute)


definition ex_netio :: "unit netio" where
  "ex_netio = \<lparr>n_Listen = (\<lambda>_ w. (Inr 1, w)), n_ResolveUDPAddr = (\<lambda>a _. Inr a),
     n_ListenUDP = (\<lambda>_ w. (Inr 2, w)), n_Close = (\<lambda>_ w. w),
     n_Interfaces = (\<lambda>_. Inr [''lo'', ''eth0'']), n_InterfaceAddrs = (\<lambda>_. Inr []),
     n_Hostname = (\<lambda>_. Inr ''node1'')\<rparr>"

definition ex_routes :: "unit libnet" where
  "ex_routes =
     \<lparr>h_GetService = (\<lambda>_ _. Inl ''''), h_GetServices = (\<lambda>_. Inr []), h_GetDestinations = (\<lambda>_ _. Inr []),
      h_NewService = (\<lambda>_ w. (None, w)), h_DelService = (\<lambda>_ w. (None, w)),
      h_NewDestination = (\<lambda>_ _ w. (None, w)), h_DelDestination = (\<lambda>_ _ w. (None, w)),
      nl_LinkByName = (\<lambda>n _. Inr \<lparr>lk_Name = n, lk_Index = (if n = ''lo'' then 1 else 2)\<rparr>),
      nl_LinkAdd = (\<lambda>_ w. (None, w)), nl_LinkSetUp = (\<lambda>_ w. (None, w)), nl_LinkDel = (\<lambda>_ w. (None, w)),
      nl_AddrAdd = (\<lambda>_ _ w. (None, w)), nl_AddrDel = (\<lambda>_ _ w. (None, w)), nl_AddrList = (\<lambda>_ _ _. Inr []),
      nl_RouteListFiltered = (\<lambda>_ r _ _.
        let lo = r\<lparr>rt_LinkIndex := 1, rt_Src := [127, 0, 0, 1]\<rparr>;
            eth = r\<lparr>rt_LinkIndex := 2, rt_Src := [192, 168, 1, 5]\<rparr>
        in Inr (if rt_LinkIndex r = 0 then [lo, eth] else if rt_LinkIndex r = 1 then [lo] else [eth]))\<rparr>"

lemma ex_routes_addresses:
  "GetLocalAddresses ex_routes '''' () = Inr [IP_String [192, 168, 1, 5], IP_String [127, 0, 0, 1]]"
  "GetLocalAddresses ex_routes ''lo'' () = Inr [IP_String [127, 0, 0, 1]]"
  by (simp_all add: GetLocalAddresses_def ex_routes_def Let_def IP_String_inj_v4 is_v4_def To4_def)


end
