(* ===== verification/Ipvs_Spec.thy ===== *)
theory Ipvs_Spec
  imports Ipvs
begin

text \<open>
  The contract between the proxy and the kernel, in two levels.  \<open>ipvs_kernel\<close> states the
  documented behaviour of the IPVS netlink handle and of the address functions of netlink on a
  working kernel that holds only IPv4 TCP and UDP services; \<open>ipvs_iface\<close> states what the proxy
  relies on when it calls \<^verbatim>\<open>utilipvs.Interface\<close>.  The sublocale shows that the wrapper of
  src/pkg/util/ipvs/ipvs.go turns the first into the second.  A reference kernel shows that the
  laws can hold together.
\<close>

section \<open>Keys and validity\<close>

text \<open>The map keys and values of src/pkg/proxy/ipvs/proxier.go.\<close>

record activeServiceKey =
  ak_ip :: string
  ak_port :: int
  ak_protocol :: string

record activeServiceValue =
  av_ip :: string
  av_port :: int

definition is_port :: "int \<Rightarrow> bool" where "is_port p \<longleftrightarrow> 0 \<le> p \<and> p < 65536"

definition is_proto :: "string \<Rightarrow> bool" where "is_proto p \<longleftrightarrow> p = ''tcp'' \<or> p = ''udp''"

definition svc_key :: "ipvs_Service \<Rightarrow> activeServiceKey" where
  "svc_key s = \<lparr>ak_ip = IP_String (s_ClusterIP s), ak_port = s_Port s, ak_protocol = s_Protocol s\<rparr>"

definition valid_service :: "ipvs_Service \<Rightarrow> bool" where
  "valid_service s \<longleftrightarrow> is_v4 (s_ClusterIP s) \<and> is_port (s_Port s) \<and> is_proto (s_Protocol s)"

definition server_val :: "Server \<Rightarrow> activeServiceValue" where
  "server_val d = \<lparr>av_ip = sv_Ip d, av_port = sv_Port d\<rparr>"

definition valid_val :: "activeServiceValue \<Rightarrow> bool" where
  "valid_val v \<longleftrightarrow> canonical_v4 (av_ip v) \<and> is_port (av_port v)"

definition lib_key :: "lib_Service \<Rightarrow> string \<times> 16 word \<times> 16 word" where
  "lib_key s = (IP_String (ls_Address s), ls_Protocol s, ls_Port s)"

definition lib_val :: "lib_Destination \<Rightarrow> string \<times> 16 word" where
  "lib_val d = (IP_String (ld_Address d), ld_Port d)"

definition lib_ok :: "lib_Service \<Rightarrow> bool" where
  "lib_ok s \<longleftrightarrow> is_v4 (ls_Address s) \<and> ls_Protocol s \<in> {IPPROTO_TCP, IPPROTO_UDP}"

definition inter_key :: "lib_Service \<Rightarrow> activeServiceKey" where
  "inter_key s = \<lparr>ak_ip = IP_String (ls_Address s), ak_port = uint (ls_Port s), ak_protocol = ToProtocolString s\<rparr>"

section \<open>What the proxy relies on\<close>

type_synonym ipvs_table = "activeServiceKey \<rightharpoonup> activeServiceValue set"

locale ipvs_iface =
  fixes I :: "'w ipvs_Interface"
    and ok :: "'w \<Rightarrow> bool"
    and tbl :: "'w \<Rightarrow> ipvs_table"
    and bound :: "'w \<Rightarrow> string set"
    and link :: Link
  assumes list_services: "ok w \<Longrightarrow> \<exists>svcs. i_ListIpvsService I w = Inr svcs \<and> list_all lib_ok svcs \<and>
        inter_key ` set svcs = dom (tbl w)"
    and list_servers: "ok w \<Longrightarrow> i_ListIpvsService I w = Inr svcs \<Longrightarrow> ls \<in> set svcs \<Longrightarrow>
        \<exists>ds. i_ListIpvsServer I ls w = Inr ds \<and> tbl w (inter_key ls) = Some (server_val ` set ds)
           \<and> (\<forall>d \<in> set ds. valid_val (server_val d))"
    and add_service: "ok w \<Longrightarrow> valid_service s \<Longrightarrow>
        \<exists>w'. i_AddIpvsService I s w = Some (None, w') \<and> ok w' \<and> bound w' = bound w \<and>
          tbl w' = (if svc_key s \<in> dom (tbl w) then tbl w else (tbl w)(svc_key s \<mapsto> {}))"
    and del_service: "ok w \<Longrightarrow> valid_service s \<Longrightarrow>
        \<exists>e w'. i_DeleteIpvsService I s w = (e, w') \<and> ok w' \<and> bound w' = bound w \<and>
          tbl w' = (tbl w)(svc_key s := None) \<and> (e = None \<longleftrightarrow> svc_key s \<in> dom (tbl w))"
    and add_server: "ok w \<Longrightarrow> valid_service s \<Longrightarrow> valid_val (server_val d) \<Longrightarrow>
        \<exists>e w'. i_AddIpvsServer I s d w = (e, w') \<and> ok w' \<and> bound w' = bound w \<and>
          tbl w' = (tbl w)(svc_key s := map_option (insert (server_val d)) (tbl w (svc_key s))) \<and>
          (e = None \<longleftrightarrow> svc_key s \<in> dom (tbl w))"
    and del_server: "ok w \<Longrightarrow> valid_service s \<Longrightarrow> valid_val (server_val d) \<Longrightarrow>
        \<exists>e w'. i_DeleteIpvsServer I s d w = (e, w') \<and> ok w' \<and> bound w' = bound w \<and>
          tbl w' = (tbl w)(svc_key s := map_option (\<lambda>S. S - {server_val d}) (tbl w (svc_key s))) \<and>
          (e = None \<longleftrightarrow> (\<exists>S. tbl w (svc_key s) = Some S \<and> server_val d \<in> S))"
    and flush: "ok w \<Longrightarrow> \<exists>w'. i_FlushIpvs I w = (None, w') \<and> ok w' \<and> bound w' = bound w \<and> tbl w' = Map.empty"
    and dummy_link: "ok w \<Longrightarrow> \<exists>w'. i_GetDummyLink I w = Some (Inr link, w') \<and> ok w' \<and> tbl w' = tbl w \<and>
          bound w' = bound w"
    and add_addr: "ok w \<Longrightarrow> is_v4 ip \<Longrightarrow>
        \<exists>w'. i_AddDummyClusterIp I ip link w = (None, w') \<and> ok w' \<and> tbl w' = tbl w \<and>
          bound w' = insert (IP_String ip) (bound w)"
    and del_addr: "ok w \<Longrightarrow> is_v4 ip \<Longrightarrow>
        \<exists>e w'. i_DeleteDummyClusterIp I ip link w = (e, w') \<and> ok w' \<and> tbl w' = tbl w \<and>
          bound w' = bound w - {IP_String ip}"
    and list_addr: "ok w \<Longrightarrow> \<exists>as. i_ListDuumyClusterIp I link w = Inr as \<and>
        (\<forall>a \<in> set as. is_v4 (ad_IP a)) \<and> (\<lambda>a. IP_String (ad_IP a)) ` set as = bound w"


section \<open>What the kernel promises\<close>

text \<open>
  The abstract state of the kernel: the virtual services by address, protocol and port with the
  set of their destinations, and the addresses bound to the dummy link.  Adding what exists and
  deleting what does not exist are errors that change nothing; the errors for an existing
  destination and an existing address carry the text the wrapper looks for.
\<close>

type_synonym kernel_table = "string \<times> 16 word \<times> 16 word \<rightharpoonup> (string \<times> 16 word) set"

locale ipvs_kernel =
  fixes h :: "'w libnet"
    and ok :: "'w \<Rightarrow> bool"
    and vs :: "'w \<Rightarrow> kernel_table"
    and bound :: "'w \<Rightarrow> string set"
    and link :: Link
  assumes GetServices: "ok w \<Longrightarrow> \<exists>svcs. h_GetServices h w = Inr svcs \<and> list_all lib_ok svcs \<and>
        distinct (map lib_key svcs) \<and> lib_key ` set svcs = dom (vs w)"
    and GetDestinations: "ok w \<Longrightarrow> lib_ok s \<Longrightarrow> vs w (lib_key s) = Some D \<Longrightarrow>
        \<exists>ds. h_GetDestinations h s w = Inr ds \<and> (\<forall>d \<in> set ds. is_v4 (ld_Address d)) \<and> lib_val ` set ds = D"
    and NewService: "ok w \<Longrightarrow> lib_ok s \<Longrightarrow> lib_key s \<notin> dom (vs w) \<Longrightarrow>
        \<exists>w'. h_NewService h s w = (None, w') \<and> ok w' \<and> vs w' = (vs w)(lib_key s \<mapsto> {}) \<and> bound w' = bound w"
    and DelService: "ok w \<Longrightarrow> lib_ok s \<Longrightarrow>
        \<exists>e w'. h_DelService h s w = (e, w') \<and> ok w' \<and> vs w' = (vs w)(lib_key s := None) \<and> bound w' = bound w \<and>
          (e = None \<longleftrightarrow> lib_key s \<in> dom (vs w))"
    and NewDestination: "ok w \<Longrightarrow> lib_ok s \<Longrightarrow> is_v4 (ld_Address d) \<Longrightarrow> vs w (lib_key s) = Some D \<Longrightarrow>
        \<exists>e w'. h_NewDestination h s d w = (e, w') \<and> ok w' \<and> bound w' = bound w \<and>
          vs w' = (vs w)(lib_key s \<mapsto> insert (lib_val d) D) \<and>
          (if lib_val d \<in> D then \<exists>m. e = Some m \<and> Contains m IPVS_SERVER_EXISTS else e = None)"
    and NewDestination_none: "ok w \<Longrightarrow> lib_ok s \<Longrightarrow> is_v4 (ld_Address d) \<Longrightarrow> vs w (lib_key s) = None \<Longrightarrow>
        \<exists>m w'. h_NewDestination h s d w = (Some m, w') \<and> ok w' \<and> bound w' = bound w \<and> vs w' = vs w \<and>
          \<not> Contains m IPVS_SERVER_EXISTS"
    and DelDestination: "ok w \<Longrightarrow> lib_ok s \<Longrightarrow> is_v4 (ld_Address d) \<Longrightarrow>
        \<exists>e w'. h_DelDestination h s d w = (e, w') \<and> ok w' \<and> bound w' = bound w \<and>
          vs w' = (vs w)(lib_key s := map_option (\<lambda>D. D - {lib_val d}) (vs w (lib_key s))) \<and>
          (e = None \<longleftrightarrow> (\<exists>D. vs w (lib_key s) = Some D \<and> lib_val d \<in> D))"
    and LinkByName: "ok w \<Longrightarrow> nl_LinkByName h ENN_DUMMY w = Inr link \<or>
        nl_LinkByName h ENN_DUMMY w = Inl IFACE_NOT_FOUND \<and>
          (\<exists>w'. nl_LinkAdd h ENN_DUMMY w = (None, w') \<and> ok w' \<and> vs w' = vs w \<and> bound w' = bound w \<and>
             nl_LinkByName h ENN_DUMMY w' = Inr link)"
    and AddrAdd: "ok w \<Longrightarrow> is_v4 (ad_IP a) \<Longrightarrow>
        \<exists>e w'. nl_AddrAdd h link a w = (e, w') \<and> ok w' \<and> vs w' = vs w \<and>
          bound w' = insert (IP_String (ad_IP a)) (bound w) \<and>
          e = (if IP_String (ad_IP a) \<in> bound w then Some IFACE_HAS_ADDR else None)"
    and AddrDel: "ok w \<Longrightarrow> is_v4 (ad_IP a) \<Longrightarrow>
        \<exists>e w'. nl_AddrDel h link a w = (e, w') \<and> ok w' \<and> vs w' = vs w \<and>
          bound w' = bound w - {IP_String (ad_IP a)} \<and> (e = None \<longleftrightarrow> IP_String (ad_IP a) \<in> bound w)"
    and AddrList: "ok w \<Longrightarrow> \<exists>as. nl_AddrList h link AF_INET w = Inr as \<and>
        (\<forall>a \<in> set as. is_v4 (ad_IP a)) \<and> (\<lambda>a. IP_String (ad_IP a)) ` set as = bound w"

text \<open>The proxy's reading of the kernel table: the keys are protocol names and int ports.\<close>

definition proto_number :: "string \<Rightarrow> 16 word" where
  "proto_number p = (if p = ''tcp'' then IPPROTO_TCP else IPPROTO_UDP)"

definition word_key :: "activeServiceKey \<Rightarrow> string \<times> 16 word \<times> 16 word" where
  "word_key k = (ak_ip k, proto_number (ak_protocol k), word_of_int (ak_port k))"

definition int_val :: "string \<times> 16 word \<Rightarrow> activeServiceValue" where
  "int_val d = \<lparr>av_ip = fst d, av_port = uint (snd d)\<rparr>"

definition proxy_table :: "kernel_table \<Rightarrow> ipvs_table" where
  "proxy_table t k =
     (if is_port (ak_port k) \<and> is_proto (ak_protocol k)
      then map_option (image int_val) (t (word_key k)) else None)"

definition good_key :: "activeServiceKey \<Rightarrow> bool" where
  "good_key k \<longleftrightarrow> is_port (ak_port k) \<and> is_proto (ak_protocol k)"

lemma uint_port: "is_port p \<Longrightarrow> uint (word_of_int p :: 16 word) = p"
  by (simp add: is_port_def uint_word_of_int)

lemma is_port_uint: "is_port (uint (w :: 16 word))"
  using unsigned_less [of w, where 'a = int] by (simp add: is_port_def)

lemma word_key_inj: "good_key k \<Longrightarrow> good_key k' \<Longrightarrow> word_key k = word_key k' \<longleftrightarrow> k = k'"
  by (cases k; cases k')
    (auto simp: good_key_def word_key_def proto_number_def is_proto_def IPPROTO_TCP_def IPPROTO_UDP_def
      dest: arg_cong [where f = uint] simp: uint_port)

lemma int_val_inj [simp]: "int_val d = int_val d' \<longleftrightarrow> d = d'"
  by (cases d; cases d') (simp add: int_val_def word_uint_eq_iff)

lemma proxy_table_good: "good_key k \<Longrightarrow> proxy_table t k = map_option (image int_val) (t (word_key k))"
  by (simp add: proxy_table_def good_key_def)

lemma proxy_table_upd:
  "good_key k \<Longrightarrow> proxy_table (t(word_key k := x)) = (proxy_table t)(k := map_option (image int_val) x)"
  using word_key_inj by (fastforce simp: fun_eq_iff proxy_table_def good_key_def)

lemma proxy_table_Some:
  "proxy_table t k = Some S \<longleftrightarrow> good_key k \<and> (\<exists>D. t (word_key k) = Some D \<and> S = int_val ` D)"
  by (auto simp: proxy_table_def good_key_def)

lemma valid_service_good [simp]: "valid_service s \<Longrightarrow> good_key (svc_key s)"
  by (simp add: valid_service_def good_key_def svc_key_def)

lemma lib_of_service:
  assumes "valid_service s"
  obtains l where "CreateLibIpvsService (Some s) = Inr l" "lib_ok l" "lib_key l = word_key (svc_key s)"
  using assms
  by (force simp: CreateLibIpvsService_def Let_def lib_ok_def lib_key_def word_key_def svc_key_def
      valid_service_def ToProtocolNumber_def proto_number_def)

lemma lib_of_server:
  assumes "valid_val (server_val d)"
  obtains l where "CreateLibIpvsServer (Some d) = Inr l" "is_v4 (ld_Address l)"
    "int_val (lib_val l) = server_val d"
  using assms
  by (force simp: CreateLibIpvsServer_def valid_val_def server_val_def canonical_v4_def lib_val_def
      int_val_def uint_port)

lemma inter_key_word [simp]: "lib_ok l \<Longrightarrow> word_key (inter_key l) = lib_key l"
  and inter_key_good [simp]: "lib_ok l \<Longrightarrow> good_key (inter_key l)"
  by (auto simp: lib_ok_def inter_key_def word_key_def lib_key_def good_key_def is_port_uint is_proto_def
      proto_number_def ToProtocolString_def IPPROTO_TCP_def IPPROTO_UDP_def)

lemma inter_servers_ok:
  "\<exists>ss. inter_servers ds = Inr ss \<and> server_val ` set ss = (int_val \<circ> lib_val) ` set ds"
  by (induction ds) (auto simp: CreateInterServer_def server_val_def int_val_def lib_val_def)

lemma valid_int_val: "is_v4 (ld_Address d) \<Longrightarrow> valid_val (int_val (lib_val d))"
  by (simp add: valid_val_def int_val_def lib_val_def canonical_v4_String is_port_uint)

section \<open>The wrapper implements the interface\<close>

context ipvs_kernel
begin

lemma iface_list_services:
  assumes "ok w"
  shows "\<exists>svcs. i_ListIpvsService (EnnIpvs h) w = Inr svcs \<and> list_all lib_ok svcs \<and>
    inter_key ` set svcs = dom (proxy_table (vs w))"
proof -
  obtain svcs where s: "h_GetServices h w = Inr svcs" "list_all lib_ok svcs" "lib_key ` set svcs = dom (vs w)"
    using GetServices [OF assms] by blast
  have "k \<in> inter_key ` set svcs" if "k \<in> dom (proxy_table (vs w))" for k
  proof -
    from that have g: "good_key k" and "word_key k \<in> dom (vs w)" by (auto simp: proxy_table_Some)
    then obtain l where l: "l \<in> set svcs" "lib_key l = word_key k" unfolding s(3) [symmetric] by force
    with s(2) g have "inter_key l = k" by (simp add: list_all_iff word_key_inj [symmetric])
    with l(1) show ?thesis by blast
  qed
  moreover have "inter_key l \<in> dom (proxy_table (vs w))" if "l \<in> set svcs" for l
  proof -
    from that s have "lib_ok l" "lib_key l \<in> dom (vs w)" by (auto simp: list_all_iff)
    then show ?thesis by (auto simp: proxy_table_good)
  qed
  ultimately show ?thesis using s by (auto simp: EnnIpvs_def ListIpvsService_def)
qed

lemma iface_list_servers:
  assumes "ok w" "i_ListIpvsService (EnnIpvs h) w = Inr svcs" "l \<in> set svcs"
  shows "\<exists>ds. i_ListIpvsServer (EnnIpvs h) l w = Inr ds \<and>
    proxy_table (vs w) (inter_key l) = Some (server_val ` set ds) \<and> (\<forall>d \<in> set ds. valid_val (server_val d))"
proof -
  from assms GetServices [OF assms(1)] have l: "lib_ok l" "lib_key l \<in> dom (vs w)"
    by (auto simp: EnnIpvs_def ListIpvsService_def list_all_iff)
  then obtain D where D: "vs w (lib_key l) = Some D" by blast
  from GetDestinations [OF assms(1) l(1) D] obtain ds where
    ds: "h_GetDestinations h l w = Inr ds" "\<forall>d \<in> set ds. is_v4 (ld_Address d)" "lib_val ` set ds = D" by blast
  obtain ss where ss: "inter_servers ds = Inr ss" "server_val ` set ss = (int_val \<circ> lib_val) ` set ds"
    using inter_servers_ok by blast
  have im: "server_val ` set ss = int_val ` D" unfolding ss(2) ds(3) [symmetric] by (rule image_comp [symmetric])
  have "valid_val v" if "v \<in> server_val ` set ss" for v
    using that ds(2) unfolding ss(2) by (auto simp: valid_int_val)
  with ss(1) ds(1) im D l(1) show ?thesis
    by (auto simp: EnnIpvs_def ListIpvsServer_def proxy_table_good)
qed

lemma iface_add_service:
  assumes "ok w" "valid_service s"
  shows "\<exists>w'. i_AddIpvsService (EnnIpvs h) s w = Some (None, w') \<and> ok w' \<and> bound w' = bound w \<and>
    proxy_table (vs w') = (if svc_key s \<in> dom (proxy_table (vs w)) then proxy_table (vs w)
      else (proxy_table (vs w))(svc_key s \<mapsto> {}))"
proof -
  from lib_of_service [OF assms(2)] obtain l where
    l: "CreateLibIpvsService (Some s) = Inr l" "lib_ok l" "lib_key l = word_key (svc_key s)" .
  obtain svcs where g: "h_GetServices h w = Inr svcs" "lib_key ` set svcs = dom (vs w)"
    using GetServices [OF assms(1)] by blast
  have "same_service s x \<longleftrightarrow> lib_key x = word_key (svc_key s)" for x
    by (auto simp: same_service_def lib_key_def word_key_def svc_key_def proto_number_def ToProtocolNumber_def)
  then have "list_ex (same_service s) svcs \<longleftrightarrow> (\<exists>x \<in> set svcs. lib_key x = word_key (svc_key s))"
    by (simp add: list_ex_iff)
  also have "\<dots> \<longleftrightarrow> word_key (svc_key s) \<in> dom (vs w)"
    unfolding g(2) [symmetric] by (metis imageE imageI)
  finally have ex: "list_ex (same_service s) svcs \<longleftrightarrow> word_key (svc_key s) \<in> dom (vs w)" .
  have dom: "svc_key s \<in> dom (proxy_table (vs w)) \<longleftrightarrow> word_key (svc_key s) \<in> dom (vs w)"
    using assms(2) by (auto simp: proxy_table_good)
  show ?thesis
  proof (cases "word_key (svc_key s) \<in> dom (vs w)")
    case True
    with ex g(1) assms(1) dom show ?thesis by (simp add: EnnIpvs_def AddIpvsService_def)
  next
    case False
    with NewService [OF assms(1) l(2)] l(3) obtain w' where
      "h_NewService h l w = (None, w')" "ok w'" "vs w' = (vs w)(word_key (svc_key s) \<mapsto> {})" "bound w' = bound w"
      by auto
    with False ex g(1) l(1) dom assms(2) show ?thesis
      by (simp add: EnnIpvs_def AddIpvsService_def proxy_table_upd)
  qed
qed

end

context ipvs_kernel
begin

lemma iface_del_service:
  assumes "ok w" "valid_service s"
  shows "\<exists>e w'. i_DeleteIpvsService (EnnIpvs h) s w = (e, w') \<and> ok w' \<and> bound w' = bound w \<and>
    proxy_table (vs w') = (proxy_table (vs w))(svc_key s := None) \<and>
    (e = None \<longleftrightarrow> svc_key s \<in> dom (proxy_table (vs w)))"
proof -
  from lib_of_service [OF assms(2)] obtain l where
    l: "CreateLibIpvsService (Some s) = Inr l" "lib_ok l" "lib_key l = word_key (svc_key s)" .
  from DelService [OF assms(1) l(2)] l(3) obtain e w' where
    d: "h_DelService h l w = (e, w')" "ok w'" "vs w' = (vs w)(word_key (svc_key s) := None)" "bound w' = bound w"
      "e = None \<longleftrightarrow> word_key (svc_key s) \<in> dom (vs w)" by auto
  from d(5) assms(2) have "e = None \<longleftrightarrow> svc_key s \<in> dom (proxy_table (vs w))"
    by (auto simp: proxy_table_good)
  with d(1-4) l(1) assms(2) show ?thesis
    by (cases e) (auto simp: EnnIpvs_def DeleteIpvsService_def proxy_table_upd)
qed

lemma iface_add_server:
  assumes "ok w" "valid_service s" "valid_val (server_val d)"
  shows "\<exists>e w'. i_AddIpvsServer (EnnIpvs h) s d w = (e, w') \<and> ok w' \<and> bound w' = bound w \<and>
    proxy_table (vs w') = (proxy_table (vs w))
      (svc_key s := map_option (insert (server_val d)) (proxy_table (vs w) (svc_key s))) \<and>
    (e = None \<longleftrightarrow> svc_key s \<in> dom (proxy_table (vs w)))"
proof -
  from lib_of_service [OF assms(2)] obtain l where
    l: "CreateLibIpvsService (Some s) = Inr l" "lib_ok l" "lib_key l = word_key (svc_key s)" .
  from lib_of_server [OF assms(3)] obtain t where
    t: "CreateLibIpvsServer (Some d) = Inr t" "is_v4 (ld_Address t)" "int_val (lib_val t) = server_val d" .
  note pt = proxy_table_good [OF valid_service_good [OF assms(2)]]
    proxy_table_upd [OF valid_service_good [OF assms(2)]]
  show ?thesis
  proof (cases "vs w (word_key (svc_key s))")
    case None
    with NewDestination_none [OF assms(1) l(2) t(2)] l(3) obtain m w' where
      "h_NewDestination h l t w = (Some m, w')" "ok w'" "bound w' = bound w" "vs w' = vs w"
      "\<not> Contains m IPVS_SERVER_EXISTS" by auto
    moreover from None have "proxy_table (vs w) (svc_key s) = None" by (simp add: pt)
    ultimately show ?thesis using l(1) t(1) by (auto simp: EnnIpvs_def AddIpvsServer_def)
  next
    case (Some D)
    with NewDestination [OF assms(1) l(2) t(2), of D] l(3) obtain e w' where
      n: "h_NewDestination h l t w = (e, w')" "ok w'" "bound w' = bound w"
        "vs w' = (vs w)(word_key (svc_key s) \<mapsto> insert (lib_val t) D)"
        "if lib_val t \<in> D then \<exists>m. e = Some m \<and> Contains m IPVS_SERVER_EXISTS else e = None" by auto
    from n(1,5) l(1) t(1) have "AddIpvsServer h s d w = (None, w')"
      by (auto simp: AddIpvsServer_def split: if_splits)
    with n(2-4) Some t(3) show ?thesis by (simp add: EnnIpvs_def pt dom_def)
  qed
qed

lemma iface_del_server:
  assumes "ok w" "valid_service s" "valid_val (server_val d)"
  shows "\<exists>e w'. i_DeleteIpvsServer (EnnIpvs h) s d w = (e, w') \<and> ok w' \<and> bound w' = bound w \<and>
    proxy_table (vs w') = (proxy_table (vs w))
      (svc_key s := map_option (\<lambda>S. S - {server_val d}) (proxy_table (vs w) (svc_key s))) \<and>
    (e = None \<longleftrightarrow> (\<exists>S. proxy_table (vs w) (svc_key s) = Some S \<and> server_val d \<in> S))"
proof -
  from lib_of_service [OF assms(2)] obtain l where
    l: "CreateLibIpvsService (Some s) = Inr l" "lib_ok l" "lib_key l = word_key (svc_key s)" .
  from lib_of_server [OF assms(3)] obtain t where
    t: "CreateLibIpvsServer (Some d) = Inr t" "is_v4 (ld_Address t)" "int_val (lib_val t) = server_val d" .
  let ?k = "word_key (svc_key s)"
  note pt = proxy_table_good [OF valid_service_good [OF assms(2)]]
    proxy_table_upd [OF valid_service_good [OF assms(2)]]
  from DelDestination [OF assms(1) l(2) t(2)] l(3) obtain e w' where
    n: "h_DelDestination h l t w = (e, w')" "ok w'" "bound w' = bound w"
      "vs w' = (vs w)(?k := map_option (\<lambda>D. D - {lib_val t}) (vs w ?k))"
      "e = None \<longleftrightarrow> (\<exists>D. vs w ?k = Some D \<and> lib_val t \<in> D)" by auto
  have del: "int_val ` (D - {lib_val t}) = int_val ` D - {server_val d}" for D
    unfolding t(3) [symmetric] by auto
  have mem: "server_val d \<in> int_val ` D \<longleftrightarrow> lib_val t \<in> D" for D
    unfolding t(3) [symmetric] by auto
  have "proxy_table (vs w') = (proxy_table (vs w))
      (svc_key s := map_option (\<lambda>S. S - {server_val d}) (proxy_table (vs w) (svc_key s)))"
    by (cases "vs w ?k") (simp_all add: n(4) pt del)
  moreover have "e = None \<longleftrightarrow> (\<exists>S. proxy_table (vs w) (svc_key s) = Some S \<and> server_val d \<in> S)"
    by (cases "vs w ?k") (simp_all add: n(5) pt mem)
  moreover have "i_DeleteIpvsServer (EnnIpvs h) s d w = (e, w') \<or>
      e \<noteq> None \<and> (\<exists>m. i_DeleteIpvsServer (EnnIpvs h) s d w = (Some m, w'))"
    using n(1) l(1) t(1) by (cases e) (simp_all add: EnnIpvs_def DeleteIpvsServer_def)
  ultimately show ?thesis using n(2,3) by fastforce
qed

text \<open>The flush deletes every listed service, whatever the order.\<close>

lemma flush_all:
  "ok w \<Longrightarrow> list_all lib_ok svcs \<Longrightarrow>
     ok (fold (\<lambda>svc w. snd (h_DelService h svc w)) svcs w) \<and>
     bound (fold (\<lambda>svc w. snd (h_DelService h svc w)) svcs w) = bound w \<and>
     vs (fold (\<lambda>svc w. snd (h_DelService h svc w)) svcs w) = vs w |` (- (lib_key ` set svcs))"
proof (induction svcs arbitrary: w)
  case (Cons s svcs)
  from Cons.prems DelService [of w s] obtain e w' where
    d: "h_DelService h s w = (e, w')" "ok w'" "vs w' = (vs w)(lib_key s := None)" "bound w' = bound w" by auto
  with Cons.IH [of w'] Cons.prems show ?case by (auto simp: restrict_map_def fun_eq_iff)
qed (simp add: restrict_map_def)

lemma iface_flush:
  assumes "ok w"
  shows "\<exists>w'. i_FlushIpvs (EnnIpvs h) w = (None, w') \<and> ok w' \<and> bound w' = bound w \<and>
    proxy_table (vs w') = Map.empty"
proof -
  obtain svcs where s: "h_GetServices h w = Inr svcs" "list_all lib_ok svcs" "lib_key ` set svcs = dom (vs w)"
    using GetServices [OF assms] by blast
  have "vs w |` (- dom (vs w)) = Map.empty" by (auto simp: restrict_map_def fun_eq_iff)
  moreover have "proxy_table Map.empty = Map.empty" by (simp add: proxy_table_def fun_eq_iff)
  ultimately show ?thesis
    using flush_all [OF assms s(2)] s by (auto simp: EnnIpvs_def FlushIpvs_def)
qed

lemma iface_dummy_link:
  assumes "ok w"
  shows "\<exists>w'. i_GetDummyLink (EnnIpvs h) w = Some (Inr link, w') \<and> ok w' \<and>
    proxy_table (vs w') = proxy_table (vs w) \<and> bound w' = bound w"
  using LinkByName [OF assms] assms by (auto simp: EnnIpvs_def GetDummyLink_def AddDummyLink_def)

lemma iface_addr:
  assumes "ok w" "is_v4 ip"
  shows "\<exists>w'. i_AddDummyClusterIp (EnnIpvs h) ip link w = (None, w') \<and> ok w' \<and>
      proxy_table (vs w') = proxy_table (vs w) \<and> bound w' = insert (IP_String ip) (bound w)"
    and "\<exists>e w'. i_DeleteDummyClusterIp (EnnIpvs h) ip link w = (e, w') \<and> ok w' \<and>
      proxy_table (vs w') = proxy_table (vs w) \<and> bound w' = bound w - {IP_String ip}"
  using AddrAdd [OF assms(1), of "dummy_vip ip"] AddrDel [OF assms(1), of "dummy_vip ip"] assms(2)
  by (auto simp: EnnIpvs_def AddDummyClusterIp_def DeleteDummyClusterIp_def dummy_vip_def split: if_splits)

end

sublocale ipvs_kernel \<subseteq> enn: ipvs_iface "EnnIpvs h" ok "\<lambda>w. proxy_table (vs w)" bound link
proof
  show "\<exists>as. i_ListDuumyClusterIp (EnnIpvs h) link w = Inr as \<and>
      (\<forall>a \<in> set as. is_v4 (ad_IP a)) \<and> (\<lambda>a. IP_String (ad_IP a)) ` set as = bound w" if "ok w" for w
    using AddrList [OF that] by (simp add: EnnIpvs_def ListDuumyClusterIp_def)
qed (fact iface_list_services iface_list_servers iface_add_service iface_del_service iface_add_server
    iface_del_server iface_flush iface_dummy_link iface_addr)+

end
