(* ===== verification/Proxier.thy ===== *)
theory Proxier
  imports Node_Utils Ipvs_Spec
begin

text \<open>
  src/pkg/proxy/ipvs/proxier.go: the state of the proxy and \<^verbatim>\<open>syncProxyRules\<close>, which programs
  IPVS, the dummy link and the local sockets from the service and endpoints maps.  The interfaces
  it calls are the fields of \<open>penv\<close>.  The mutex makes one sync atomic, so a sync is a function from
  state and world to state and world; \<open>None\<close> is a panic of a callee.
\<close>

section \<open>State\<close>

record Proxier =
  p_serviceChanges :: ServiceChangeItems
  p_endpointsChanges :: EndpointsChangeMap
  p_serviceMap :: ProxyServiceMap
  p_endpointsMap :: ProxyEndpointMap
  p_portsMap :: PortsMap
  p_kernelIpvsMap :: "(activeServiceKey, activeServiceValue list) gomap"
  p_kernelClusterMap :: "string list"
  p_endpointsSynced :: bool
  p_servicesSynced :: bool
  p_initialized :: int
  p_masqueradeAll :: bool
  p_clusterCIDR :: string
  p_hostname :: string
  p_nodeIP :: IP
  p_nodeIPs :: "IP list"
  p_scheduler :: string
  p_syncPeriod :: int
  p_minSyncPeriod :: int

record 'w penv =
  pe_ipvs :: "'w ipvs_Interface"
  pe_InterfaceAddrs :: "'w \<Rightarrow> go_error + string list"
  pe_OpenLocalPort :: "LocalPort \<Rightarrow> 'w \<Rightarrow> (go_error + socket) \<times> 'w"
  pe_Close :: "socket \<Rightarrow> 'w \<Rightarrow> 'w"
  pe_GetNodeIPs :: "'w ipvs_Interface \<Rightarrow> 'w \<Rightarrow> go_error + IP list"
  pe_exec :: "'w execer"
  pe_Eventf :: "string \<Rightarrow> string \<Rightarrow> 'w \<Rightarrow> 'w"
  pe_RoundRobin :: string

text \<open>
  What one sync accumulates: the world, the replacement ports, and the keys of
  \<^verbatim>\<open>activeServiceMap\<close> and \<^verbatim>\<open>activeBindIP\<close>.
\<close>

record 'w sync_state =
  sy_w :: 'w
  sy_ports :: PortsMap
  sy_active :: "activeServiceKey list"
  sy_bind :: "string list"

section \<open>Reading the kernel\<close>

definition ipvs_values :: "Server list \<Rightarrow> activeServiceValue list" where
  "ipvs_values dsts = map (\<lambda>d. \<lparr>av_ip = sv_Ip d, av_port = sv_Port d\<rparr>) dsts"

definition build_ipvs_entry ::
  "'w ipvs_Interface \<Rightarrow> 'w \<Rightarrow> lib_Service \<Rightarrow> (activeServiceKey, activeServiceValue list) gomap
   \<Rightarrow> (activeServiceKey, activeServiceValue list) gomap" where
  "build_ipvs_entry I w ipvsSvc ipvsMap =
     (case CreateInterService (Some ipvsSvc) of
        Inl err \<Rightarrow> ipvsMap
      | Inr t \<Rightarrow>
          (let serviceKey = \<lparr>ak_ip = IP_String (s_ClusterIP t), ak_port = s_Port t, ak_protocol = s_Protocol t\<rparr>
           in case i_ListIpvsServer I ipvsSvc w of
                Inl err \<Rightarrow> gm_put ipvsMap serviceKey []
              | Inr ipvsDsts \<Rightarrow> gm_put ipvsMap serviceKey (ipvs_values ipvsDsts)))"

definition BuildIpvsMap :: "'w ipvs_Interface \<Rightarrow> Proxier \<Rightarrow> 'w \<Rightarrow> Proxier" where
  "BuildIpvsMap I p w =
     (case i_ListIpvsService I w of
        Inl err \<Rightarrow> p\<lparr>p_kernelIpvsMap := []\<rparr>
      | Inr ipvsSvcs \<Rightarrow> p\<lparr>p_kernelIpvsMap := fold (build_ipvs_entry I w) ipvsSvcs []\<rparr>)"

text \<open>On an error the map keeps its old content.\<close>

definition BuildClusterMap :: "'w ipvs_Interface \<Rightarrow> Link \<Rightarrow> Proxier \<Rightarrow> 'w \<Rightarrow> Proxier" where
  "BuildClusterMap I dummylink p w =
     (case i_ListDuumyClusterIp I dummylink w of
        Inl err \<Rightarrow> p
      | Inr addrs \<Rightarrow> p\<lparr>p_kernelClusterMap := fold (\<lambda>addr. str_insert (IP_String (ad_IP addr))) addrs []\<rparr>)"

fun find_local :: "string \<Rightarrow> string list \<Rightarrow> go_error + bool" where
  "find_local ip [] = Inr False"
| "find_local ip (a # addrs) =
     (case ParseCIDR a of
        Inl err \<Rightarrow> Inl err
      | Inr intf \<Rightarrow> if IP_Equal (ParseIP ip) intf then Inr True else find_local ip addrs)"

definition isLocalIP :: "'w penv \<Rightarrow> string \<Rightarrow> 'w \<Rightarrow> go_error + bool" where
  "isLocalIP env ip w =
     (case pe_InterfaceAddrs env w of Inl err \<Rightarrow> Inl err | Inr addrs \<Rightarrow> find_local ip addrs)"

section \<open>Writing rules\<close>

definition ipvs_service :: "'w penv \<Rightarrow> IP \<Rightarrow> int \<Rightarrow> ServiceInfo \<Rightarrow> ipvs_Service" where
  "ipvs_service env ip port serviceInfo =
     \<lparr>s_ClusterIP = ip, s_Port = port, s_Protocol = si_Protocol serviceInfo,
      s_Scheduler = pe_RoundRobin env, s_SessionAffinity = si_SessionAffinity serviceInfo\<rparr>"

definition CreateServiceRule :: "'w ipvs_Interface \<Rightarrow> bool \<Rightarrow> ipvs_Service \<Rightarrow> 'w \<Rightarrow> (go_error option \<times> 'w) option" where
  "CreateServiceRule I hasCluster service w =
     (if \<not> hasCluster then i_AddIpvsService I service w else Some (None, w))"

definition ipvs_server :: "activeServiceValue \<Rightarrow> Server" where
  "ipvs_server e = \<lparr>sv_Ip = av_ip e, sv_Port = av_port e, sv_Weight = DEFAULWEIGHT\<rparr>"

text \<open>The two destination maps are sets of keys; both loops log errors and go on.\<close>

definition CreateEndpointRule ::
  "'w ipvs_Interface \<Rightarrow> Proxier \<Rightarrow> ipvs_Service \<Rightarrow> ServicePortName \<Rightarrow> activeServiceValue list \<Rightarrow> 'w \<Rightarrow> 'w" where
  "CreateEndpointRule I p service svcName KernelEndpoints w =
     (let oldDstMap = fold str_insert KernelEndpoints [];
          newDstMap = fold (\<lambda>newDst. str_insert \<lparr>av_ip = ei_Ip newDst, av_port = ei_Port newDst\<rparr>)
                        (gm_slice (p_endpointsMap p) svcName) [];
          w1 = fold (\<lambda>e w. if e \<in> set oldDstMap then w
                        else snd (i_AddIpvsServer I service (ipvs_server e) w)) newDstMap w
      in fold (\<lambda>e w. if e \<in> set newDstMap then w
                   else snd (i_DeleteIpvsServer I service (ipvs_server e) w)) oldDstMap w1)"

definition check_unused_service ::
  "'w ipvs_Interface \<Rightarrow> activeServiceKey list \<Rightarrow> lib_Service \<Rightarrow> 'w \<Rightarrow> 'w" where
  "check_unused_service I activeServiceMap oldSvc w =
     (case CreateInterService (Some oldSvc) of
        Inl err \<Rightarrow> w
      | Inr t \<Rightarrow>
          (let serviceKey = \<lparr>ak_ip = IP_String (s_ClusterIP t), ak_port = s_Port t, ak_protocol = s_Protocol t\<rparr>
           in if serviceKey \<in> set activeServiceMap then w else snd (i_DeleteIpvsService I t w)))"

text \<open>
  The test after the second listing looks at the error of the first one, so a failed listing of
  the bound addresses is the empty list.
\<close>

definition CheckUnusedRule ::
  "'w ipvs_Interface \<Rightarrow> activeServiceKey list \<Rightarrow> string list \<Rightarrow> Link \<Rightarrow> 'w \<Rightarrow> 'w" where
  "CheckUnusedRule I activeServiceMap activeBindIP dummylink w =
     (case i_ListIpvsService I w of
        Inl err \<Rightarrow> w
      | Inr oldSvcs \<Rightarrow>
          (let w1 = fold (check_unused_service I activeServiceMap) oldSvcs w;
               oldBindIPs = (case i_ListDuumyClusterIp I dummylink w1 of Inl err \<Rightarrow> [] | Inr as \<Rightarrow> as)
           in fold (\<lambda>oldBindIP w.
                if IP_String (ad_IP oldBindIP) \<in> set activeBindIP then w
                else snd (i_DeleteDummyClusterIp I (ad_IP oldBindIP) dummylink w)) oldBindIPs w1))"

section \<open>Holding local ports\<close>

text \<open>A held port is kept; otherwise it is opened.  The result says whether the port is held.\<close>

definition external_port :: "ServicePortName \<Rightarrow> ServiceInfo \<Rightarrow> string \<Rightarrow> LocalPort" where
  "external_port svcName serviceInfo externalIP =
     \<lparr>lp_Desc = ''externalIP for '' @ NamespacedName_String (spn_NamespacedName svcName), lp_Ip = externalIP,
      lp_Port = si_Port serviceInfo, lp_Protocol = ToLower (si_Protocol serviceInfo)\<rparr>"

definition node_port :: "ServicePortName \<Rightarrow> ServiceInfo \<Rightarrow> LocalPort" where
  "node_port svcName serviceInfo =
     \<lparr>lp_Desc = ''nodePort for '' @ NamespacedName_String (spn_NamespacedName svcName), lp_Ip = '''',
      lp_Port = si_NodePort serviceInfo, lp_Protocol = ToLower (si_Protocol serviceInfo)\<rparr>"

definition hold_external ::
  "'w penv \<Rightarrow> Proxier \<Rightarrow> ServicePortName \<Rightarrow> ServiceInfo \<Rightarrow> string \<Rightarrow> 'w sync_state \<Rightarrow> bool \<times> 'w sync_state" where
  "hold_external env p svcName serviceInfo externalIP st =
     (case isLocalIP env externalIP (sy_w st) of
        Inl err \<Rightarrow> (True, st)
      | Inr False \<Rightarrow> (True, st)
      | Inr True \<Rightarrow>
          (let lp = external_port svcName serviceInfo externalIP in
           case gm_get (p_portsMap p) lp of
             Some s \<Rightarrow> (True, st\<lparr>sy_ports := gm_put (sy_ports st) lp s\<rparr>)
           | None \<Rightarrow>
               (case pe_OpenLocalPort env lp (sy_w st) of
                  (Inl err, w1) \<Rightarrow>
                    (False, st\<lparr>sy_w := pe_Eventf env err
                       (''can't open '' @ LocalPort_String lp @ '', skipping this externalIP: '' @ err) w1\<rparr>)
                | (Inr s, w1) \<Rightarrow> (True, st\<lparr>sy_w := w1, sy_ports := gm_put (sy_ports st) lp s\<rparr>))))"

definition hold_nodeport ::
  "'w penv \<Rightarrow> Proxier \<Rightarrow> ServicePortName \<Rightarrow> ServiceInfo \<Rightarrow> 'w sync_state \<Rightarrow> bool \<times> 'w sync_state" where
  "hold_nodeport env p svcName serviceInfo st =
     (let lp = node_port svcName serviceInfo in
      case gm_get (p_portsMap p) lp of
        Some s \<Rightarrow> (True, st\<lparr>sy_ports := gm_put (sy_ports st) lp s\<rparr>)
      | None \<Rightarrow>
          (case pe_OpenLocalPort env lp (sy_w st) of
             (Inl err, w1) \<Rightarrow> (False, st\<lparr>sy_w := w1\<rparr>)
           | (Inr s, w1) \<Rightarrow>
               (let w2 = (if lp_Protocol lp = ''udp''
                          then ClearUdpConntrackForPort (pe_exec env) (lp_Port lp) w1 else w1)
                in (True, st\<lparr>sy_w := w2, sy_ports := gm_put (sy_ports st) lp s\<rparr>))))"

section \<open>The whole-rules sync\<close>

text \<open>Programming one virtual address of a service port: the three copies of this code agree.\<close>

definition sync_vip ::
  "'w penv \<Rightarrow> Proxier \<Rightarrow> ServicePortName \<Rightarrow> ipvs_Service \<Rightarrow> 'w sync_state \<Rightarrow> 'w sync_state option" where
  "sync_vip env p svcName service st =
     (let key = \<lparr>ak_ip = IP_String (s_ClusterIP service), ak_port = s_Port service,
                 ak_protocol = s_Protocol service\<rparr>;
          st1 = st\<lparr>sy_active := str_insert key (sy_active st)\<rparr>;
          hasCluster = gm_has (p_kernelIpvsMap p) key;
          KernelEndpoints = gm_slice (p_kernelIpvsMap p) key
      in case CreateServiceRule (pe_ipvs env) hasCluster service (sy_w st1) of
           None \<Rightarrow> None
         | Some (Some err, w1) \<Rightarrow> Some (st1\<lparr>sy_w := w1\<rparr>)
         | Some (None, w1) \<Rightarrow>
             Some (st1\<lparr>sy_w := CreateEndpointRule (pe_ipvs env) p service svcName KernelEndpoints w1\<rparr>))"

definition sync_external ::
  "'w penv \<Rightarrow> Proxier \<Rightarrow> ServicePortName \<Rightarrow> ServiceInfo \<Rightarrow> string \<Rightarrow> 'w sync_state \<Rightarrow> 'w sync_state option" where
  "sync_external env p svcName serviceInfo externalIP st =
     (case hold_external env p svcName serviceInfo externalIP st of
        (False, st1) \<Rightarrow> Some st1
      | (True, st1) \<Rightarrow>
          sync_vip env p svcName (ipvs_service env (ParseIP externalIP) (si_Port serviceInfo) serviceInfo) st1)"

definition sync_nodeport ::
  "'w penv \<Rightarrow> Proxier \<Rightarrow> ServicePortName \<Rightarrow> ServiceInfo \<Rightarrow> 'w sync_state \<Rightarrow> 'w sync_state option" where
  "sync_nodeport env p svcName serviceInfo st =
     (if si_NodePort serviceInfo \<noteq> 0 then
        (case hold_nodeport env p svcName serviceInfo st of
           (False, st1) \<Rightarrow> Some st1
         | (True, st1) \<Rightarrow>
             foldM (\<lambda>nodeIP. sync_vip env p svcName
                      (ipvs_service env nodeIP (si_NodePort serviceInfo) serviceInfo)) (p_nodeIPs p) st1)
      else Some st)"

definition bind_cluster_ip ::
  "'w penv \<Rightarrow> Proxier \<Rightarrow> Link \<Rightarrow> ServiceInfo \<Rightarrow> 'w sync_state \<Rightarrow> bool \<times> 'w sync_state" where
  "bind_cluster_ip env p dummylink serviceInfo st =
     (let ip = si_ClusterIP serviceInfo in
      if IP_String ip \<in> set (p_kernelClusterMap p)
      then (True, st\<lparr>sy_bind := str_insert (IP_String ip) (sy_bind st)\<rparr>)
      else (case i_AddDummyClusterIp (pe_ipvs env) ip dummylink (sy_w st) of
              (Some err, w1) \<Rightarrow> (False, st\<lparr>sy_w := w1\<rparr>)
            | (None, w1) \<Rightarrow> (True, st\<lparr>sy_w := w1, sy_bind := str_insert (IP_String ip) (sy_bind st)\<rparr>)))"

definition sync_service ::
  "'w penv \<Rightarrow> Proxier \<Rightarrow> Link \<Rightarrow> ServicePortName \<times> ServiceInfo \<Rightarrow> 'w sync_state \<Rightarrow> 'w sync_state option" where
  "sync_service env p dummylink entry st =
     (let (svcName, serviceInfo) = entry in
      case bind_cluster_ip env p dummylink serviceInfo st of
        (False, st1) \<Rightarrow> Some st1
      | (True, st1) \<Rightarrow>
          do {
            st2 \<leftarrow> sync_vip env p svcName
                     (ipvs_service env (si_ClusterIP serviceInfo) (si_Port serviceInfo) serviceInfo) st1;
            st3 \<leftarrow> foldM (sync_external env p svcName serviceInfo) (si_ExternalIPs serviceInfo) st2;
            sync_nodeport env p svcName serviceInfo st3
          })"

definition sync_whole_rules :: "'w penv \<Rightarrow> Proxier \<Rightarrow> Link \<Rightarrow> 'w sync_state \<Rightarrow> 'w sync_state option" where
  "sync_whole_rules env p dummylink st =
     (case foldM (sync_service env p dummylink) (p_serviceMap p) st of
        None \<Rightarrow> None
      | Some st1 \<Rightarrow>
          Some (st1\<lparr>sy_w := CheckUnusedRule (pe_ipvs env) (sy_active st1) (sy_bind st1) dummylink (sy_w st1)\<rparr>))"

section \<open>The incremental sync\<close>

definition deleteIpvsService :: "'w penv \<Rightarrow> IP \<Rightarrow> int \<Rightarrow> ServiceInfo \<Rightarrow> 'w \<Rightarrow> 'w" where
  "deleteIpvsService env ClusterIP Port serviceInfo w =
     snd (i_DeleteIpvsService (pe_ipvs env) (ipvs_service env ClusterIP Port serviceInfo) w)"

definition delete_previous :: "'w penv \<Rightarrow> Proxier \<Rightarrow> ServiceInfo \<Rightarrow> 'w \<Rightarrow> 'w" where
  "delete_previous env p serviceInfo w =
     (let w1 = deleteIpvsService env (si_ClusterIP serviceInfo) (si_Port serviceInfo) serviceInfo w;
          w2 = fold (\<lambda>externalIP. deleteIpvsService env (ParseIP externalIP) (si_Port serviceInfo) serviceInfo)
                 (si_ExternalIPs serviceInfo) w1
      in if si_NodePort serviceInfo \<noteq> 0
         then fold (\<lambda>nodeIP. deleteIpvsService env nodeIP (si_NodePort serviceInfo) serviceInfo) (p_nodeIPs p) w2
         else w2)"

text \<open>The error of \<^verbatim>\<open>CreateServiceRule\<close> is only logged here.\<close>

definition create_service :: "'w penv \<Rightarrow> ipvs_Service \<Rightarrow> 'w sync_state \<Rightarrow> 'w sync_state option" where
  "create_service env service st =
     (case CreateServiceRule (pe_ipvs env) False service (sy_w st) of
        None \<Rightarrow> None
      | Some (err, w1) \<Rightarrow> Some (st\<lparr>sy_w := w1\<rparr>))"

definition add_external ::
  "'w penv \<Rightarrow> Proxier \<Rightarrow> ServicePortName \<Rightarrow> ServiceInfo \<Rightarrow> string \<Rightarrow> 'w sync_state \<Rightarrow> 'w sync_state option" where
  "add_external env p svcName serviceInfo externalIP st =
     (case hold_external env p svcName serviceInfo externalIP st of
        (False, st1) \<Rightarrow> Some st1
      | (True, st1) \<Rightarrow>
          create_service env (ipvs_service env (ParseIP externalIP) (si_Port serviceInfo) serviceInfo) st1)"

definition add_nodeport ::
  "'w penv \<Rightarrow> Proxier \<Rightarrow> ServicePortName \<Rightarrow> ServiceInfo \<Rightarrow> 'w sync_state \<Rightarrow> 'w sync_state option" where
  "add_nodeport env p svcName serviceInfo st =
     (if si_NodePort serviceInfo \<noteq> 0 then
        (case hold_nodeport env p svcName serviceInfo st of
           (False, st1) \<Rightarrow> Some st1
         | (True, st1) \<Rightarrow>
             foldM (\<lambda>nodeIP. create_service env
                      (ipvs_service env nodeIP (si_NodePort serviceInfo) serviceInfo)) (p_nodeIPs p) st1)
      else Some st)"

definition add_current ::
  "'w penv \<Rightarrow> Proxier \<Rightarrow> Link \<Rightarrow> ServicePortName \<times> ServiceInfo \<Rightarrow> 'w sync_state \<Rightarrow> 'w sync_state option" where
  "add_current env p dummylink entry st =
     (let (svcName, serviceInfo) = entry in
      case i_AddDummyClusterIp (pe_ipvs env) (si_ClusterIP serviceInfo) dummylink (sy_w st) of
        (Some err, w1) \<Rightarrow> Some (st\<lparr>sy_w := w1\<rparr>)
      | (None, w1) \<Rightarrow>
          do {
            st2 \<leftarrow> create_service env
                     (ipvs_service env (si_ClusterIP serviceInfo) (si_Port serviceInfo) serviceInfo)
                     (st\<lparr>sy_w := w1, sy_bind := str_insert (IP_String (si_ClusterIP serviceInfo)) (sy_bind st)\<rparr>);
            st3 \<leftarrow> foldM (add_external env p svcName serviceInfo) (si_ExternalIPs serviceInfo) st2;
            add_nodeport env p svcName serviceInfo st3
          })"

definition sync_service_change ::
  "'w penv \<Rightarrow> Proxier \<Rightarrow> Link \<Rightarrow> ServiceChange \<Rightarrow> 'w sync_state \<Rightarrow> 'w sync_state option" where
  "sync_service_change env p dummylink change st =
     foldM (add_current env p dummylink) (range_map (sc_Current change))
       (st\<lparr>sy_w := fold (\<lambda>(_, serviceInfo). delete_previous env p serviceInfo)
                      (range_map (sc_Previous change)) (sy_w st)\<rparr>)"

definition syncEndpointChange ::
  "'w penv \<Rightarrow> Proxier \<Rightarrow> IP \<Rightarrow> int \<Rightarrow> ServiceInfo \<Rightarrow> ServicePortName \<Rightarrow> 'w \<Rightarrow> 'w" where
  "syncEndpointChange env p ClusterIP Port serviceInfo svcName w =
     (let service = ipvs_service env ClusterIP Port serviceInfo;
          clusterKey = \<lparr>ak_ip = IP_String (s_ClusterIP service), ak_port = s_Port service,
                        ak_protocol = s_Protocol service\<rparr>
      in CreateEndpointRule (pe_ipvs env) p service svcName (gm_slice (p_kernelIpvsMap p) clusterKey) w)"

definition sync_endpoints_of :: "'w penv \<Rightarrow> Proxier \<Rightarrow> ServicePortName \<Rightarrow> 'w \<Rightarrow> 'w" where
  "sync_endpoints_of env p svcName w =
     (case gm_get (p_serviceMap p) svcName of
        None \<Rightarrow> w
      | Some serviceInfo \<Rightarrow>
          (let w1 = syncEndpointChange env p (si_ClusterIP serviceInfo) (si_Port serviceInfo) serviceInfo svcName w;
               w2 = fold (\<lambda>externalIP. syncEndpointChange env p (ParseIP externalIP) (si_Port serviceInfo)
                            serviceInfo svcName) (si_ExternalIPs serviceInfo) w1
           in if si_NodePort serviceInfo \<noteq> 0
              then fold (\<lambda>nodeIP. syncEndpointChange env p nodeIP (si_NodePort serviceInfo) serviceInfo svcName)
                     (p_nodeIPs p) w2
              else w2))"

definition sync_endpoints_change :: "'w penv \<Rightarrow> Proxier \<Rightarrow> EndpointsChange \<Rightarrow> 'w \<Rightarrow> 'w" where
  "sync_endpoints_change env p change w =
     (let w1 = fold (\<lambda>(svcName, _) w.
                  if gm_has (range_map (ec_Current change)) svcName then w
                  else sync_endpoints_of env p svcName w) (range_map (ec_Previous change)) w
      in fold (\<lambda>(svcName, _). sync_endpoints_of env p svcName) (range_map (ec_Current change)) w1)"

section \<open>Housekeeping and the sync as a whole\<close>

definition close_ports :: "'w penv \<Rightarrow> PortsMap \<Rightarrow> PortsMap \<Rightarrow> 'w \<Rightarrow> 'w" where
  "close_ports env replacementPortsMap portsMap w =
     fold (\<lambda>(k, v) w. if gm_has replacementPortsMap k then w else pe_Close env v w) portsMap w"

definition deleteEndpointConnections :: "'w penv \<Rightarrow> Proxier \<Rightarrow> EndpointServicePair list \<Rightarrow> 'w \<Rightarrow> 'w" where
  "deleteEndpointConnections env p connectionMap w =
     fold (\<lambda>epSvcPair w.
         case gm_get (p_serviceMap p) (esp_ServicePortName epSvcPair) of
           None \<Rightarrow> w
         | Some svcInfo \<Rightarrow>
             if si_Protocol svcInfo = ToLower ProtocolUDP
             then snd (ClearUDPConntrackForPeers (pe_exec env) (IP_String (si_ClusterIP svcInfo))
                         (IPPart (esp_Endpoint epSvcPair)) w)
             else w)
       connectionMap w"

definition merge_stale :: "ProxyServiceMap \<Rightarrow> ServicePortName list \<Rightarrow> string list \<Rightarrow> string list" where
  "merge_stale serviceMap staleServiceNames staleServices =
     fold (\<lambda>svcPortName st.
         case gm_get serviceMap svcPortName of
           None \<Rightarrow> st
         | Some svcInfo \<Rightarrow>
             if si_Protocol svcInfo = ToLower ProtocolUDP
             then str_insert (IP_String (si_ClusterIP svcInfo)) st else st)
       staleServiceNames staleServices"

text \<open>What follows the rules: old ports, new ports, connection tracking.\<close>

definition finish_sync ::
  "'w penv \<Rightarrow> string list \<Rightarrow> EndpointServicePair list \<Rightarrow> Proxier \<Rightarrow> 'w sync_state \<Rightarrow> Proxier \<times> 'w" where
  "finish_sync env staleServices staleEndpoints p st =
     (let w1 = close_ports env (sy_ports st) (p_portsMap p) (sy_w st);
          p1 = p\<lparr>p_portsMap := sy_ports st\<rparr>;
          w2 = fold (\<lambda>svcIP w. snd (ClearUDPConntrackForIP (pe_exec env) svcIP w)) staleServices w1
      in (p1, deleteEndpointConnections env p1 staleEndpoints w2))"

text \<open>The three phases, each guarded by the items that are pending when it is reached.\<close>

definition sync_phases :: "'w penv \<Rightarrow> Link \<Rightarrow> Proxier \<Rightarrow> 'w \<Rightarrow> (Proxier \<times> 'w sync_state) option" where
  "sync_phases env dummylink p w =
     (let st0 = \<lparr>sy_w = w, sy_ports = [], sy_active = [], sy_bind = []\<rparr> in
      do {
        st1 \<leftarrow> (if length (p_serviceChanges p) = 0 \<and> length (ecm_Items (p_endpointsChanges p)) = 0
               then sync_whole_rules env p dummylink st0 else Some st0);
        (p2, st2) \<leftarrow> (if length (p_serviceChanges p) > 0
               then do {
                 st \<leftarrow> foldM (\<lambda>(_, change). sync_service_change env p dummylink change) (p_serviceChanges p) st1;
                 Some (p\<lparr>p_serviceChanges := []\<rparr>, st)
               }
               else Some (p, st1));
        Some (if length (ecm_Items (p_endpointsChanges p2)) > 0
              then (p2\<lparr>p_endpointsChanges := (p_endpointsChanges p2)\<lparr>ecm_Items := []\<rparr>\<rparr>,
                    st2\<lparr>sy_w := fold (\<lambda>(_, change). sync_endpoints_change env p2 change)
                                   (ecm_Items (p_endpointsChanges p2)) (sy_w st2)\<rparr>)
              else (p2, st2))
      })"

definition syncProxyRules :: "'w penv \<Rightarrow> Proxier \<Rightarrow> 'w \<Rightarrow> (Proxier \<times> 'w) option" where
  "syncProxyRules env p w =
     (if \<not> p_endpointsSynced p \<or> \<not> p_servicesSynced p then Some (p, w)
      else
        (let (serviceMap, serviceUpdateResult) = UpdateServiceMap (p_serviceMap p) (p_serviceChanges p);
             (endpointsMap, endpointUpdateResult) =
               UpdateEndpointsMap (p_endpointsMap p) (ecm_Items (p_endpointsChanges p));
             p1 = p\<lparr>p_serviceMap := serviceMap, p_endpointsMap := endpointsMap\<rparr>;
             staleServices = merge_stale serviceMap (ue_StaleServiceNames endpointUpdateResult)
               (us_StaleServices serviceUpdateResult)
         in case i_GetDummyLink (pe_ipvs env) w of
              None \<Rightarrow> None
            | Some (Inl err, w1) \<Rightarrow> Some (p1, w1)
            | Some (Inr dummylink, w1) \<Rightarrow>
                (let p2 = BuildClusterMap (pe_ipvs env) dummylink (BuildIpvsMap (pe_ipvs env) p1 w1) w1;
                     p3 = p2\<lparr>p_nodeIPs := (case pe_GetNodeIPs env (pe_ipvs env) w1 of
                                Inl err \<Rightarrow> [] | Inr ips \<Rightarrow> ips)\<rparr>
                 in do {
                      (p4, st) \<leftarrow> sync_phases env dummylink p3 w1;
                      Some (finish_sync env staleServices (ue_StaleEndpoints endpointUpdateResult) p4 st)
                    })))"

section \<open>Event handlers\<close>

definition setInitialized :: "bool \<Rightarrow> Proxier \<Rightarrow> Proxier" where
  "setInitialized value p = p\<lparr>p_initialized := (if value then 1 else 0)\<rparr>"

definition isInitialized :: "Proxier \<Rightarrow> bool" where
  "isInitialized p \<longleftrightarrow> p_initialized p > 0"

text \<open>The common part of the six object handlers: record the change, then sync if initialized.\<close>

definition service_event ::
  "'w penv \<Rightarrow> NamespacedName \<Rightarrow> api_Service option \<Rightarrow> api_Service option \<Rightarrow> Proxier \<Rightarrow> 'w
   \<Rightarrow> (Proxier \<times> 'w) option" where
  "service_event env namespacedName previous current p w =
     (let (items, changed) = ServiceChangeMap_Update (p_serviceChanges p) namespacedName previous current;
          p1 = p\<lparr>p_serviceChanges := items\<rparr>
      in if changed \<and> isInitialized p1 then syncProxyRules env p1 w else Some (p1, w))"

definition endpoints_event ::
  "'w penv \<Rightarrow> NamespacedName \<Rightarrow> api_Endpoints option \<Rightarrow> api_Endpoints option \<Rightarrow> Proxier \<Rightarrow> 'w
   \<Rightarrow> (Proxier \<times> 'w) option" where
  "endpoints_event env namespacedName previous current p w =
     (let (ecm, changed) = EndpointsChangeMap_Update (p_endpointsChanges p) namespacedName previous current;
          p1 = p\<lparr>p_endpointsChanges := ecm\<rparr>
      in if changed \<and> isInitialized p1 then syncProxyRules env p1 w else Some (p1, w))"

definition OnServiceAdd :: "'w penv \<Rightarrow> api_Service \<Rightarrow> Proxier \<Rightarrow> 'w \<Rightarrow> (Proxier \<times> 'w) option" where
  "OnServiceAdd env service = service_event env (service_nsn service) None (Some service)"

definition OnServiceUpdate :: "'w penv \<Rightarrow> api_Service \<Rightarrow> api_Service \<Rightarrow> Proxier \<Rightarrow> 'w \<Rightarrow> (Proxier \<times> 'w) option" where
  "OnServiceUpdate env oldService service =
     service_event env (service_nsn service) (Some oldService) (Some service)"

definition OnServiceDelete :: "'w penv \<Rightarrow> api_Service \<Rightarrow> Proxier \<Rightarrow> 'w \<Rightarrow> (Proxier \<times> 'w) option" where
  "OnServiceDelete env service = service_event env (service_nsn service) (Some service) None"

definition OnServiceSynced :: "'w penv \<Rightarrow> Proxier \<Rightarrow> 'w \<Rightarrow> (Proxier \<times> 'w) option" where
  "OnServiceSynced env p w =
     (let p1 = p\<lparr>p_servicesSynced := True\<rparr>
      in syncProxyRules env (setInitialized (p_servicesSynced p1 \<and> p_endpointsSynced p1) p1) w)"

definition OnEndpointsAdd :: "'w penv \<Rightarrow> api_Endpoints \<Rightarrow> Proxier \<Rightarrow> 'w \<Rightarrow> (Proxier \<times> 'w) option" where
  "OnEndpointsAdd env endpoints = endpoints_event env (endpoints_nsn endpoints) None (Some endpoints)"

definition OnEndpointsUpdate ::
  "'w penv \<Rightarrow> api_Endpoints \<Rightarrow> api_Endpoints \<Rightarrow> Proxier \<Rightarrow> 'w \<Rightarrow> (Proxier \<times> 'w) option" where
  "OnEndpointsUpdate env oldEndpoints endpoints =
     endpoints_event env (endpoints_nsn endpoints) (Some oldEndpoints) (Some endpoints)"

definition OnEndpointsDelete :: "'w penv \<Rightarrow> api_Endpoints \<Rightarrow> Proxier \<Rightarrow> 'w \<Rightarrow> (Proxier \<times> 'w) option" where
  "OnEndpointsDelete env endpoints = endpoints_event env (endpoints_nsn endpoints) (Some endpoints) None"

definition OnEndpointsSynced :: "'w penv \<Rightarrow> Proxier \<Rightarrow> 'w \<Rightarrow> (Proxier \<times> 'w) option" where
  "OnEndpointsSynced env p w = syncProxyRules env (p\<lparr>p_endpointsSynced := True\<rparr>) w"

end
