(* ===== verification/Ref_Kernel.thy ===== *)
theory Ref_Kernel
  imports Ipvs_Spec
begin

text \<open>
  A reference kernel that obeys the laws of \<open>ipvs_kernel\<close>: an association list of virtual services
  and a list of bound addresses.  It is not part of the program; it shows that the laws are
  consistent and lets the theorems that assume them be applied to concrete inputs.
\<close>

record kworld =
  kw_svcs :: "(string \<times> 16 word \<times> 16 word, lib_Service \<times> lib_Destination list) gomap"
  kw_addrs :: "IP list"
  kw_link :: bool

definition ref_link :: Link where "ref_link = \<lparr>lk_Name = ENN_DUMMY, lk_Index = 7\<rparr>"

definition ref_NewService :: "lib_Service \<Rightarrow> kworld \<Rightarrow> go_error option \<times> kworld" where
  "ref_NewService s w =
     (if gm_has (kw_svcs w) (lib_key s) then (Some ''file exists'', w)
      else (None, w\<lparr>kw_svcs := gm_put (kw_svcs w) (lib_key s) (s, [])\<rparr>))"

definition ref_DelService :: "lib_Service \<Rightarrow> kworld \<Rightarrow> go_error option \<times> kworld" where
  "ref_DelService s w =
     (if gm_has (kw_svcs w) (lib_key s) then (None, w\<lparr>kw_svcs := gm_del (kw_svcs w) (lib_key s)\<rparr>)
      else (Some ''no such process'', w))"

definition ref_NewDestination :: "lib_Service \<Rightarrow> lib_Destination \<Rightarrow> kworld \<Rightarrow> go_error option \<times> kworld" where
  "ref_NewDestination s d w =
     (case gm_get (kw_svcs w) (lib_key s) of
        None \<Rightarrow> (Some ''no such process'', w)
      | Some (s0, ds) \<Rightarrow>
          if lib_val d \<in> lib_val ` set ds then (Some ''file exists'', w)
          else (None, w\<lparr>kw_svcs := gm_put (kw_svcs w) (lib_key s) (s0, ds @ [d])\<rparr>))"

definition ref_DelDestination :: "lib_Service \<Rightarrow> lib_Destination \<Rightarrow> kworld \<Rightarrow> go_error option \<times> kworld" where
  "ref_DelDestination s d w =
     (case gm_get (kw_svcs w) (lib_key s) of
        None \<Rightarrow> (Some ''no such process'', w)
      | Some (s0, ds) \<Rightarrow>
          if lib_val d \<in> lib_val ` set ds
          then (None, w\<lparr>kw_svcs := gm_put (kw_svcs w) (lib_key s) (s0, filter (\<lambda>x. lib_val x \<noteq> lib_val d) ds)\<rparr>)
          else (Some ''no such file or directory'', w))"

definition ref_AddrAdd :: "Link \<Rightarrow> Addr \<Rightarrow> kworld \<Rightarrow> go_error option \<times> kworld" where
  "ref_AddrAdd l a w =
     (if IP_String (ad_IP a) \<in> IP_String ` set (kw_addrs w) then (Some IFACE_HAS_ADDR, w)
      else (None, w\<lparr>kw_addrs := kw_addrs w @ [ad_IP a]\<rparr>))"

definition ref_AddrDel :: "Link \<Rightarrow> Addr \<Rightarrow> kworld \<Rightarrow> go_error option \<times> kworld" where
  "ref_AddrDel l a w =
     (if IP_String (ad_IP a) \<in> IP_String ` set (kw_addrs w)
      then (None, w\<lparr>kw_addrs := filter (\<lambda>ip. IP_String ip \<noteq> IP_String (ad_IP a)) (kw_addrs w)\<rparr>)
      else (Some ''cannot assign requested address'', w))"

definition ref_libnet :: "kworld libnet" where
  "ref_libnet =
     \<lparr>h_GetService = (\<lambda>s w. case gm_get (kw_svcs w) (lib_key s) of
         None \<Rightarrow> Inl ''no such process'' | Some (s0, _) \<Rightarrow> Inr s0),
      h_GetServices = (\<lambda>w. Inr (map (\<lambda>(_, s, _). s) (kw_svcs w))),
      h_GetDestinations = (\<lambda>s w. case gm_get (kw_svcs w) (lib_key s) of
         None \<Rightarrow> Inl ''no such process'' | Some (_, ds) \<Rightarrow> Inr ds),
      h_NewService = ref_NewService, h_DelService = ref_DelService,
      h_NewDestination = ref_NewDestination, h_DelDestination = ref_DelDestination,
      nl_LinkByName = (\<lambda>n w. if n = ENN_DUMMY \<and> kw_link w then Inr ref_link else Inl IFACE_NOT_FOUND),
      nl_LinkAdd = (\<lambda>n w. if kw_link w then (Some ''file exists'', w) else (None, w\<lparr>kw_link := True\<rparr>)),
      nl_LinkSetUp = (\<lambda>l w. (None, w)),
      nl_LinkDel = (\<lambda>l w. (None, w\<lparr>kw_link := False, kw_addrs := []\<rparr>)),
      nl_AddrAdd = ref_AddrAdd, nl_AddrDel = ref_AddrDel,
      nl_AddrList = (\<lambda>l f w. Inr (map dummy_vip (kw_addrs w))),
      nl_RouteListFiltered = (\<lambda>f r m w. Inr [r\<lparr>rt_Src := [192, 168, 1, 5]\<rparr>])\<rparr>"

definition ref_entry_ok :: "(string \<times> 16 word \<times> 16 word) \<times> lib_Service \<times> lib_Destination list \<Rightarrow> bool" where
  "ref_entry_ok e = (case e of (k, s, ds) \<Rightarrow> k = lib_key s \<and> lib_ok s \<and> list_all (\<lambda>d. is_v4 (ld_Address d)) ds)"

definition ref_ok :: "kworld \<Rightarrow> bool" where
  "ref_ok w \<longleftrightarrow> wf_gomap (kw_svcs w) \<and> list_all ref_entry_ok (kw_svcs w) \<and> list_all is_v4 (kw_addrs w)"

definition ref_vs :: "kworld \<Rightarrow> kernel_table" where
  "ref_vs w k = map_option (\<lambda>(_, ds). lib_val ` set ds) (gm_get (kw_svcs w) k)"

definition ref_bound :: "kworld \<Rightarrow> string set" where
  "ref_bound w = IP_String ` set (kw_addrs w)"

lemma ref_entries_put:
  "list_all ref_entry_ok m \<Longrightarrow> ref_entry_ok (k, v) \<Longrightarrow> list_all ref_entry_ok (gm_put m k v)"
  by (induction m) auto

lemma ref_entries_del: "list_all ref_entry_ok m \<Longrightarrow> list_all ref_entry_ok (gm_del m k)"
  by (auto simp: list_all_iff AList.delete_eq)

lemma ref_entry: "ref_ok w \<Longrightarrow> gm_get (kw_svcs w) k = Some (s, ds) \<Longrightarrow>
    k = lib_key s \<and> lib_ok s \<and> list_all (\<lambda>d. is_v4 (ld_Address d)) ds"
  by (drule map_of_SomeD) (auto simp: ref_ok_def list_all_iff ref_entry_ok_def)

lemma ref_listing:
  assumes "ref_ok w"
  shows "list_all lib_ok (map (\<lambda>(_, s, _). s) (kw_svcs w))"
    and "map lib_key (map (\<lambda>(_, s, _). s) (kw_svcs w)) = map fst (kw_svcs w)"
  using assms by (auto simp: ref_ok_def list_all_iff ref_entry_ok_def)

lemma ref_dom: "dom (ref_vs w) = fst ` set (kw_svcs w)"
  by (auto simp: ref_vs_def dom_def dom_map_of_conv_image_fst [symmetric])

lemma dummy_vip_IP [simp]: "ad_IP (dummy_vip ip) = ip"
  by (simp add: dummy_vip_def)

lemma ref_GetServices:
  assumes w: "ref_ok w"
  shows "\<exists>svcs. h_GetServices ref_libnet w = Inr svcs \<and> list_all lib_ok svcs \<and>
    distinct (map lib_key svcs) \<and> lib_key ` set svcs = dom (ref_vs w)"
proof -
  have "lib_key ` set (map (\<lambda>(_, s, _). s) (kw_svcs w)) = fst ` set (kw_svcs w)"
    using arg_cong [OF ref_listing(2) [OF w], of set] by (simp add: image_image)
  with ref_listing [OF w] w show ?thesis
    by (auto simp: ref_libnet_def ref_dom ref_ok_def wf_gomap_def simp del: map_map)
qed

lemma ref_NewDestination_adds:
  assumes w: "ref_ok w" and "is_v4 (ld_Address d)" and "ref_vs w (lib_key s) = Some D"
  shows "\<exists>e w'. h_NewDestination ref_libnet s d w = (e, w') \<and> ref_ok w' \<and> ref_bound w' = ref_bound w \<and>
    ref_vs w' = (ref_vs w)(lib_key s \<mapsto> insert (lib_val d) D) \<and>
    (if lib_val d \<in> D then \<exists>m. e = Some m \<and> Contains m IPVS_SERVER_EXISTS else e = None)"
proof -
  from assms(3) obtain s0 ds where g: "gm_get (kw_svcs w) (lib_key s) = Some (s0, ds)" "D = lib_val ` set ds"
    by (auto simp: ref_vs_def)
  have "Contains ''file exists'' IPVS_SERVER_EXISTS" by (simp add: IPVS_SERVER_EXISTS_def HasPrefix_def)
  with g ref_entry [OF w g(1)] assms(1,2) show ?thesis
    by (auto simp: ref_libnet_def ref_NewDestination_def ref_ok_def ref_bound_def ref_vs_def fun_eq_iff
        insert_absorb ref_entry_ok_def intro!: ref_entries_put)
qed

lemma ref_DelDestination_removes:
  assumes w: "ref_ok w"
  shows "\<exists>e w'. h_DelDestination ref_libnet s d w = (e, w') \<and> ref_ok w' \<and> ref_bound w' = ref_bound w \<and>
    ref_vs w' = (ref_vs w)(lib_key s := map_option (\<lambda>D. D - {lib_val d}) (ref_vs w (lib_key s))) \<and>
    (e = None \<longleftrightarrow> (\<exists>D. ref_vs w (lib_key s) = Some D \<and> lib_val d \<in> D))"
proof (cases "\<exists>s0 ds. gm_get (kw_svcs w) (lib_key s) = Some (s0, ds) \<and> lib_val d \<in> lib_val ` set ds")
  case True
  then obtain s0 ds where g: "gm_get (kw_svcs w) (lib_key s) = Some (s0, ds)" "lib_val d \<in> lib_val ` set ds" by blast
  have "lib_val ` {x \<in> set ds. lib_val x \<noteq> lib_val d} = lib_val ` set ds - {lib_val d}" by auto
  moreover have "list_all ref_entry_ok (gm_put (kw_svcs w) (lib_key s) (s0, filter (\<lambda>x. lib_val x \<noteq> lib_val d) ds))"
    using ref_entry [OF w g(1)] w by (intro ref_entries_put) (auto simp: ref_ok_def ref_entry_ok_def list_all_iff)
  ultimately show ?thesis using g w
    by (simp add: ref_libnet_def ref_DelDestination_def ref_ok_def ref_bound_def ref_vs_def fun_eq_iff)
next
  case False
  with w show ?thesis
    by (cases "gm_get (kw_svcs w) (lib_key s)") (auto simp: ref_libnet_def ref_DelDestination_def ref_vs_def fun_eq_iff)
qed

interpretation ref: ipvs_kernel ref_libnet ref_ok ref_vs ref_bound ref_link
proof
  fix w s d a D
  show "\<exists>svcs. h_GetServices ref_libnet w = Inr svcs \<and> list_all lib_ok svcs \<and>
      distinct (map lib_key svcs) \<and> lib_key ` set svcs = dom (ref_vs w)" if "ref_ok w"
    using that by (rule ref_GetServices)
  show "\<exists>ds. h_GetDestinations ref_libnet s w = Inr ds \<and> (\<forall>d \<in> set ds. is_v4 (ld_Address d)) \<and>
      lib_val ` set ds = D" if "ref_ok w" "lib_ok s" "ref_vs w (lib_key s) = Some D"
    using that ref_entry [OF that(1)]
    by (auto simp: ref_libnet_def ref_vs_def list_all_iff split: option.splits)
  show "\<exists>w'. h_NewService ref_libnet s w = (None, w') \<and> ref_ok w' \<and>
      ref_vs w' = (ref_vs w)(lib_key s \<mapsto> {}) \<and> ref_bound w' = ref_bound w"
    if "ref_ok w" "lib_ok s" "lib_key s \<notin> dom (ref_vs w)"
    using that
    by (auto simp: ref_libnet_def ref_NewService_def ref_ok_def ref_bound_def ref_vs_def fun_eq_iff
        intro!: ref_entries_put simp: ref_entry_ok_def)
  show "\<exists>e w'. h_DelService ref_libnet s w = (e, w') \<and> ref_ok w' \<and>
      ref_vs w' = (ref_vs w)(lib_key s := None) \<and> ref_bound w' = ref_bound w \<and>
      (e = None \<longleftrightarrow> lib_key s \<in> dom (ref_vs w))" if "ref_ok w" "lib_ok s"
    using that
    by (cases "gm_get (kw_svcs w) (lib_key s)")
      (simp_all add: ref_libnet_def ref_DelService_def ref_ok_def ref_bound_def ref_vs_def fun_eq_iff
        ref_entries_del dom_def)
  show "\<exists>e w'. h_NewDestination ref_libnet s d w = (e, w') \<and> ref_ok w' \<and> ref_bound w' = ref_bound w \<and>
      ref_vs w' = (ref_vs w)(lib_key s \<mapsto> insert (lib_val d) D) \<and>
      (if lib_val d \<in> D then \<exists>m. e = Some m \<and> Contains m IPVS_SERVER_EXISTS else e = None)"
    if "ref_ok w" "lib_ok s" "is_v4 (ld_Address d)" "ref_vs w (lib_key s) = Some D"
    using that(1,3,4) by (rule ref_NewDestination_adds)
  show "\<exists>m w'. h_NewDestination ref_libnet s d w = (Some m, w') \<and> ref_ok w' \<and> ref_bound w' = ref_bound w \<and>
      ref_vs w' = ref_vs w \<and> \<not> Contains m IPVS_SERVER_EXISTS"
    if "ref_ok w" "lib_ok s" "is_v4 (ld_Address d)" "ref_vs w (lib_key s) = None"
    using that
    by (auto simp: ref_libnet_def ref_NewDestination_def ref_vs_def IPVS_SERVER_EXISTS_def HasPrefix_def)
  show "\<exists>e w'. h_DelDestination ref_libnet s d w = (e, w') \<and> ref_ok w' \<and> ref_bound w' = ref_bound w \<and>
      ref_vs w' = (ref_vs w)(lib_key s := map_option (\<lambda>D. D - {lib_val d}) (ref_vs w (lib_key s))) \<and>
      (e = None \<longleftrightarrow> (\<exists>D. ref_vs w (lib_key s) = Some D \<and> lib_val d \<in> D))"
    if "ref_ok w" "lib_ok s" "is_v4 (ld_Address d)"
    using that(1) by (rule ref_DelDestination_removes)
  show "\<exists>e w'. nl_AddrAdd ref_libnet ref_link a w = (e, w') \<and> ref_ok w' \<and> ref_vs w' = ref_vs w \<and>
      ref_bound w' = insert (IP_String (ad_IP a)) (ref_bound w) \<and>
      e = (if IP_String (ad_IP a) \<in> ref_bound w then Some IFACE_HAS_ADDR else None)"
    if "ref_ok w" "is_v4 (ad_IP a)"
    using that by (auto simp: ref_libnet_def ref_AddrAdd_def ref_ok_def ref_vs_def ref_bound_def fun_eq_iff)
  show "\<exists>e w'. nl_AddrDel ref_libnet ref_link a w = (e, w') \<and> ref_ok w' \<and> ref_vs w' = ref_vs w \<and>
      ref_bound w' = ref_bound w - {IP_String (ad_IP a)} \<and> (e = None \<longleftrightarrow> IP_String (ad_IP a) \<in> ref_bound w)"
    if "ref_ok w" "is_v4 (ad_IP a)"
    using that
    by (auto simp: ref_libnet_def ref_AddrDel_def ref_ok_def ref_vs_def ref_bound_def fun_eq_iff list_all_iff)
  show "\<exists>as. nl_AddrList ref_libnet ref_link AF_INET w = Inr as \<and> (\<forall>a \<in> set as. is_v4 (ad_IP a)) \<and>
      (\<lambda>a. IP_String (ad_IP a)) ` set as = ref_bound w" if "ref_ok w"
    using that by (auto simp: ref_libnet_def ref_ok_def ref_bound_def list_all_iff image_image)
qed (auto simp: ref_libnet_def ref_ok_def ref_vs_def ref_bound_def fun_eq_iff)

section \<open>Property\<close>

context ipvs_kernel
begin

lemma EnnIpvs_iface: "ipvs_iface (EnnIpvs h) ok (\<lambda>w. proxy_table (vs w)) bound link"
  by unfold_locales

end

text \<open>
  (C8) The wrapper refines the kernel to the interface the proxy relies on: when the IPVS handle and
  the netlink address functions behave as documented (existing and missing entries are errors that
  change nothing), the methods of \<^verbatim>\<open>EnnIpvs\<close> list, add and delete services, destinations and
  addresses idempotently on the table of protocol names and int ports, and the flush empties it.
\<close>

theorem EnnIpvs_implements_interface:
  assumes "ipvs_kernel h ok vs bound link"
  shows "ipvs_iface (EnnIpvs h) ok (\<lambda>w. proxy_table (vs w)) bound link"
  using assms by (rule ipvs_kernel.EnnIpvs_iface)

theorem EnnIpvs_implements_interface_witness:
  "ipvs_iface (EnnIpvs ref_libnet) ref_ok (\<lambda>w. proxy_table (ref_vs w)) ref_bound ref_link"
  by (rule EnnIpvs_implements_interface [OF ref.ipvs_kernel_axioms])

end
