(* ===== verification/Proxier_Sync.thy ===== *)
theory Proxier_Sync
  imports Proxier Ref_Kernel
begin

text \<open>
  Correctness of the whole-rules sync.  The abstract specification is \<open>desired_table\<close>: the IPVS
  table that the service and endpoints maps of the proxy call for.  Relative to the contract of the
  IPVS interface, one sync with nothing pending turns any kernel table into the desired one.
\<close>

section \<open>Specification\<close>

definition ep_val :: "EndpointsInfo \<Rightarrow> activeServiceValue" where
  "ep_val e = \<lparr>av_ip = ei_Ip e, av_port = ei_Port e\<rparr>"

definition eps_vals :: "Proxier \<Rightarrow> ServicePortName \<Rightarrow> activeServiceValue set" where
  "eps_vals p n = ep_val ` set (gm_slice (p_endpointsMap p) n)"

definition vip_key :: "ServiceInfo \<Rightarrow> int \<Rightarrow> IP \<Rightarrow> activeServiceKey" where
  "vip_key i port ip = \<lparr>ak_ip = IP_String ip, ak_port = port, ak_protocol = si_Protocol i\<rparr>"

definition service_keys :: "Proxier \<Rightarrow> ServiceInfo \<Rightarrow> activeServiceKey list" where
  "service_keys p i =
     vip_key i (si_Port i) (si_ClusterIP i) # map (\<lambda>x. vip_key i (si_Port i) (ParseIP x)) (si_ExternalIPs i) @
     (if si_NodePort i \<noteq> 0 then map (vip_key i (si_NodePort i)) (p_nodeIPs p) else [])"

definition desired_table :: "Proxier \<Rightarrow> ipvs_table" where
  "desired_table p =
     map_of (concat (map (\<lambda>(n, i). map (\<lambda>k. (k, eps_vals p n)) (service_keys p i)) (p_serviceMap p)))"

definition cluster_ips :: "Proxier \<Rightarrow> string set" where
  "cluster_ips p = (\<lambda>(_, i). IP_String (si_ClusterIP i)) ` set (p_serviceMap p)"

text \<open>Inputs that the kernel can hold: IPv4 addresses, 16-bit ports, TCP and UDP.\<close>

definition valid_info :: "ServiceInfo \<Rightarrow> bool" where
  "valid_info i \<longleftrightarrow> is_v4 (si_ClusterIP i) \<and> is_port (si_Port i) \<and> is_port (si_NodePort i) \<and>
     is_proto (si_Protocol i) \<and> list_all (\<lambda>x. is_v4 (ParseIP x)) (si_ExternalIPs i)"

definition syncable :: "Proxier \<Rightarrow> bool" where
  "syncable p \<longleftrightarrow> list_all (\<lambda>(n, i). valid_info i \<and>
       list_all (\<lambda>e. valid_val (ep_val e)) (gm_slice (p_endpointsMap p) n)) (p_serviceMap p) \<and>
     list_all is_v4 (p_nodeIPs p)"

text \<open>Two service ports that claim the same virtual address agree on the endpoints.\<close>

definition no_conflict :: "Proxier \<Rightarrow> bool" where
  "no_conflict p \<longleftrightarrow> list_all (\<lambda>(n, i). list_all (\<lambda>(m, j).
       set (service_keys p i) \<inter> set (service_keys p j) = {} \<or> eps_vals p n = eps_vals p m)
       (p_serviceMap p)) (p_serviceMap p)"

text \<open>The kernel snapshot of the proxy describes the table \<open>t\<close>.\<close>

definition snapshot :: "Proxier \<Rightarrow> ipvs_table \<Rightarrow> bool" where
  "snapshot p t \<longleftrightarrow> (\<forall>k. map_option set (gm_get (p_kernelIpvsMap p) k) = t k) \<and>
     (\<forall>k vs. gm_get (p_kernelIpvsMap p) k = Some vs \<longrightarrow> (\<forall>v \<in> set vs. valid_val v))"

lemma desired_table_dom:
  "dom (desired_table p) = (\<Union>(n, i) \<in> set (p_serviceMap p). set (service_keys p i))"
  by (auto simp: desired_table_def dom_map_of_conv_image_fst image_UN image_image split_beta)

lemma desired_table_owner:
  assumes "desired_table p k = Some S"
  obtains n i where "(n, i) \<in> set (p_serviceMap p)" "k \<in> set (service_keys p i)" "S = eps_vals p n"
proof -
  from assms have "(k, S) \<in> set (concat (map (\<lambda>(n, i). map (\<lambda>k. (k, eps_vals p n)) (service_keys p i)) (p_serviceMap p)))"
    unfolding desired_table_def by (rule map_of_SomeD)
  then show ?thesis using that by auto
qed

lemma desired_table_key:
  assumes "no_conflict p" "(n, i) \<in> set (p_serviceMap p)" "k \<in> set (service_keys p i)"
  shows "desired_table p k = Some (eps_vals p n)"
proof -
  from assms(2,3) have "k \<in> dom (desired_table p)" unfolding desired_table_dom by blast
  then obtain S where S: "desired_table p k = Some S" by blast
  from desired_table_owner [OF S] obtain m j where
    m: "(m, j) \<in> set (p_serviceMap p)" "k \<in> set (service_keys p j)" "S = eps_vals p m" .
  have "set (service_keys p i) \<inter> set (service_keys p j) = {} \<or> eps_vals p n = eps_vals p m"
    using assms(1,2) m(1) unfolding no_conflict_def list_all_iff by fastforce
  with S m assms(3) show ?thesis by auto
qed

lemma svc_key_ipvs_service [simp]: "svc_key (ipvs_service env ip port i) = vip_key i port ip"
  by (simp add: svc_key_def ipvs_service_def vip_key_def)

lemma valid_ipvs_service:
  "is_v4 ip \<Longrightarrow> is_port port \<Longrightarrow> is_proto (si_Protocol i) \<Longrightarrow> valid_service (ipvs_service env ip port i)"
  by (simp add: valid_service_def ipvs_service_def)

lemma server_val_ipvs_server [simp]: "server_val (ipvs_server v) = v"
  by (simp add: server_val_def ipvs_server_def)

section \<open>One rule\<close>

context ipvs_iface
begin

lemma add_servers:
  assumes "ok w" "valid_service s" "tbl w (svc_key s) = Some S" "\<forall>v \<in> set vs. valid_val v"
  shows "let w' = fold (\<lambda>v w. if v \<in> X then w else snd (i_AddIpvsServer I s (ipvs_server v) w)) vs w
    in ok w' \<and> bound w' = bound w \<and> tbl w' = (tbl w)(svc_key s \<mapsto> S \<union> (set vs - X))"
  using assms
proof (induction vs arbitrary: w S)
  case (Cons v vs)
  show ?case
  proof (cases "v \<in> X")
    case True
    with Cons.IH [OF Cons.prems(1-3)] Cons.prems(4) show ?thesis by (simp add: Let_def insert_Diff_if)
  next
    case False
    from add_server [OF Cons.prems(1,2), of "ipvs_server v"] Cons.prems(3,4) obtain e w' where
      a: "i_AddIpvsServer I s (ipvs_server v) w = (e, w')" "ok w'" "bound w' = bound w"
        "tbl w' = (tbl w)(svc_key s \<mapsto> insert v S)" by auto
    with Cons.IH [OF a(2) Cons.prems(2), of "insert v S"] Cons.prems(4) False show ?thesis
      by (auto simp: Let_def insert_Diff_if fun_eq_iff)
  qed
qed (simp add: Let_def fun_upd_idem)

lemma del_servers:
  assumes "ok w" "valid_service s" "tbl w (svc_key s) = Some S" "\<forall>v \<in> set vs. valid_val v"
  shows "let w' = fold (\<lambda>v w. if v \<in> X then w else snd (i_DeleteIpvsServer I s (ipvs_server v) w)) vs w
    in ok w' \<and> bound w' = bound w \<and> tbl w' = (tbl w)(svc_key s \<mapsto> S - (set vs - X))"
  using assms
proof (induction vs arbitrary: w S)
  case (Cons v vs)
  show ?case
  proof (cases "v \<in> X")
    case True
    with Cons.IH [OF Cons.prems(1-3)] Cons.prems(4) show ?thesis by (simp add: Let_def insert_Diff_if)
  next
    case False
    from del_server [OF Cons.prems(1,2), of "ipvs_server v"] Cons.prems(3,4) obtain e w' where
      a: "i_DeleteIpvsServer I s (ipvs_server v) w = (e, w')" "ok w'" "bound w' = bound w"
        "tbl w' = (tbl w)(svc_key s \<mapsto> S - {v})" by auto
    have "S - {v} - (set vs - X) = S - (set (v # vs) - X)" using False by auto
    with a Cons.IH [OF a(2) Cons.prems(2), of "S - {v}"] Cons.prems(4) False show ?thesis
      by (simp add: Let_def fun_eq_iff)
  qed
qed (simp add: Let_def fun_upd_idem)

text \<open>
  \<^verbatim>\<open>CreateEndpointRule\<close> adds the new destinations that the snapshot lacks and removes the old
  ones that are not new.
\<close>

lemma CreateEndpointRule_table:
  assumes "ok w" "valid_service s" "tbl w (svc_key s) = Some S"
    and "\<forall>v \<in> set old. valid_val v" "\<forall>v \<in> eps_vals p n. valid_val v"
  shows "let w' = CreateEndpointRule I p s n old w
    in ok w' \<and> bound w' = bound w \<and>
       tbl w' = (tbl w)(svc_key s \<mapsto> (S \<union> (eps_vals p n - set old)) - (set old - eps_vals p n))"
proof -
  let ?o = "fold str_insert old []"
  let ?n = "fold (\<lambda>d. str_insert \<lparr>av_ip = ei_Ip d, av_port = ei_Port d\<rparr>) (gm_slice (p_endpointsMap p) n) []"
  have o: "set ?o = set old" using set_fold_insert [of "\<lambda>_. True" "\<lambda>x. x" old "[]"] by simp
  have nn: "set ?n = eps_vals p n"
    using set_fold_insert [of "\<lambda>_. True" ep_val "gm_slice (p_endpointsMap p) n" "[]"]
    by (simp add: eps_vals_def ep_val_def)
  define w1 where "w1 = fold (\<lambda>v w. if v \<in> set ?o then w else snd (i_AddIpvsServer I s (ipvs_server v) w)) ?n w"
  have w1: "ok w1" "bound w1 = bound w" "tbl w1 = (tbl w)(svc_key s \<mapsto> S \<union> (eps_vals p n - set old))"
    using add_servers [OF assms(1-3), of ?n "set ?o"] assms(5) unfolding w1_def Let_def o nn by auto
  have "let w' = fold (\<lambda>v w. if v \<in> set ?n then w else snd (i_DeleteIpvsServer I s (ipvs_server v) w)) ?o w1
    in ok w' \<and> bound w' = bound w1 \<and>
       tbl w' = (tbl w1)(svc_key s \<mapsto> (S \<union> (eps_vals p n - set old)) - (set ?o - set ?n))"
    using w1 assms(2,4) o by (intro del_servers) auto
  then show ?thesis
    unfolding CreateEndpointRule_def Let_def w1_def [symmetric] by (simp add: w1 o nn)
qed

end

section \<open>The environment of the proxy\<close>

text \<open>Sockets, events and the conntrack tool do not touch the IPVS table and the dummy link.\<close>

locale proxier_env = ipvs_iface "pe_ipvs env" ok tbl bound link
  for env :: "'w penv" and ok :: "'w \<Rightarrow> bool" and tbl :: "'w \<Rightarrow> ipvs_table"
    and bound :: "'w \<Rightarrow> string set" and link :: Link +
  assumes open_keeps: "ok w \<Longrightarrow> pe_OpenLocalPort env lp w = (r, w') \<Longrightarrow>
      ok w' \<and> tbl w' = tbl w \<and> bound w' = bound w"
    and close_keeps: "ok w \<Longrightarrow> ok (pe_Close env s w) \<and> tbl (pe_Close env s w) = tbl w \<and>
      bound (pe_Close env s w) = bound w"
    and event_keeps: "ok w \<Longrightarrow> ok (pe_Eventf env reason msg w) \<and> tbl (pe_Eventf env reason msg w) = tbl w \<and>
      bound (pe_Eventf env reason msg w) = bound w"
    and exec_keeps: "ok w \<Longrightarrow> x_CombinedOutput (pe_exec env) path args w = (res, w') \<Longrightarrow>
      ok w' \<and> tbl w' = tbl w \<and> bound w' = bound w"

text \<open>The opener never reports an error for a TCP or UDP port.\<close>

definition ports_free :: "('w \<Rightarrow> bool) \<Rightarrow> 'w penv \<Rightarrow> bool" where
  "ports_free ok env \<longleftrightarrow>
     (\<forall>lp w. ok w \<longrightarrow> is_proto (lp_Protocol lp) \<longrightarrow> \<not> isl (fst (pe_OpenLocalPort env lp w)))"

lemma ToLower_proto: "is_proto p \<Longrightarrow> ToLower p = p"
  by (auto simp: is_proto_def ToLower_def lower_char_def)

text \<open>
  The invariant of the loop over the services: the addresses done so far have their desired
  destinations, all others are as they were; the bound addresses have only grown.
\<close>

definition sync_inv ::
  "('w \<Rightarrow> bool) \<Rightarrow> ('w \<Rightarrow> ipvs_table) \<Rightarrow> ('w \<Rightarrow> string set) \<Rightarrow> Proxier \<Rightarrow> ipvs_table \<Rightarrow> string set
   \<Rightarrow> 'w sync_state \<Rightarrow> bool" where
  "sync_inv ok tbl bound p t0 b0 st \<longleftrightarrow>
     ok (sy_w st) \<and> bound (sy_w st) = b0 \<union> set (sy_bind st) \<and>
     set (sy_active st) \<subseteq> dom (desired_table p) \<and>
     tbl (sy_w st) = (\<lambda>k. if k \<in> set (sy_active st) then desired_table p k else t0 k)"

context proxier_env
begin

abbreviation inv :: "Proxier \<Rightarrow> ipvs_table \<Rightarrow> string set \<Rightarrow> 'w sync_state \<Rightarrow> bool" where
  "inv \<equiv> sync_inv ok tbl bound"

lemma CreateServiceRule_table:
  assumes "ok w" "valid_service s"
  shows "\<exists>w'. CreateServiceRule (pe_ipvs env) has s w = Some (None, w') \<and> ok w' \<and> bound w' = bound w \<and>
    tbl w' = (if has \<or> svc_key s \<in> dom (tbl w) then tbl w else (tbl w)(svc_key s \<mapsto> {}))"
  using add_service [OF assms] assms(1) by (auto simp: CreateServiceRule_def)

lemma sync_vip_inv:
  assumes i: "inv p t0 b0 st" and snap: "snapshot p t0" and s: "valid_service s"
    and d: "desired_table p (svc_key s) = Some (eps_vals p n)" and v: "\<forall>v \<in> eps_vals p n. valid_val v"
  shows "\<exists>st'. sync_vip env p n s st = Some st' \<and> inv p t0 b0 st' \<and> sy_bind st' = sy_bind st \<and>
    set (sy_active st') = insert (svc_key s) (set (sy_active st))"
proof -
  let ?k = "svc_key s" and ?N = "eps_vals p n"
  let ?has = "gm_has (p_kernelIpvsMap p) ?k" and ?O = "gm_slice (p_kernelIpvsMap p) ?k"
  have w: "ok (sy_w st)" "bound (sy_w st) = b0 \<union> set (sy_bind st)"
    "tbl (sy_w st) = (\<lambda>k. if k \<in> set (sy_active st) then desired_table p k else t0 k)"
    "set (sy_active st) \<subseteq> dom (desired_table p)"
    using i by (auto simp: sync_inv_def)
  have t0: "t0 ?k = map_option set (gm_get (p_kernelIpvsMap p) ?k)" using snap by (simp add: snapshot_def)
  have O: "\<forall>x \<in> set ?O. valid_val x"
    using snap by (cases "gm_get (p_kernelIpvsMap p) ?k") (auto simp: snapshot_def gm_slice_def)
  obtain w1 where c: "CreateServiceRule (pe_ipvs env) ?has s (sy_w st) = Some (None, w1)" "ok w1"
    "bound w1 = bound (sy_w st)"
    "tbl w1 = (if ?has \<or> ?k \<in> dom (tbl (sy_w st)) then tbl (sy_w st) else (tbl (sy_w st))(?k \<mapsto> {}))"
    using CreateServiceRule_table [OF w(1) s] by blast
  have "tbl (sy_w st) ?k = (if ?k \<in> set (sy_active st) then Some ?N
      else map_option set (gm_get (p_kernelIpvsMap p) ?k))" by (simp add: w(3) d t0)
  then have "\<exists>S. tbl w1 ?k = Some S \<and> (S = ?N \<or> S = set ?O)"
    by (cases "gm_get (p_kernelIpvsMap p) ?k"; cases "?k \<in> set (sy_active st)")
      (simp_all add: c(4) gm_slice_def dom_def)
  then obtain S where S: "tbl w1 ?k = Some S" "S = ?N \<or> S = set ?O" by blast
  have eq: "(S \<union> (?N - set ?O)) - (set ?O - ?N) = ?N" using S(2) by auto
  define w2 where "w2 = CreateEndpointRule (pe_ipvs env) p s n ?O w1"
  have w2: "ok w2" "bound w2 = bound w1" "tbl w2 = (tbl w1)(?k \<mapsto> ?N)"
    using CreateEndpointRule_table [OF c(2) s S(1) O v] unfolding w2_def Let_def eq by auto
  have t2: "tbl w2 = (tbl (sy_w st))(?k \<mapsto> ?N)" unfolding w2(3) c(4) by (simp add: fun_eq_iff)
  let ?st = "st\<lparr>sy_active := str_insert ?k (sy_active st), sy_w := w2\<rparr>"
  have "sync_vip env p n s st = Some ?st"
    using c(1) by (simp add: sync_vip_def svc_key_def [symmetric] Let_def w2_def)
  moreover have "inv p t0 b0 ?st"
    using w2(1,2) w(2,4) c(3) d by (auto simp: sync_inv_def t2 w(3) fun_eq_iff)
  ultimately show ?thesis by auto
qed

lemma ClearUdpConntrackForPort_keeps:
  assumes "ok w"
  shows "ok (ClearUdpConntrackForPort (pe_exec env) port w) \<and>
    tbl (ClearUdpConntrackForPort (pe_exec env) port w) = tbl w \<and>
    bound (ClearUdpConntrackForPort (pe_exec env) port w) = bound w"
proof -
  have "ok (snd (ExecConntrackTool (pe_exec env) ps w)) \<and> tbl (snd (ExecConntrackTool (pe_exec env) ps w)) = tbl w
      \<and> bound (snd (ExecConntrackTool (pe_exec env) ps w)) = bound w" for ps
    using assms exec_keeps [OF assms]
    by (auto simp: ExecConntrackTool_def split: sum.splits prod.splits option.splits)
  then show ?thesis using assms by (simp add: ClearUdpConntrackForPort_def)
qed

text \<open>Holding a port changes neither the IPVS table nor the bound addresses nor what is marked.\<close>

lemma hold_external_keeps:
  assumes w: "ok (sy_w st)" and i: "is_proto (si_Protocol i)"
  shows "\<exists>held st'. hold_external env p n i x st = (held, st') \<and> ok (sy_w st') \<and>
    tbl (sy_w st') = tbl (sy_w st) \<and> bound (sy_w st') = bound (sy_w st) \<and>
    sy_bind st' = sy_bind st \<and> sy_active st' = sy_active st \<and> (ports_free ok env \<longrightarrow> held)"
proof -
  obtain r w1 where o: "pe_OpenLocalPort env (external_port n i x) (sy_w st) = (r, w1)" by fastforce
  note k = open_keeps [OF w o]
  have "is_proto (lp_Protocol (external_port n i x))" using i by (simp add: external_port_def ToLower_proto)
  then have "ports_free ok env \<Longrightarrow> \<not> isl r" using w o unfolding ports_free_def by (metis fst_conv)
  then show ?thesis
    using w k event_keeps [of w1] o
    by (auto simp: hold_external_def Let_def split: sum.splits bool.splits option.splits)
qed

lemma hold_nodeport_keeps:
  assumes w: "ok (sy_w st)" and i: "is_proto (si_Protocol i)"
  shows "\<exists>held st'. hold_nodeport env p n i st = (held, st') \<and> ok (sy_w st') \<and>
    tbl (sy_w st') = tbl (sy_w st) \<and> bound (sy_w st') = bound (sy_w st) \<and>
    sy_bind st' = sy_bind st \<and> sy_active st' = sy_active st \<and> (ports_free ok env \<longrightarrow> held)"
proof -
  obtain r w1 where o: "pe_OpenLocalPort env (node_port n i) (sy_w st) = (r, w1)" by fastforce
  note k = open_keeps [OF w o]
  have "is_proto (lp_Protocol (node_port n i))" using i by (simp add: node_port_def ToLower_proto)
  then have "ports_free ok env \<Longrightarrow> \<not> isl r" using w o unfolding ports_free_def by (metis fst_conv)
  then show ?thesis
    using w k ClearUdpConntrackForPort_keeps [of w1] o
    by (auto simp: hold_nodeport_def Let_def split: sum.splits option.splits)
qed

lemma hold_external_inv:
  assumes "inv p t0 b0 st" "is_proto (si_Protocol i)"
  shows "\<exists>held st'. hold_external env p n i x st = (held, st') \<and> inv p t0 b0 st' \<and>
    sy_bind st' = sy_bind st \<and> sy_active st' = sy_active st \<and> (ports_free ok env \<longrightarrow> held)"
  using hold_external_keeps [of st i p n x] assms by (auto simp: sync_inv_def)

lemma hold_nodeport_inv:
  assumes "inv p t0 b0 st" "is_proto (si_Protocol i)"
  shows "\<exists>held st'. hold_nodeport env p n i st = (held, st') \<and> inv p t0 b0 st' \<and>
    sy_bind st' = sy_bind st \<and> sy_active st' = sy_active st \<and> (ports_free ok env \<longrightarrow> held)"
  using hold_nodeport_keeps [of st i p n] assms by (auto simp: sync_inv_def)

end

text \<open>
  A step of the sync that is responsible for the keys \<open>K\<close>: it succeeds, keeps the invariant and
  the bound addresses, and marks its keys unless a port could not be held.
\<close>

definition marks ::
  "('w \<Rightarrow> bool) \<Rightarrow> 'w penv \<Rightarrow> ('w sync_state \<Rightarrow> bool) \<Rightarrow> activeServiceKey set
   \<Rightarrow> ('w sync_state \<Rightarrow> 'w sync_state option) \<Rightarrow> bool" where
  "marks ok env P K f \<longleftrightarrow> (\<forall>st. P st \<longrightarrow> (\<exists>st'. f st = Some st' \<and> P st' \<and> sy_bind st' = sy_bind st \<and>
     set (sy_active st) \<subseteq> set (sy_active st') \<and> (ports_free ok env \<longrightarrow> K \<subseteq> set (sy_active st'))))"

lemma marks_Some: "marks ok env P {} Some"
  by (simp add: marks_def)

lemma marks_bind:
  assumes "marks ok env P K f" "marks ok env P L g"
  shows "marks ok env P (K \<union> L) (\<lambda>st. Option.bind (f st) g)"
  unfolding marks_def
proof (intro allI impI)
  fix st assume "P st"
  with assms(1) obtain st1 where 1: "f st = Some st1" "P st1" "sy_bind st1 = sy_bind st"
    "set (sy_active st) \<subseteq> set (sy_active st1)" "ports_free ok env \<longrightarrow> K \<subseteq> set (sy_active st1)"
    unfolding marks_def by blast
  with assms(2) obtain st2 where 2: "g st1 = Some st2" "P st2" "sy_bind st2 = sy_bind st1"
    "set (sy_active st1) \<subseteq> set (sy_active st2)" "ports_free ok env \<longrightarrow> L \<subseteq> set (sy_active st2)"
    unfolding marks_def by blast
  have "Option.bind (f st) g = Some st2 \<and> P st2 \<and> sy_bind st2 = sy_bind st \<and>
     set (sy_active st) \<subseteq> set (sy_active st2) \<and> (ports_free ok env \<longrightarrow> K \<union> L \<subseteq> set (sy_active st2))"
    using 1 2 by auto
  then show "\<exists>st'. Option.bind (f st) g = Some st' \<and> P st' \<and> sy_bind st' = sy_bind st \<and>
     set (sy_active st) \<subseteq> set (sy_active st') \<and> (ports_free ok env \<longrightarrow> K \<union> L \<subseteq> set (sy_active st'))"
    by blast
qed

lemma marks_foldM:
  assumes "\<And>x. x \<in> set xs \<Longrightarrow> marks ok env P (K x) (f x)"
  shows "marks ok env P (\<Union>x \<in> set xs. K x) (foldM f xs)"
  using assms
proof (induction xs)
  case Nil
  have "foldM f [] = Some" by (simp add: fun_eq_iff)
  then show ?case using marks_Some by simp
next
  case (Cons x xs)
  have "foldM f (x # xs) = (\<lambda>st. Option.bind (f x st) (foldM f xs))" by (simp add: fun_eq_iff)
  with marks_bind [OF Cons.prems Cons.IH] Cons.prems show ?case by simp
qed

text \<open>What a service port of a syncable proxy gives its steps.\<close>

lemma syncable_entry:
  assumes "syncable p" "(n, i) \<in> set (p_serviceMap p)"
  shows "valid_info i" and "\<forall>v \<in> eps_vals p n. valid_val v"
  using assms by (auto simp: syncable_def list_all_iff eps_vals_def)

lemma service_keysI:
  "vip_key i (si_Port i) (si_ClusterIP i) \<in> set (service_keys p i)"
  "x \<in> set (si_ExternalIPs i) \<Longrightarrow> vip_key i (si_Port i) (ParseIP x) \<in> set (service_keys p i)"
  "si_NodePort i \<noteq> 0 \<Longrightarrow> ip \<in> set (p_nodeIPs p) \<Longrightarrow> vip_key i (si_NodePort i) ip \<in> set (service_keys p i)"
  by (auto simp: service_keys_def)

context proxier_env
begin

lemma sync_vip_marks:
  assumes "snapshot p t0" "syncable p" "no_conflict p" "(n, i) \<in> set (p_serviceMap p)"
    and "vip_key i port ip \<in> set (service_keys p i)" "is_v4 ip" "is_port port"
  shows "marks ok env (inv p t0 b0) {vip_key i port ip} (sync_vip env p n (ipvs_service env ip port i))"
  unfolding marks_def
proof (intro allI impI)
  fix st assume i: "inv p t0 b0 st"
  note e = syncable_entry [OF assms(2,4)]
  have "valid_service (ipvs_service env ip port i)"
    using assms(6,7) e(1) by (intro valid_ipvs_service) (auto simp: valid_info_def)
  moreover have "desired_table p (svc_key (ipvs_service env ip port i)) = Some (eps_vals p n)"
    using desired_table_key [OF assms(3-5)] by simp
  ultimately show "\<exists>st'. sync_vip env p n (ipvs_service env ip port i) st = Some st' \<and> inv p t0 b0 st' \<and>
     sy_bind st' = sy_bind st \<and> set (sy_active st) \<subseteq> set (sy_active st') \<and>
     (ports_free ok env \<longrightarrow> {vip_key i port ip} \<subseteq> set (sy_active st'))"
    using sync_vip_inv [OF i assms(1) _ _ e(2)] by fastforce
qed

lemma hold_marks:
  assumes "\<And>st. inv p t0 b0 st \<Longrightarrow> \<exists>held st'. hold st = (held, st') \<and> inv p t0 b0 st' \<and>
      sy_bind st' = sy_bind st \<and> sy_active st' = sy_active st \<and> (ports_free ok env \<longrightarrow> held)"
    and "marks ok env (inv p t0 b0) K f"
  shows "marks ok env (inv p t0 b0) K (\<lambda>st. case hold st of (False, st1) \<Rightarrow> Some st1 | (True, st1) \<Rightarrow> f st1)"
  unfolding marks_def
proof (intro allI impI)
  fix st assume "inv p t0 b0 st"
  from assms(1) [OF this] obtain held st1 where h: "hold st = (held, st1)" "inv p t0 b0 st1"
    "sy_bind st1 = sy_bind st" "sy_active st1 = sy_active st" "ports_free ok env \<longrightarrow> held" by blast
  with assms(2) obtain st2 where "f st1 = Some st2" "inv p t0 b0 st2" "sy_bind st2 = sy_bind st1"
    "set (sy_active st1) \<subseteq> set (sy_active st2)" "ports_free ok env \<longrightarrow> K \<subseteq> set (sy_active st2)"
    unfolding marks_def by blast
  with h show "\<exists>st'. (case hold st of (False, st1) \<Rightarrow> Some st1 | (True, st1) \<Rightarrow> f st1) = Some st' \<and>
     inv p t0 b0 st' \<and> sy_bind st' = sy_bind st \<and> set (sy_active st) \<subseteq> set (sy_active st') \<and>
     (ports_free ok env \<longrightarrow> K \<subseteq> set (sy_active st'))"
    by (cases held) auto
qed

lemma sync_external_marks:
  assumes "snapshot p t0" "syncable p" "no_conflict p" "(n, i) \<in> set (p_serviceMap p)" "x \<in> set (si_ExternalIPs i)"
  shows "marks ok env (inv p t0 b0) {vip_key i (si_Port i) (ParseIP x)} (sync_external env p n i x)"
proof -
  have "is_v4 (ParseIP x)" "is_port (si_Port i)"
    using syncable_entry(1) [OF assms(2,4)] assms(5) by (auto simp: valid_info_def list_all_iff)
  then have "marks ok env (inv p t0 b0) {vip_key i (si_Port i) (ParseIP x)}
      (sync_vip env p n (ipvs_service env (ParseIP x) (si_Port i) i))"
    using assms(1-4) service_keysI(2) [OF assms(5)] by (intro sync_vip_marks) auto
  note m = this
  have "is_proto (si_Protocol i)" using syncable_entry(1) [OF assms(2,4)] by (simp add: valid_info_def)
  from hold_marks [OF hold_external_inv [OF _ this] m] show ?thesis
    unfolding sync_external_def by (rule back_subst [of "marks ok env (inv p t0 b0) _"]) (auto simp: fun_eq_iff)
qed

lemma sync_nodeport_marks:
  assumes "snapshot p t0" "syncable p" "no_conflict p" "(n, i) \<in> set (p_serviceMap p)"
  shows "marks ok env (inv p t0 b0)
    (if si_NodePort i \<noteq> 0 then vip_key i (si_NodePort i) ` set (p_nodeIPs p) else {}) (sync_nodeport env p n i)"
proof (cases "si_NodePort i = 0")
  case True
  then have "sync_nodeport env p n i = Some" by (simp add: sync_nodeport_def fun_eq_iff)
  then show ?thesis using True marks_Some by simp
next
  case False
  have "is_port (si_NodePort i)" using syncable_entry(1) [OF assms(2,4)] by (simp add: valid_info_def)
  moreover have "is_v4 ip" if "ip \<in> set (p_nodeIPs p)" for ip
    using assms(2) that by (simp add: syncable_def list_all_iff)
  ultimately have "marks ok env (inv p t0 b0) (\<Union>ip \<in> set (p_nodeIPs p). {vip_key i (si_NodePort i) ip})
      (foldM (\<lambda>nodeIP. sync_vip env p n (ipvs_service env nodeIP (si_NodePort i) i)) (p_nodeIPs p))"
    using assms False by (intro marks_foldM sync_vip_marks service_keysI(3)) auto
  note m = this
  have "is_proto (si_Protocol i)" using syncable_entry(1) [OF assms(2,4)] by (simp add: valid_info_def)
  from hold_marks [OF hold_nodeport_inv [OF _ this] m] False show ?thesis
    unfolding sync_nodeport_def by (simp add: UNION_singleton_eq_range)
qed

end

context proxier_env
begin

lemma bind_cluster_ip_inv:
  assumes "inv p t0 b0 st" "set (p_kernelClusterMap p) = b0" "is_v4 (si_ClusterIP i)"
  shows "\<exists>st'. bind_cluster_ip env p link i st = (True, st') \<and> inv p t0 b0 st' \<and>
    set (sy_bind st') = insert (IP_String (si_ClusterIP i)) (set (sy_bind st)) \<and> sy_active st' = sy_active st"
proof (cases "IP_String (si_ClusterIP i) \<in> b0")
  case True
  with assms show ?thesis by (auto simp: bind_cluster_ip_def Let_def sync_inv_def)
next
  case False
  have "ok (sy_w st)" using assms(1) by (simp add: sync_inv_def)
  from add_addr [OF this assms(3)] obtain w' where
    "i_AddDummyClusterIp (pe_ipvs env) (si_ClusterIP i) link (sy_w st) = (None, w')" "ok w'"
    "tbl w' = tbl (sy_w st)" "bound w' = insert (IP_String (si_ClusterIP i)) (bound (sy_w st))" by blast
  with False assms show ?thesis by (auto simp: bind_cluster_ip_def Let_def sync_inv_def)
qed

lemma sync_service_inv:
  assumes i: "inv p t0 b0 st" and snap: "snapshot p t0" "set (p_kernelClusterMap p) = b0"
    and p: "syncable p" "no_conflict p" "(n, i) \<in> set (p_serviceMap p)"
  shows "\<exists>st'. sync_service env p link (n, i) st = Some st' \<and> inv p t0 b0 st' \<and>
    set (sy_bind st') = insert (IP_String (si_ClusterIP i)) (set (sy_bind st)) \<and>
    set (sy_active st) \<subseteq> set (sy_active st') \<and>
    (ports_free ok env \<longrightarrow> set (service_keys p i) \<subseteq> set (sy_active st'))"
proof -
  have v: "is_v4 (si_ClusterIP i)" "is_port (si_Port i)"
    using syncable_entry(1) [OF p(1,3)] by (auto simp: valid_info_def)
  obtain st1 where b: "bind_cluster_ip env p link i st = (True, st1)" "inv p t0 b0 st1"
    "set (sy_bind st1) = insert (IP_String (si_ClusterIP i)) (set (sy_bind st))" "sy_active st1 = sy_active st"
    using bind_cluster_ip_inv [OF i snap(2) v(1)] by blast
  let ?f = "\<lambda>st. Option.bind (sync_vip env p n (ipvs_service env (si_ClusterIP i) (si_Port i) i) st)
    (\<lambda>st. Option.bind (foldM (sync_external env p n i) (si_ExternalIPs i) st) (sync_nodeport env p n i))"
  let ?K = "{vip_key i (si_Port i) (si_ClusterIP i)} \<union>
    ((\<Union>x \<in> set (si_ExternalIPs i). {vip_key i (si_Port i) (ParseIP x)}) \<union>
     (if si_NodePort i \<noteq> 0 then vip_key i (si_NodePort i) ` set (p_nodeIPs p) else {}))"
  have "marks ok env (inv p t0 b0) ?K ?f"
    by (intro marks_bind marks_foldM sync_vip_marks sync_external_marks sync_nodeport_marks
        snap(1) p service_keysI(1) v)
  moreover have "?K = set (service_keys p i)" by (auto simp: service_keys_def)
  ultimately obtain st2 where "?f st1 = Some st2" "inv p t0 b0 st2" "sy_bind st2 = sy_bind st1"
    "set (sy_active st1) \<subseteq> set (sy_active st2)"
    "ports_free ok env \<longrightarrow> set (service_keys p i) \<subseteq> set (sy_active st2)"
    using b(2) unfolding marks_def by metis
  with b show ?thesis by (auto simp: sync_service_def)
qed

text \<open>The loop over the service map.\<close>

lemma sync_services_inv:
  assumes i: "inv p t0 b0 st" and snap: "snapshot p t0" "set (p_kernelClusterMap p) = b0"
    and p: "syncable p" "no_conflict p" and sub: "set es \<subseteq> set (p_serviceMap p)"
  shows "\<exists>st'. foldM (sync_service env p link) es st = Some st' \<and> inv p t0 b0 st' \<and>
    set (sy_bind st') = (\<lambda>(_, i). IP_String (si_ClusterIP i)) ` set es \<union> set (sy_bind st) \<and>
    set (sy_active st) \<subseteq> set (sy_active st') \<and>
    (ports_free ok env \<longrightarrow> (\<Union>(n, i) \<in> set es. set (service_keys p i)) \<subseteq> set (sy_active st'))"
  using i sub
proof (induction es arbitrary: st)
  case (Cons e es)
  obtain n i where e: "e = (n, i)" by (cases e)
  with Cons.prems(2) have "(n, i) \<in> set (p_serviceMap p)" by simp
  from sync_service_inv [OF Cons.prems(1) snap p this] obtain st1 where
    1: "sync_service env p link (n, i) st = Some st1" "inv p t0 b0 st1"
      "set (sy_bind st1) = insert (IP_String (si_ClusterIP i)) (set (sy_bind st))"
      "set (sy_active st) \<subseteq> set (sy_active st1)"
      "ports_free ok env \<longrightarrow> set (service_keys p i) \<subseteq> set (sy_active st1)" by blast
  from Cons.IH [OF 1(2)] Cons.prems(2) obtain st2 where
    2: "foldM (sync_service env p link) es st1 = Some st2" "inv p t0 b0 st2"
      "set (sy_bind st2) = (\<lambda>(_, i). IP_String (si_ClusterIP i)) ` set es \<union> set (sy_bind st1)"
      "set (sy_active st1) \<subseteq> set (sy_active st2)"
      "ports_free ok env \<longrightarrow> (\<Union>(n, i) \<in> set es. set (service_keys p i)) \<subseteq> set (sy_active st2)" by auto
  from e 1(1) 2(1) have "foldM (sync_service env p link) (e # es) st = Some st2" by simp
  moreover have "ports_free ok env \<longrightarrow> (\<Union>(n, i) \<in> set (e # es). set (service_keys p i)) \<subseteq> set (sy_active st2)"
    using 1(5) 2(4,5) e by auto
  ultimately show ?case using 1 2 e by auto
qed auto

section \<open>Removing unused rules\<close>

lemma check_unused_services:
  assumes "ok w" "list_all lib_ok svcs"
  shows "let w' = fold (check_unused_service (pe_ipvs env) active) svcs w
    in ok w' \<and> bound w' = bound w \<and>
       tbl w' = (\<lambda>k. if k \<in> inter_key ` set svcs - set active then None else tbl w k)"
  using assms
proof (induction svcs arbitrary: w)
  case (Cons l svcs)
  let ?t = "\<lparr>s_ClusterIP = ls_Address l, s_Port = uint (ls_Port l), s_Protocol = ToProtocolString l,
      s_Scheduler = ls_SchedName l, s_SessionAffinity = False\<rparr>"
  have k: "svc_key ?t = inter_key l" by (simp add: svc_key_def inter_key_def)
  have "valid_service ?t"
    using Cons.prems(2) by (auto simp: valid_service_def lib_ok_def is_port_uint is_proto_def ToProtocolString_def)
  from del_service [OF Cons.prems(1) this] obtain e w' where
    d: "i_DeleteIpvsService (pe_ipvs env) ?t w = (e, w')" "ok w'" "bound w' = bound w"
      "tbl w' = (tbl w)(inter_key l := None)" unfolding k by blast
  have c: "check_unused_service (pe_ipvs env) active l w = (if inter_key l \<in> set active then w else w')"
    using d(1) by (simp add: check_unused_service_def CreateInterService_def Let_def inter_key_def)
  from Cons.prems(2) have "list_all lib_ok svcs" by simp
  from Cons.IH [OF _ this, of w] Cons.IH [OF d(2) this] Cons.prems(1) d(3,4) show ?case
    by (auto simp: c Let_def fun_eq_iff)
qed simp

lemma unbind_addrs:
  assumes "ok w" "\<forall>a \<in> set as. is_v4 (ad_IP a)"
  shows "let w' = fold (\<lambda>a w. if IP_String (ad_IP a) \<in> X then w
        else snd (i_DeleteDummyClusterIp (pe_ipvs env) (ad_IP a) link w)) as w
    in ok w' \<and> tbl w' = tbl w \<and> bound w' = bound w - ((\<lambda>a. IP_String (ad_IP a)) ` set as - X)"
  using assms
proof (induction as arbitrary: w)
  case (Cons a as)
  then obtain e w' where d: "i_DeleteDummyClusterIp (pe_ipvs env) (ad_IP a) link w = (e, w')" "ok w'"
    "tbl w' = tbl w" "bound w' = bound w - {IP_String (ad_IP a)}"
    using del_addr [of w "ad_IP a"] by auto
  from Cons.IH [of w] Cons.IH [OF d(2)] Cons.prems d show ?case by (auto simp: Let_def)
qed simp

lemma CheckUnusedRule_table:
  assumes "ok w"
  shows "let w' = CheckUnusedRule (pe_ipvs env) active binds link w
    in ok w' \<and> tbl w' = tbl w |` set active \<and> bound w' = bound w \<inter> set binds"
proof -
  obtain svcs where s: "i_ListIpvsService (pe_ipvs env) w = Inr svcs" "list_all lib_ok svcs"
    "inter_key ` set svcs = dom (tbl w)" using list_services [OF assms] by blast
  define w1 where "w1 = fold (check_unused_service (pe_ipvs env) active) svcs w"
  have w1: "ok w1" "bound w1 = bound w" "tbl w1 = tbl w |` set active"
    using check_unused_services [OF assms s(2), of active] unfolding s(3) w1_def [symmetric] Let_def
    by (auto simp: restrict_map_def fun_eq_iff)
  obtain as where a: "i_ListDuumyClusterIp (pe_ipvs env) link w1 = Inr as" "\<forall>a \<in> set as. is_v4 (ad_IP a)"
    "(\<lambda>a. IP_String (ad_IP a)) ` set as = bound w1" using list_addr [OF w1(1)] by blast
  have "bound w1 - (bound w1 - set binds) = bound w1 \<inter> set binds" by blast
  with unbind_addrs [OF w1(1) a(2), of "set binds"] show ?thesis
    unfolding CheckUnusedRule_def s(1) a(3) using a(1) w1
    by (simp add: Let_def w1_def [symmetric])
qed

end

section \<open>The sync as a whole\<close>

text \<open>The specification only reads the maps and the node addresses.\<close>

definition same_input :: "Proxier \<Rightarrow> Proxier \<Rightarrow> bool" where
  "same_input p q \<longleftrightarrow> p_serviceMap p = p_serviceMap q \<and> p_endpointsMap p = p_endpointsMap q \<and> p_nodeIPs p = p_nodeIPs q"

lemma same_input_spec:
  assumes "same_input p q"
  shows "desired_table p = desired_table q" "cluster_ips p = cluster_ips q"
    "syncable p = syncable q" "no_conflict p = no_conflict q"
proof -
  have k: "service_keys p i = service_keys q i" for i using assms by (simp add: service_keys_def same_input_def)
  have e: "eps_vals p n = eps_vals q n" for n using assms by (simp add: eps_vals_def same_input_def)
  show "desired_table p = desired_table q" "cluster_ips p = cluster_ips q"
    "syncable p = syncable q" "no_conflict p = no_conflict q"
    using assms by (simp_all add: desired_table_def cluster_ips_def syncable_def no_conflict_def same_input_def k e)
qed

text \<open>The proxier with both pending change maps applied and the node addresses read.\<close>

definition updated :: "Proxier \<Rightarrow> IP list \<Rightarrow> Proxier" where
  "updated p ips = p\<lparr>p_serviceMap := fst (UpdateServiceMap (p_serviceMap p) (p_serviceChanges p)),
     p_endpointsMap := fst (UpdateEndpointsMap (p_endpointsMap p) (ecm_Items (p_endpointsChanges p))),
     p_nodeIPs := ips\<rparr>"

lemma UpdateServiceMap_Nil [simp]: "fst (UpdateServiceMap sm []) = sm"
  by (simp add: UpdateServiceMap_def)

lemma UpdateEndpointsMap_Nil [simp]: "fst (UpdateEndpointsMap em []) = em"
  by (simp add: UpdateEndpointsMap_def)

context proxier_env
begin

lemma build_ipvs_entries:
  assumes "ok w" "i_ListIpvsService (pe_ipvs env) w = Inr svcs" "set ls \<subseteq> set svcs"
    and "\<And>k vs. gm_get m k = Some vs \<Longrightarrow> tbl w k = Some (set vs) \<and> (\<forall>v \<in> set vs. valid_val v)"
  shows "let m' = fold (build_ipvs_entry (pe_ipvs env) w) ls m
    in (\<forall>k vs. gm_get m' k = Some vs \<longrightarrow> tbl w k = Some (set vs) \<and> (\<forall>v \<in> set vs. valid_val v)) \<and>
       dom (gm_get m') = dom (gm_get m) \<union> inter_key ` set ls"
  using assms(3,4)
proof (induction ls arbitrary: m)
  case (Cons l ls)
  then have "l \<in> set svcs" by simp
  from list_servers [OF assms(1,2) this] obtain ds where
    d: "i_ListIpvsServer (pe_ipvs env) l w = Inr ds" "tbl w (inter_key l) = Some (server_val ` set ds)"
      "\<forall>d \<in> set ds. valid_val (server_val d)" by blast
  have e: "build_ipvs_entry (pe_ipvs env) w l m = gm_put m (inter_key l) (map server_val ds)"
    using d(1) by (simp add: build_ipvs_entry_def CreateInterService_def Let_def inter_key_def ipvs_values_def
        server_val_def [abs_def])
  have "gm_get (gm_put m (inter_key l) (map server_val ds)) k = Some vs \<Longrightarrow>
      tbl w k = Some (set vs) \<and> (\<forall>v \<in> set vs. valid_val v)" for k vs
    using Cons.prems(2) [of k vs] d(2,3) by (auto split: if_splits)
  then have "let m' = fold (build_ipvs_entry (pe_ipvs env) w) ls (gm_put m (inter_key l) (map server_val ds))
    in (\<forall>k vs. gm_get m' k = Some vs \<longrightarrow> tbl w k = Some (set vs) \<and> (\<forall>v \<in> set vs. valid_val v)) \<and>
       dom (gm_get m') = dom (gm_get (gm_put m (inter_key l) (map server_val ds))) \<union> inter_key ` set ls"
    using Cons.prems(1) by (intro Cons.IH) auto
  then show ?case unfolding Let_def by (simp add: e)
qed auto

lemma BuildIpvsMap_snapshot:
  assumes "ok w" shows "snapshot (BuildIpvsMap (pe_ipvs env) p w) (tbl w)"
proof -
  obtain svcs where s: "i_ListIpvsService (pe_ipvs env) w = Inr svcs" "inter_key ` set svcs = dom (tbl w)"
    using list_services [OF assms] by blast
  let ?m = "fold (build_ipvs_entry (pe_ipvs env) w) svcs []"
  have m: "\<And>k vs. gm_get ?m k = Some vs \<Longrightarrow> tbl w k = Some (set vs) \<and> (\<forall>v \<in> set vs. valid_val v)"
    "dom (gm_get ?m) = dom (tbl w)"
    using build_ipvs_entries [OF assms s(1) order_refl, of "[]"] s(2) by (auto simp: Let_def)
  have "map_option set (gm_get ?m k) = tbl w k" for k
    using m(1) [of k] m(2) by (cases "gm_get ?m k") (simp, metis domIff, auto)
  with m(1) show ?thesis by (simp add: snapshot_def BuildIpvsMap_def s(1))
qed

lemma BuildClusterMap_bound:
  assumes "ok w" shows "set (p_kernelClusterMap (BuildClusterMap (pe_ipvs env) link p w)) = bound w"
proof -
  obtain as where "i_ListDuumyClusterIp (pe_ipvs env) link w = Inr as" "(\<lambda>a. IP_String (ad_IP a)) ` set as = bound w"
    using list_addr [OF assms] by blast
  then show ?thesis
    using set_fold_insert [of "\<lambda>_. True" "\<lambda>a. IP_String (ad_IP a)" as "[]"] by (simp add: BuildClusterMap_def)
qed

lemma sync_whole_rules_table:
  assumes "ok w" "snapshot p (tbl w)" "set (p_kernelClusterMap p) = bound w" "syncable p" "no_conflict p"
  shows "\<exists>st. sync_whole_rules env p link \<lparr>sy_w = w, sy_ports = [], sy_active = [], sy_bind = []\<rparr> = Some st \<and>
    ok (sy_w st) \<and> bound (sy_w st) = cluster_ips p \<and> tbl (sy_w st) \<subseteq>\<^sub>m desired_table p \<and>
    (ports_free ok env \<longrightarrow> tbl (sy_w st) = desired_table p)"
proof -
  let ?st = "\<lparr>sy_w = w, sy_ports = [], sy_active = [], sy_bind = []\<rparr>"
  have "inv p (tbl w) (bound w) ?st" using assms(1) by (simp add: sync_inv_def)
  from sync_services_inv [OF this assms(2-5) order_refl] obtain st1 where
    1: "foldM (sync_service env p link) (p_serviceMap p) ?st = Some st1" "inv p (tbl w) (bound w) st1"
      "set (sy_bind st1) = cluster_ips p"
      "ports_free ok env \<longrightarrow> dom (desired_table p) \<subseteq> set (sy_active st1)"
    by (auto simp: cluster_ips_def desired_table_dom)
  have ok1: "ok (sy_w st1)" and b1: "bound (sy_w st1) = bound w \<union> cluster_ips p"
    and a1: "set (sy_active st1) \<subseteq> dom (desired_table p)"
    and t1: "tbl (sy_w st1) |` set (sy_active st1) = desired_table p |` set (sy_active st1)"
    using 1(2,3) by (auto simp: sync_inv_def restrict_map_def fun_eq_iff)
  let ?w = "CheckUnusedRule (pe_ipvs env) (sy_active st1) (sy_bind st1) link (sy_w st1)"
  have c: "ok ?w" "tbl ?w = desired_table p |` set (sy_active st1)" "bound ?w = cluster_ips p"
    using CheckUnusedRule_table [OF ok1, of "sy_active st1" "sy_bind st1"] t1 b1 1(3) by (auto simp: Let_def)
  have "ports_free ok env \<longrightarrow> tbl ?w = desired_table p"
    using c(2) 1(4) by (simp add: restrict_map_dom)
  moreover have "tbl ?w \<subseteq>\<^sub>m desired_table p" unfolding c(2) by (auto simp: map_le_def restrict_map_def)
  ultimately show ?thesis using 1(1) c by (simp add: sync_whole_rules_def)
qed

lemma exec_tool_keeps:
  assumes "ok w"
  shows "ok (snd (ExecConntrackTool (pe_exec env) ps w)) \<and> tbl (snd (ExecConntrackTool (pe_exec env) ps w)) = tbl w
    \<and> bound (snd (ExecConntrackTool (pe_exec env) ps w)) = bound w"
  using assms exec_keeps [OF assms]
  by (auto simp: ExecConntrackTool_def split: sum.splits prod.splits option.splits)

lemma finish_sync_keeps:
  assumes "ok (sy_w st)"
  shows "let w' = snd (finish_sync env stale eps p st) in ok w' \<and> tbl w' = tbl (sy_w st) \<and> bound w' = bound (sy_w st)"
proof -
  let ?P = "\<lambda>w'. ok w' \<and> tbl w' = tbl (sy_w st) \<and> bound w' = bound (sy_w st)"
  have exec: "?P (snd (ExecConntrackTool (pe_exec env) ps w))" if "?P w" for ps w
    using that exec_tool_keeps [of w ps] by auto
  have ip: "?P (snd (ClearUDPConntrackForIP (pe_exec env) x w))"
    and peers: "?P (snd (ClearUDPConntrackForPeers (pe_exec env) x y w))" if "?P w" for x y w
    unfolding snd_ClearUDPConntrack using exec [OF that] by auto
  have 1: "?P (close_ports env (sy_ports st) (p_portsMap p) (sy_w st))"
    unfolding close_ports_def using assms close_keeps
    by (intro fold_invariant [where P = ?P and Q = "\<lambda>_. True"]) (simp_all split: prod.splits)
  have 2: "?P (fold (\<lambda>svcIP w. snd (ClearUDPConntrackForIP (pe_exec env) svcIP w)) stale w)" if "?P w" for w
    using that ip by (intro fold_invariant [where P = ?P and Q = "\<lambda>_. True"]) auto
  have 3: "?P (deleteEndpointConnections env q eps w)" if "?P w" for q w
    unfolding deleteEndpointConnections_def using that peers
    by (intro fold_invariant [where P = ?P and Q = "\<lambda>_. True"]) (auto split: option.splits)
  show ?thesis unfolding finish_sync_def Let_def snd_conv by (rule 3, rule 2, rule 1)
qed

text \<open>
  Up to the phases every sync is the same: it applies the pending changes to the two maps, reads
  the kernel and the node addresses, and after the phases does its housekeeping.
\<close>

lemma sync_start:
  assumes w: "ok w" and flags: "p_endpointsSynced p" "p_servicesSynced p"
    and ips: "\<And>w. ok w \<Longrightarrow> pe_GetNodeIPs env (pe_ipvs env) w = Inr ips"
  obtains p1 w1 stale eps where "ok w1" "tbl w1 = tbl w" "bound w1 = bound w"
    "snapshot p1 (tbl w1)" "set (p_kernelClusterMap p1) = bound w1" "same_input p1 (updated p ips)"
    "p_serviceChanges p1 = p_serviceChanges p" "p_endpointsChanges p1 = p_endpointsChanges p"
    "p_portsMap p1 = p_portsMap p"
    "syncProxyRules env p w = map_option (\<lambda>(q, st). finish_sync env stale eps q st) (sync_phases env link p1 w1)"
proof -
  obtain w1 where g: "i_GetDummyLink (pe_ipvs env) w = Some (Inr link, w1)" "ok w1" "tbl w1 = tbl w" "bound w1 = bound w"
    using dummy_link [OF w] by blast
  define q where "q = BuildIpvsMap (pe_ipvs env) (p\<lparr>p_serviceMap := p_serviceMap (updated p ips),
      p_endpointsMap := p_endpointsMap (updated p ips)\<rparr>) w1"
  define p1 where "p1 = (BuildClusterMap (pe_ipvs env) link q w1)\<lparr>p_nodeIPs := ips\<rparr>"
  have f: "p_serviceMap p1 = p_serviceMap (updated p ips)" "p_endpointsMap p1 = p_endpointsMap (updated p ips)"
    "p_nodeIPs p1 = p_nodeIPs (updated p ips)" "p_serviceChanges p1 = p_serviceChanges p"
    "p_endpointsChanges p1 = p_endpointsChanges p" "p_portsMap p1 = p_portsMap p"
    "p_kernelIpvsMap p1 = p_kernelIpvsMap q"
    unfolding p1_def q_def BuildClusterMap_def BuildIpvsMap_def updated_def by (auto split: sum.splits)
  have snap: "snapshot p1 (tbl w1)"
    using BuildIpvsMap_snapshot [OF g(2)] f(7) by (simp add: q_def snapshot_def)
  have cl: "set (p_kernelClusterMap p1) = bound w1"
    using BuildClusterMap_bound [OF g(2), of q] by (simp add: p1_def)
  have "\<exists>stale eps. syncProxyRules env p w =
      map_option (\<lambda>(q, st). finish_sync env stale eps q st) (sync_phases env link p1 w1)"
    using flags g(1) ips [OF g(2)]
    by (cases "sync_phases env link p1 w1")
      (auto simp: syncProxyRules_def p1_def q_def updated_def split_beta Let_def)
  then show ?thesis using that [OF g(2-4) snap cl _ f(4-6)] f(1-3) by (auto simp: same_input_def)
qed

lemma sync_finish:
  assumes "ok (sy_w st)" "finish_sync env stale eps q st = (p', w')"
  shows "ok w'" "tbl w' = tbl (sy_w st)" "bound w' = bound (sy_w st)" "p' = q\<lparr>p_portsMap := sy_ports st\<rparr>"
  using finish_sync_keeps [OF assms(1), of stale eps q] assms(2) by (auto simp: Let_def finish_sync_def)

lemma syncProxyRules_table:
  assumes w: "ok w" "p_endpointsSynced p" "p_servicesSynced p"
    and none: "p_serviceChanges p = []" "ecm_Items (p_endpointsChanges p) = []"
    and ips: "\<And>w. ok w \<Longrightarrow> pe_GetNodeIPs env (pe_ipvs env) w = Inr ips"
    and q: "syncable (p\<lparr>p_nodeIPs := ips\<rparr>)" "no_conflict (p\<lparr>p_nodeIPs := ips\<rparr>)"
  shows "\<exists>p' w'. syncProxyRules env p w = Some (p', w') \<and> ok w' \<and> same_input p' (p\<lparr>p_nodeIPs := ips\<rparr>) \<and>
    bound w' = cluster_ips (p\<lparr>p_nodeIPs := ips\<rparr>) \<and> tbl w' \<subseteq>\<^sub>m desired_table (p\<lparr>p_nodeIPs := ips\<rparr>) \<and>
    (ports_free ok env \<longrightarrow> tbl w' = desired_table (p\<lparr>p_nodeIPs := ips\<rparr>))"
proof -
  from sync_start [OF w ips] obtain p1 w1 stale eps where
    1: "ok w1" "snapshot p1 (tbl w1)" "set (p_kernelClusterMap p1) = bound w1" "same_input p1 (updated p ips)"
      "p_serviceChanges p1 = p_serviceChanges p" "p_endpointsChanges p1 = p_endpointsChanges p"
      "syncProxyRules env p w = map_option (\<lambda>(q, st). finish_sync env stale eps q st) (sync_phases env link p1 w1)"
    by metis
  have same: "same_input p1 (p\<lparr>p_nodeIPs := ips\<rparr>)" using 1(4) none by (simp add: same_input_def updated_def)
  note spec = same_input_spec [OF same]
  obtain st where
    s: "sync_whole_rules env p1 link \<lparr>sy_w = w1, sy_ports = [], sy_active = [], sy_bind = []\<rparr> = Some st"
      "ok (sy_w st)" "bound (sy_w st) = cluster_ips p1" "tbl (sy_w st) \<subseteq>\<^sub>m desired_table p1"
      "ports_free ok env \<longrightarrow> tbl (sy_w st) = desired_table p1"
    using sync_whole_rules_table [OF 1(1-3)] q spec(3,4) by blast
  then have "sync_phases env link p1 w1 = Some (p1, st)"
    using 1(5,6) none by (simp add: sync_phases_def)
  moreover obtain p' w' where f: "finish_sync env stale eps p1 st = (p', w')" by fastforce
  ultimately have "syncProxyRules env p w = Some (p', w')" using 1(7) by simp
  with sync_finish [OF s(2) f] s(3-5) same spec(1,2) show ?thesis by (auto simp: same_input_def)
qed

end

section \<open>The environment that NewProxier builds\<close>

text \<open>
  The interfaces of a proxier as \<^verbatim>\<open>NewProxier\<close> sets them: the wrapper of the IPVS library, the
  listening port opener, the reader of node addresses, the given executor and recorder.
\<close>

definition NewProxier_env ::
  "'w libnet \<Rightarrow> 'w netio \<Rightarrow> 'w execer \<Rightarrow> (string \<Rightarrow> string \<Rightarrow> 'w \<Rightarrow> 'w) \<Rightarrow> string \<Rightarrow> 'w penv" where
  "NewProxier_env h net execer recorder roundRobin =
     \<lparr>pe_ipvs = EnnIpvs h, pe_InterfaceAddrs = n_InterfaceAddrs net, pe_OpenLocalPort = openLocalPort net,
      pe_Close = n_Close net, pe_GetNodeIPs = GetNodeIPs net, pe_exec = execer, pe_Eventf = recorder,
      pe_RoundRobin = roundRobin\<rparr>"

text \<open>Opening sockets, recording events and running conntrack leave IPVS and the dummy link alone.\<close>

locale proxy_os = ipvs_kernel h ok vs bound link
  for h :: "'w libnet" and ok :: "'w \<Rightarrow> bool" and vs :: "'w \<Rightarrow> kernel_table"
    and bound :: "'w \<Rightarrow> string set" and link :: Link +
  fixes net :: "'w netio" and execer :: "'w execer" and recorder :: "string \<Rightarrow> string \<Rightarrow> 'w \<Rightarrow> 'w"
    and roundRobin :: string
  assumes listen_keeps: "ok w \<Longrightarrow> n_Listen net a w = (r, w') \<Longrightarrow> ok w' \<and> vs w' = vs w \<and> bound w' = bound w"
    and listenUDP_keeps: "ok w \<Longrightarrow> n_ListenUDP net a w = (r, w') \<Longrightarrow> ok w' \<and> vs w' = vs w \<and> bound w' = bound w"
    and net_close_keeps: "ok w \<Longrightarrow> ok (n_Close net s w) \<and> vs (n_Close net s w) = vs w \<and>
      bound (n_Close net s w) = bound w"
    and recorder_keeps: "ok w \<Longrightarrow> ok (recorder reason msg w) \<and> vs (recorder reason msg w) = vs w \<and>
      bound (recorder reason msg w) = bound w"
    and execer_keeps: "ok w \<Longrightarrow> x_CombinedOutput execer path args w = (res, w') \<Longrightarrow>
      ok w' \<and> vs w' = vs w \<and> bound w' = bound w"

sublocale proxy_os \<subseteq> px: proxier_env "NewProxier_env h net execer recorder roundRobin" ok
  "\<lambda>w. proxy_table (vs w)" bound link
proof (rule proxier_env.intro)
  show "ipvs_iface (pe_ipvs (NewProxier_env h net execer recorder roundRobin)) ok
      (\<lambda>w. proxy_table (vs w)) bound link"
    using enn.ipvs_iface_axioms by (simp add: NewProxier_env_def)
  show "proxier_env_axioms (NewProxier_env h net execer recorder roundRobin) ok (\<lambda>w. proxy_table (vs w)) bound"
  proof
    show "ok w' \<and> proxy_table (vs w') = proxy_table (vs w) \<and> bound w' = bound w"
      if "ok w" "pe_OpenLocalPort (NewProxier_env h net execer recorder roundRobin) lp w = (r, w')" for w lp r w'
      using that listen_keeps [OF that(1)] listenUDP_keeps [OF that(1)]
      by (auto simp: NewProxier_env_def openLocalPort_def Let_def split: if_splits sum.splits)
    show "ok w' \<and> proxy_table (vs w') = proxy_table (vs w) \<and> bound w' = bound w"
      if "ok w" "x_CombinedOutput (pe_exec (NewProxier_env h net execer recorder roundRobin)) path args w = (res, w')"
      for w path args res w'
      using that execer_keeps [OF that(1)] by (simp add: NewProxier_env_def)
  qed (use net_close_keeps recorder_keeps in \<open>simp_all add: NewProxier_env_def\<close>)
qed

definition ref_netio :: "kworld netio" where
  "ref_netio = \<lparr>n_Listen = (\<lambda>_ w. (Inr 1, w)), n_ResolveUDPAddr = (\<lambda>a _. Inr a),
     n_ListenUDP = (\<lambda>_ w. (Inr 2, w)), n_Close = (\<lambda>_ w. w), n_Interfaces = (\<lambda>_. Inr [''eth0'']),
     n_InterfaceAddrs = (\<lambda>_. Inr []), n_Hostname = (\<lambda>_. Inr ''node1'')\<rparr>"

definition ref_execer :: "kworld execer" where
  "ref_execer = \<lparr>x_LookPath = (\<lambda>_ _. Inr ''/usr/sbin/conntrack''),
     x_CombinedOutput = (\<lambda>_ _ w. (('''', None), w))\<rparr>"

definition ref_recorder :: "string \<Rightarrow> string \<Rightarrow> kworld \<Rightarrow> kworld" where
  "ref_recorder reason msg w = w"

definition ref_env :: "kworld penv" where
  "ref_env = NewProxier_env ref_libnet ref_netio ref_execer ref_recorder ''rr''"

interpretation refos: proxy_os ref_libnet ref_ok ref_vs ref_bound ref_link ref_netio ref_execer ref_recorder "''rr''"
  by unfold_locales (auto simp: ref_netio_def ref_execer_def ref_recorder_def)


context proxy_os
begin

lemma os_sync:
  assumes "ok w" "p_endpointsSynced p" "p_servicesSynced p"
    and "p_serviceChanges p = []" "ecm_Items (p_endpointsChanges p) = []"
    and ips: "\<And>w. ok w \<Longrightarrow> GetNodeIPs net (EnnIpvs h) w = Inr ips"
    and q: "syncable (p\<lparr>p_nodeIPs := ips\<rparr>)" "no_conflict (p\<lparr>p_nodeIPs := ips\<rparr>)"
  shows "\<exists>p' w'. syncProxyRules (NewProxier_env h net execer recorder roundRobin) p w = Some (p', w') \<and>
    ok w' \<and> same_input p' (p\<lparr>p_nodeIPs := ips\<rparr>) \<and> bound w' = cluster_ips (p\<lparr>p_nodeIPs := ips\<rparr>) \<and>
    proxy_table (vs w') \<subseteq>\<^sub>m desired_table (p\<lparr>p_nodeIPs := ips\<rparr>) \<and>
    (ports_free ok (NewProxier_env h net execer recorder roundRobin) \<longrightarrow>
       proxy_table (vs w') = desired_table (p\<lparr>p_nodeIPs := ips\<rparr>))"
proof (rule px.syncProxyRules_table [OF assms(1-5) _ q])
  show "pe_GetNodeIPs (NewProxier_env h net execer recorder roundRobin)
      (pe_ipvs (NewProxier_env h net execer recorder roundRobin)) w = Inr ips" if "ok w" for w
    using ips [OF that] by (simp add: NewProxier_env_def)
qed

end

lemma cluster_ips_nodeIPs [simp]: "cluster_ips (p\<lparr>p_nodeIPs := ips\<rparr>) = cluster_ips p"
  by (simp add: cluster_ips_def)

section \<open>Properties\<close>


definition ex_info :: ServiceInfo where
  "ex_info = \<lparr>si_ClusterIP = [10, 0, 0, 1], si_Port = 80, si_Protocol = ''tcp'', si_NodePort = 30080,
     si_SessionAffinity = False, si_ExternalIPs = [], si_OnlyNodeLocalEndpoints = False,
     si_healthCheckNodePort = 0\<rparr>"

definition ex_name :: ServicePortName where
  "ex_name = \<lparr>spn_NamespacedName = ex_nsn, spn_Port = ''http''\<rparr>"

definition ex_proxier :: Proxier where
  "ex_proxier = \<lparr>p_serviceChanges = [], p_endpointsChanges = NewEndpointsChangeMap ''node1'',
     p_serviceMap = [(ex_name, ex_info)],
     p_endpointsMap = [(ex_name, [\<lparr>ei_Ip = dotted [10, 1, 1, 1], ei_Port = 8080, ei_IsLocal = False\<rparr>])],
     p_portsMap = [], p_kernelIpvsMap = [], p_kernelClusterMap = [], p_endpointsSynced = True,
     p_servicesSynced = True, p_initialized = 1, p_masqueradeAll = False, p_clusterCIDR = '''',
     p_hostname = ''node1'', p_nodeIP = nilIP, p_nodeIPs = [], p_scheduler = ''rr'', p_syncPeriod = 10,
     p_minSyncPeriod = 0\<rparr>"

definition ex_ips :: "IP list" where "ex_ips = [ParseIP (IP_String [192, 168, 1, 5])]"

definition ex_stale_world :: kworld where
  "ex_stale_world = \<lparr>kw_svcs = [], kw_addrs = [[10, 0, 0, 99]], kw_link = False\<rparr>"

lemma ex_world_ok: "ref_ok ex_stale_world"
  by (simp add: ref_ok_def ex_stale_world_def is_v4_def To4_def)

lemma ex_node_ips: "GetNodeIPs ref_netio (EnnIpvs ref_libnet) w = Inr ex_ips"
  by (simp add: GetNodeIPs_def ref_netio_def EnnIpvs_def GetLocalAddresses_def ref_libnet_def Let_def
      excluded_interface_def HasPrefix_def ex_ips_def)

lemma ex_syncable: "syncable (ex_proxier\<lparr>p_nodeIPs := ex_ips\<rparr>)" "no_conflict (ex_proxier\<lparr>p_nodeIPs := ex_ips\<rparr>)"
proof -
  have "is_v4 [192, 168, 1, 5]" by (simp add: is_v4_def To4_def)
  then have "is_v4 (ParseIP (IP_String [192, 168, 1, 5]))"
    by (simp add: ParseIP_String_v4 is_v4_def)
  then show "syncable (ex_proxier\<lparr>p_nodeIPs := ex_ips\<rparr>)"
    by (simp add: syncable_def ex_proxier_def ex_ips_def valid_info_def ex_info_def is_v4_def To4_def is_port_def
        is_proto_def gm_slice_def valid_val_def ep_val_def dotted_canonical)
  show "no_conflict (ex_proxier\<lparr>p_nodeIPs := ex_ips\<rparr>)" by (simp add: no_conflict_def ex_proxier_def)
qed

lemma ref_ports_free: "ports_free ref_ok ref_env"
  by (auto simp: ports_free_def ref_env_def NewProxier_env_def openLocalPort_def ref_netio_def Let_def is_proto_def)


text \<open>
  (C9) The whole-rules sync is safe even when local ports cannot be opened: it returns, and the
  IPVS table holds nothing but desired addresses with exactly their desired destinations (an
  address whose port could not be held is missing, never wrong), and the dummy link carries
  exactly the cluster IPs.
\<close>

theorem whole_sync_no_stale_rule:
  assumes "proxy_os h ok vs bound link net execer recorder" and "ok w"
    and "p_endpointsSynced p" and "p_servicesSynced p"
    and "p_serviceChanges p = []" and "ecm_Items (p_endpointsChanges p) = []"
    and "\<And>w. ok w \<Longrightarrow> GetNodeIPs net (EnnIpvs h) w = Inr ips"
    and "syncable (p\<lparr>p_nodeIPs := ips\<rparr>)" and "no_conflict (p\<lparr>p_nodeIPs := ips\<rparr>)"
  shows "\<exists>p' w'. syncProxyRules (NewProxier_env h net execer recorder rr) p w = Some (p', w') \<and>
    proxy_table (vs w') \<subseteq>\<^sub>m desired_table (p\<lparr>p_nodeIPs := ips\<rparr>) \<and> bound w' = cluster_ips p"
  using proxy_os.os_sync [OF assms, of rr] by auto

theorem whole_sync_no_stale_rule_witness:
  "\<exists>p' w'. syncProxyRules ref_env ex_proxier ex_stale_world = Some (p', w') \<and>
    proxy_table (ref_vs w') \<subseteq>\<^sub>m desired_table (ex_proxier\<lparr>p_nodeIPs := ex_ips\<rparr>) \<and>
    ref_bound w' = cluster_ips ex_proxier"
  unfolding ref_env_def
  by (rule whole_sync_no_stale_rule [OF refos.proxy_os_axioms ex_world_ok _ _ _ _ ex_node_ips ex_syncable])
    (simp_all add: ex_proxier_def NewEndpointsChangeMap_def)

end
