(* ===== verification/Proxier_Incremental.thy ===== *)
theory Proxier_Incremental
  imports Proxier_Sync
begin

text \<open>
  The incremental syncs of src/pkg/proxy/ipvs/proxier.go.  A sync with only endpoints pending keeps
  a converged table converged.  A sync with a service pending rewrites the addresses of that
  service without their destinations: the exact table is given.  Both rebuild the map of held
  ports from the changed services alone.
\<close>

section \<open>Endpoints changes\<close>

definition changed_names :: "EndpointsChange \<Rightarrow> ServicePortName set" where
  "changed_names ch = fst ` set (range_map (ec_Previous ch)) \<union> fst ` set (range_map (ec_Current ch))"

definition keys_of :: "Proxier \<Rightarrow> ServicePortName \<Rightarrow> activeServiceKey set" where
  "keys_of p n = (case gm_get (p_serviceMap p) n of None \<Rightarrow> {} | Some i \<Rightarrow> set (service_keys p i))"

text \<open>The invariant of the endpoints loops: the addresses in \<open>A\<close> are done.\<close>

definition ep_inv ::
  "('w \<Rightarrow> bool) \<Rightarrow> ('w \<Rightarrow> ipvs_table) \<Rightarrow> ('w \<Rightarrow> string set) \<Rightarrow> Proxier \<Rightarrow> ipvs_table \<Rightarrow> string set
   \<Rightarrow> activeServiceKey set \<Rightarrow> 'w \<Rightarrow> bool" where
  "ep_inv ok tbl bound p t0 b0 A w \<longleftrightarrow> ok w \<and> bound w = b0 \<and> A \<subseteq> dom (desired_table p) \<and>
     tbl w = (\<lambda>k. if k \<in> A then desired_table p k else t0 k)"

text \<open>
  What the endpoints phase needs of the snapshot the proxy took before: for every desired address
  it shows the destinations that \<open>t\<close> has, and nothing for an address created since.
\<close>

definition agrees :: "Proxier \<Rightarrow> ipvs_table \<Rightarrow> bool" where
  "agrees p t \<longleftrightarrow> (\<forall>k \<in> dom (desired_table p). t k = Some (set (gm_slice (p_kernelIpvsMap p) k))) \<and>
     (\<forall>k. \<forall>v \<in> set (gm_slice (p_kernelIpvsMap p) k). valid_val v)"

lemma snapshot_slices: "snapshot p t \<Longrightarrow> v \<in> set (gm_slice (p_kernelIpvsMap p) k) \<Longrightarrow> valid_val v"
  by (cases "gm_get (p_kernelIpvsMap p) k") (auto simp: snapshot_def gm_slice_def)

lemma snapshot_agrees:
  assumes "snapshot p t" and "dom t = dom (desired_table p)"
  shows "agrees p t"
proof -
  have "t k = Some (set (gm_slice (p_kernelIpvsMap p) k))" if "k \<in> dom (desired_table p)" for k
  proof -
    have "t k \<noteq> None" using that assms(2) by blast
    moreover have "t k = map_option set (gm_get (p_kernelIpvsMap p) k)" using assms(1) by (simp add: snapshot_def)
    ultimately show ?thesis by (cases "gm_get (p_kernelIpvsMap p) k") (simp_all add: gm_slice_def)
  qed
  with snapshot_slices [OF assms(1)] show ?thesis by (simp add: agrees_def)
qed

lemma fold_grow:
  assumes "\<And>x A w. x \<in> set xs \<Longrightarrow> P A w \<Longrightarrow> P (K x \<union> A) (f x w)" and "P A w"
  shows "P ((\<Union>x \<in> set xs. K x) \<union> A) (fold f xs w)"
  using assms
proof (induction xs arbitrary: A w)
  case (Cons x xs)
  have "P ((\<Union>x \<in> set xs. K x) \<union> (K x \<union> A)) (fold f xs (f x w))"
    using Cons.prems by (intro Cons.IH) auto
  moreover have "(\<Union>x \<in> set xs. K x) \<union> (K x \<union> A) = (\<Union>x \<in> set (x # xs). K x) \<union> A" by auto
  ultimately show ?case by simp
qed simp

context proxier_env
begin

lemma syncEndpointChange_inv:
  assumes i: "ep_inv ok tbl bound p t0 b0 A w" and snap: "agrees p t0"
    and p: "syncable p" "no_conflict p" "(n, i) \<in> set (p_serviceMap p)"
    and k: "vip_key i port ip \<in> set (service_keys p i)" "is_v4 ip" "is_port port"
  shows "ep_inv ok tbl bound p t0 b0 ({vip_key i port ip} \<union> A) (syncEndpointChange env p ip port i n w)"
proof -
  let ?k = "vip_key i port ip" and ?N = "eps_vals p n" and ?O = "gm_slice (p_kernelIpvsMap p) (vip_key i port ip)"
  note e = syncable_entry [OF p(1,3)] and d = desired_table_key [OF p(2,3) k(1)]
  have s: "valid_service (ipvs_service env ip port i)"
    using k(2,3) e(1) by (intro valid_ipvs_service) (auto simp: valid_info_def)
  have w: "ok w" "bound w = b0" "tbl w = (\<lambda>k. if k \<in> A then desired_table p k else t0 k)"
    "A \<subseteq> dom (desired_table p)" using i by (auto simp: ep_inv_def)
  have vs: "t0 ?k = Some (set ?O)" and v: "\<forall>x \<in> set ?O. valid_val x"
    using snap d by (auto simp: agrees_def)
  define S where "S = (if ?k \<in> A then ?N else set ?O)"
  have S: "tbl w ?k = Some S" using w(3) d vs by (simp add: S_def)
  have eq: "(S \<union> (?N - set ?O)) - (set ?O - ?N) = ?N" unfolding S_def by auto
  let ?w = "syncEndpointChange env p ip port i n w"
  have sw: "?w = CreateEndpointRule (pe_ipvs env) p (ipvs_service env ip port i) n ?O w"
    by (simp add: syncEndpointChange_def Let_def svc_key_def [symmetric])
  have "ok ?w" "bound ?w = bound w" "tbl ?w = (tbl w)(?k \<mapsto> ?N)"
    using CreateEndpointRule_table [OF w(1) s _ v e(2), of S] S unfolding sw Let_def
    by (auto simp: eq)
  with w d show ?thesis by (auto simp: ep_inv_def fun_eq_iff)
qed

lemma sync_endpoints_of_inv:
  assumes i: "ep_inv ok tbl bound p t0 b0 A w" and snap: "agrees p t0" and p: "syncable p" "no_conflict p"
  shows "ep_inv ok tbl bound p t0 b0 (keys_of p n \<union> A) (sync_endpoints_of env p n w)"
proof (cases "gm_get (p_serviceMap p) n")
  case None
  with i show ?thesis by (simp add: sync_endpoints_of_def keys_of_def)
next
  case (Some i)
  then have m: "(n, i) \<in> set (p_serviceMap p)" by (rule map_of_SomeD)
  have v: "is_v4 (si_ClusterIP i)" "is_port (si_Port i)" "is_port (si_NodePort i)"
    "\<And>x. x \<in> set (si_ExternalIPs i) \<Longrightarrow> is_v4 (ParseIP x)" "\<And>x. x \<in> set (p_nodeIPs p) \<Longrightarrow> is_v4 x"
    using syncable_entry(1) [OF p(1) m] p(1) by (auto simp: valid_info_def list_all_iff syncable_def)
  note step = syncEndpointChange_inv [OF _ snap p m]
  let ?P = "ep_inv ok tbl bound p t0 b0"
  let ?w1 = "syncEndpointChange env p (si_ClusterIP i) (si_Port i) i n w"
  let ?K1 = "{vip_key i (si_Port i) (si_ClusterIP i)} \<union> A"
  let ?w2 = "fold (\<lambda>x. syncEndpointChange env p (ParseIP x) (si_Port i) i n) (si_ExternalIPs i) ?w1"
  let ?K2 = "(\<Union>x \<in> set (si_ExternalIPs i). {vip_key i (si_Port i) (ParseIP x)}) \<union> ?K1"
  have 1: "?P ?K1 ?w1" using step [OF i service_keysI(1)] v by blast
  have 2: "?P ?K2 ?w2"
    by (rule fold_grow [where P = ?P]) (use step service_keysI(2) v 1 in blast)+
  let ?w3 = "fold (\<lambda>x. syncEndpointChange env p x (si_NodePort i) i n) (p_nodeIPs p) ?w2"
  have 3: "?P ((\<Union>x \<in> set (p_nodeIPs p). {vip_key i (si_NodePort i) x}) \<union> ?K2) ?w3" if "si_NodePort i \<noteq> 0"
    by (rule fold_grow [where P = ?P]) (use step service_keysI(3) [OF that] v 2 in blast)+
  have k: "keys_of p n \<union> A = (if si_NodePort i \<noteq> 0
      then (\<Union>x \<in> set (p_nodeIPs p). {vip_key i (si_NodePort i) x}) \<union> ?K2 else ?K2)"
    using Some by (auto simp: keys_of_def service_keys_def)
  show ?thesis unfolding k using 2 3 Some by (simp add: sync_endpoints_of_def Let_def)
qed

lemma sync_endpoints_change_inv:
  assumes i: "ep_inv ok tbl bound p t0 b0 A w" and snap: "agrees p t0" and p: "syncable p" "no_conflict p"
  shows "ep_inv ok tbl bound p t0 b0 ((\<Union>n \<in> changed_names ch. keys_of p n) \<union> A) (sync_endpoints_change env p ch w)"
proof -
  let ?P = "ep_inv ok tbl bound p t0 b0"
  note step = sync_endpoints_of_inv [OF _ snap p]
  let ?c = "range_map (ec_Current ch)" and ?o = "range_map (ec_Previous ch)"
  let ?K = "\<lambda>x. if gm_has ?c (fst x) then {} else keys_of p (fst x)"
  let ?w1 = "fold (\<lambda>(n, _) w. if gm_has ?c n then w else sync_endpoints_of env p n w) ?o w"
  have 1: "?P ((\<Union>x \<in> set ?o. ?K x) \<union> A) ?w1"
    using step by (intro fold_grow [where P = ?P] i) (auto split: prod.splits)
  have "?P ((\<Union>x \<in> set ?c. keys_of p (fst x)) \<union> ((\<Union>x \<in> set ?o. ?K x) \<union> A))
      (fold (\<lambda>(n, _). sync_endpoints_of env p n) ?c ?w1)"
    by (rule fold_grow [where P = ?P and K = "\<lambda>x. keys_of p (fst x)", OF _ 1]) (simp add: step split_beta)
  moreover have "(\<Union>x \<in> set ?c. keys_of p (fst x)) \<union> ((\<Union>x \<in> set ?o. ?K x) \<union> A) =
      (\<Union>n \<in> changed_names ch. keys_of p n) \<union> A"
  proof -
    have "gm_has ?c n \<longleftrightarrow> n \<in> fst ` set ?c" for n by (simp add: map_of_eq_None_iff)
    then show ?thesis unfolding changed_names_def by force
  qed
  ultimately show ?thesis by (simp add: sync_endpoints_change_def Let_def)
qed

end

lemma merge_other: "k \<notin> fst ` set (range_map o') \<Longrightarrow> map_of (ProxyEndpointMap_merge em o') k = map_of em k"
proof -
  have "k \<notin> fst ` set xs \<Longrightarrow> map_of (fold (\<lambda>(n, eps) em. gm_put em n eps) xs em) k = map_of em k"
    for xs :: ProxyEndpointMap by (induction xs arbitrary: em) auto
  then show "k \<notin> fst ` set (range_map o') \<Longrightarrow> ?thesis" by (simp add: ProxyEndpointMap_merge_def)
qed

lemma UpdateEndpointsMap_other:
  assumes "k \<notin> (\<Union>(_, ch) \<in> set items. changed_names ch)"
  shows "map_of (fst (UpdateEndpointsMap em items)) k = map_of em k"
proof -
  have "map_of (fst (fold (\<lambda>(_, ch). apply_endpoints_change ch) items s)) k = map_of (fst s) k" for s
    using assms
  proof (induction items arbitrary: s)
    case (Cons it items)
    obtain n ch where it: "it = (n, ch)" by (cases it)
    with Cons.prems have "k \<notin> changed_names ch" by auto
    then have "map_of (fst (apply_endpoints_change ch s)) k = map_of (fst s) k"
      by (cases s) (simp add: apply_endpoints_change_def changed_names_def merge_other ProxyEndpointMap_unmerge_map)
    with Cons it show ?case by auto
  qed simp
  from this [of "(em, [], [])"] show ?thesis by (simp add: UpdateEndpointsMap_def split_beta)
qed

context proxier_env
begin

text \<open>The addresses of unchanged service ports keep their destinations.\<close>

lemma unchanged_keys:
  assumes q: "p_serviceMap q = p_serviceMap p" "p_nodeIPs q = p_nodeIPs p" "wf_gomap (p_serviceMap p)" "no_conflict q"
    and e: "\<And>n. n \<notin> N \<Longrightarrow> map_of (p_endpointsMap q) n = map_of (p_endpointsMap p) n"
    and k: "k \<notin> (\<Union>n \<in> N. keys_of q n)"
  shows "desired_table p k = desired_table q k"
proof (cases "desired_table p k")
  case None
  have "service_keys q i = service_keys p i" for i using q(2) by (simp add: service_keys_def)
  then have "dom (desired_table q) = dom (desired_table p)" using q(1) by (simp add: desired_table_dom)
  with None show ?thesis by (metis domIff)
next
  case (Some S)
  from desired_table_owner [OF Some] obtain n i where
    n: "(n, i) \<in> set (p_serviceMap p)" "k \<in> set (service_keys p i)" "S = eps_vals p n" .
  have keys: "service_keys q i = service_keys p i" using q(2) by (simp add: service_keys_def)
  have "keys_of q n = set (service_keys p i)"
    using n(1) q(1,3) keys by (simp add: keys_of_def wf_gomap_mem)
  with k n(2) have "n \<notin> N" by blast
  then have "eps_vals q n = S" using n(3) e by (simp add: eps_vals_def gm_slice_def)
  moreover have "desired_table q k = Some (eps_vals q n)"
    using n q(1) keys by (intro desired_table_key [OF q(4)]) auto
  ultimately show ?thesis using Some by simp
qed

text \<open>The loop over all pending endpoints changes.\<close>

lemma sync_endpoints_changes:
  assumes "ok w" and "agrees p (tbl w)" and p: "syncable p" "no_conflict p"
  shows "ep_inv ok tbl bound p (tbl w) (bound w) (\<Union>(_, ch) \<in> set items. \<Union>n \<in> changed_names ch. keys_of p n)
    (fold (\<lambda>(_, ch). sync_endpoints_change env p ch) items w)"
proof -
  have "ep_inv ok tbl bound p (tbl w) (bound w) {} w" using assms(1) by (simp add: ep_inv_def)
  from fold_grow [where P = "ep_inv ok tbl bound p (tbl w) (bound w)" and f = "\<lambda>(_, ch). sync_endpoints_change env p ch"
      and K = "\<lambda>(_, ch). \<Union>n \<in> changed_names ch. keys_of p n" and xs = items, OF _ this]
  show ?thesis using sync_endpoints_change_inv [OF _ assms(2) p] by (auto split: prod.splits)
qed

lemma endpoints_sync_table:
  assumes w: "ok w" "p_endpointsSynced p" "p_servicesSynced p"
    and items: "p_serviceChanges p = []" "ecm_Items (p_endpointsChanges p) \<noteq> []"
    and ips: "\<And>w. ok w \<Longrightarrow> pe_GetNodeIPs env (pe_ipvs env) w = Inr (p_nodeIPs p)"
    and conv: "tbl w = desired_table p" and wf: "wf_gomap (p_serviceMap p)"
    and q: "q = updated p (p_nodeIPs p)" "syncable q" "no_conflict q"
  shows "\<exists>p' w'. syncProxyRules env p w = Some (p', w') \<and> ok w' \<and> tbl w' = desired_table q \<and> bound w' = bound w \<and>
    same_input p' q \<and> ecm_Items (p_endpointsChanges p') = [] \<and> p_portsMap p' = []"
proof -
  let ?items = "ecm_Items (p_endpointsChanges p)"
  from sync_start [OF w ips] obtain p1 w1 stale eps where
    1: "ok w1" "tbl w1 = tbl w" "bound w1 = bound w" "snapshot p1 (tbl w1)" "same_input p1 q"
      "p_serviceChanges p1 = p_serviceChanges p" "p_endpointsChanges p1 = p_endpointsChanges p"
      "syncProxyRules env p w = map_option (\<lambda>(q, st). finish_sync env stale eps q st) (sync_phases env link p1 w1)"
    unfolding q(1) by metis
  note spec = same_input_spec [OF 1(5)]
  have q_p: "p_serviceMap p1 = p_serviceMap p" "p_nodeIPs p1 = p_nodeIPs p"
    "p_endpointsMap p1 = fst (UpdateEndpointsMap (p_endpointsMap p) ?items)"
    using 1(5) items(1) by (simp_all add: q(1) updated_def same_input_def)
  let ?N = "\<Union>(_, ch) \<in> set ?items. changed_names ch"
  have same_k: "desired_table p k = desired_table p1 k" if "k \<notin> (\<Union>n \<in> ?N. keys_of p1 n)" for k
    using q_p(1,2) wf _ _ that
  proof (rule unchanged_keys)
    show "no_conflict p1" using q(3) spec(4) by simp
    show "n \<notin> ?N \<Longrightarrow> map_of (p_endpointsMap p1) n = map_of (p_endpointsMap p) n" for n
      unfolding q_p(3) by (rule UpdateEndpointsMap_other)
  qed
  have dom: "dom (tbl w1) = dom (desired_table p1)"
    unfolding 1(2) conv desired_table_dom q_p(1) service_keys_def q_p(2) ..
  let ?w = "fold (\<lambda>(_, ch). sync_endpoints_change env p1 ch) ?items w1"
  let ?A = "\<Union>(_, ch) \<in> set ?items. \<Union>n \<in> changed_names ch. keys_of p1 n"
  have "ep_inv ok tbl bound p1 (tbl w1) (bound w1) ?A ?w"
    using sync_endpoints_changes [OF 1(1) snapshot_agrees [OF 1(4) dom]] q(2,3) spec(3,4) by simp
  moreover have "?A = (\<Union>n \<in> ?N. keys_of p1 n)" by auto
  ultimately have r: "ok ?w" "bound ?w = bound w1" "tbl ?w = desired_table q"
    using same_k spec(1) unfolding ep_inv_def 1(2) conv by (auto simp: fun_eq_iff)
  let ?q = "p1\<lparr>p_endpointsChanges := (p_endpointsChanges p1)\<lparr>ecm_Items := []\<rparr>\<rparr>"
  let ?st = "\<lparr>sy_w = ?w, sy_ports = [], sy_active = [], sy_bind = []\<rparr>"
  have "sync_phases env link p1 w1 = Some (?q, ?st)"
    using 1(6,7) items by (simp add: sync_phases_def)
  moreover obtain p' w' where f: "finish_sync env stale eps ?q ?st = (p', w')" by fastforce
  ultimately have "syncProxyRules env p w = Some (p', w')" using 1(8) by simp
  with sync_finish [OF _ f] r 1(3,5) show ?thesis by (auto simp: same_input_def)
qed

end

section \<open>Service changes\<close>

definition map_keys :: "Proxier \<Rightarrow> ProxyServiceMap option \<Rightarrow> activeServiceKey set" where
  "map_keys p m = (\<Union>(_, i) \<in> set (range_map m). set (service_keys p i))"

text \<open>What one service change does to the table: old addresses go, new ones come without destinations.\<close>

definition change_table :: "Proxier \<Rightarrow> ServiceChange \<Rightarrow> ipvs_table \<Rightarrow> ipvs_table" where
  "change_table p ch t k =
     (if k \<in> map_keys p (sc_Current ch) then
        (if k \<in> map_keys p (sc_Previous ch) then Some {}
         else Some (case t k of None \<Rightarrow> {} | Some S \<Rightarrow> S))
      else if k \<in> map_keys p (sc_Previous ch) then None else t k)"

definition with_keys :: "activeServiceKey set \<Rightarrow> ipvs_table \<Rightarrow> ipvs_table" where
  "with_keys K t k = (if k \<in> K \<and> t k = None then Some {} else t k)"

lemma with_keys_Un: "with_keys (K \<union> L) t = with_keys L (with_keys K t)"
  by (auto simp: with_keys_def fun_eq_iff)

lemma with_keys_empty [simp]: "with_keys {} t = t"
  by (simp add: with_keys_def fun_eq_iff)

definition valid_infos :: "ProxyServiceMap option \<Rightarrow> bool" where
  "valid_infos m \<longleftrightarrow> list_all (\<lambda>(_, i). valid_info i) (range_map m)"

text \<open>A step that adds the keys \<open>K\<close> to the table, if they are missing, and the addresses \<open>B\<close> to the link.\<close>

definition creates ::
  "('w \<Rightarrow> bool) \<Rightarrow> ('w \<Rightarrow> ipvs_table) \<Rightarrow> ('w \<Rightarrow> string set) \<Rightarrow> activeServiceKey set \<Rightarrow> string set
   \<Rightarrow> ('w sync_state \<Rightarrow> 'w sync_state option) \<Rightarrow> bool" where
  "creates ok tbl bound K B f \<longleftrightarrow> (\<forall>st. ok (sy_w st) \<longrightarrow> (\<exists>st'. f st = Some st' \<and> ok (sy_w st') \<and>
     tbl (sy_w st') = with_keys K (tbl (sy_w st)) \<and> bound (sy_w st') = B \<union> bound (sy_w st)))"

lemma creates_bind:
  fixes ok :: "'w \<Rightarrow> bool"
  assumes "creates ok tbl bound K B f" "creates ok tbl bound L C g"
  shows "creates ok tbl bound (K \<union> L) (B \<union> C) (\<lambda>st. Option.bind (f st) g)"
  unfolding creates_def
proof (intro allI impI)
  fix st :: "'w sync_state" assume "ok (sy_w st)"
  with assms(1) obtain st1 where 1: "f st = Some st1" "ok (sy_w st1)"
    "tbl (sy_w st1) = with_keys K (tbl (sy_w st))" "bound (sy_w st1) = B \<union> bound (sy_w st)"
    unfolding creates_def by blast
  with assms(2) obtain st2 where 2: "g st1 = Some st2" "ok (sy_w st2)"
    "tbl (sy_w st2) = with_keys L (tbl (sy_w st1))" "bound (sy_w st2) = C \<union> bound (sy_w st1)"
    unfolding creates_def by blast
  have "bound (sy_w st2) = B \<union> C \<union> bound (sy_w st)" using 1(4) 2(4) by blast
  with 1 2 show "\<exists>st'. Option.bind (f st) g = Some st' \<and> ok (sy_w st') \<and>
     tbl (sy_w st') = with_keys (K \<union> L) (tbl (sy_w st)) \<and> bound (sy_w st') = B \<union> C \<union> bound (sy_w st)"
    by (simp add: with_keys_Un)
qed

lemma creates_Some: "creates ok tbl bound {} {} Some"
  by (simp add: creates_def)

lemma creates_foldM:
  assumes "\<And>x. x \<in> set xs \<Longrightarrow> creates ok tbl bound (K x) (B x) (f x)"
  shows "creates ok tbl bound (\<Union>x \<in> set xs. K x) (\<Union>x \<in> set xs. B x) (foldM f xs)"
  using assms
proof (induction xs)
  case Nil
  have "foldM f [] = Some" by (simp add: fun_eq_iff)
  then show ?case using creates_Some by simp
next
  case (Cons x xs)
  have "foldM f (x # xs) = (\<lambda>st. Option.bind (f x st) (foldM f xs))" by (simp add: fun_eq_iff)
  with creates_bind [OF Cons.prems Cons.IH] Cons.prems show ?case by simp
qed

context proxier_env
begin

abbreviation adds :: "activeServiceKey set \<Rightarrow> string set \<Rightarrow> ('w sync_state \<Rightarrow> 'w sync_state option) \<Rightarrow> bool" where
  "adds \<equiv> creates ok tbl bound"

lemma create_service_adds:
  assumes "is_v4 ip" "is_port port" "is_proto (si_Protocol i)"
  shows "adds {vip_key i port ip} {} (create_service env (ipvs_service env ip port i))"
  unfolding creates_def
proof (intro allI impI)
  fix st :: "'w sync_state" assume w: "ok (sy_w st)"
  from CreateServiceRule_table [OF w valid_ipvs_service [OF assms, of env], of False] obtain w' where
    "CreateServiceRule (pe_ipvs env) False (ipvs_service env ip port i) (sy_w st) = Some (None, w')" "ok w'"
    "bound w' = bound (sy_w st)"
    "tbl w' = (if vip_key i port ip \<in> dom (tbl (sy_w st)) then tbl (sy_w st) else (tbl (sy_w st))(vip_key i port ip \<mapsto> {}))"
    by auto
  then show "\<exists>st'. create_service env (ipvs_service env ip port i) st = Some st' \<and> ok (sy_w st') \<and>
     tbl (sy_w st') = with_keys {vip_key i port ip} (tbl (sy_w st)) \<and> bound (sy_w st') = {} \<union> bound (sy_w st)"
    by (auto simp: create_service_def with_keys_def fun_eq_iff domIff)
qed

lemma hold_adds:
  assumes free: "ports_free ok env" and "adds K B f"
    and "\<And>st. ok (sy_w st) \<Longrightarrow> \<exists>held st'. hold st = (held, st') \<and> ok (sy_w st') \<and>
      tbl (sy_w st') = tbl (sy_w st) \<and> bound (sy_w st') = bound (sy_w st) \<and>
      sy_bind st' = sy_bind st \<and> sy_active st' = sy_active st \<and> (ports_free ok env \<longrightarrow> held)"
  shows "adds K B (\<lambda>st. case hold st of (False, st1) \<Rightarrow> Some st1 | (True, st1) \<Rightarrow> f st1)"
  unfolding creates_def
proof (intro allI impI)
  fix st :: "'w sync_state" assume "ok (sy_w st)"
  from assms(3) [OF this] free obtain st1 where h: "hold st = (True, st1)" "ok (sy_w st1)"
    "tbl (sy_w st1) = tbl (sy_w st)" "bound (sy_w st1) = bound (sy_w st)" by auto
  with assms(2) show "\<exists>st'. (case hold st of (False, st1) \<Rightarrow> Some st1 | (True, st1) \<Rightarrow> f st1) = Some st' \<and>
     ok (sy_w st') \<and> tbl (sy_w st') = with_keys K (tbl (sy_w st)) \<and> bound (sy_w st') = B \<union> bound (sy_w st)"
    unfolding creates_def by auto
qed

lemma add_current_adds:
  assumes free: "ports_free ok env" and i: "valid_info i" and ips: "list_all is_v4 (p_nodeIPs p)"
  shows "adds (set (service_keys p i)) {IP_String (si_ClusterIP i)} (add_current env p link (n, i))"
proof -
  have v: "is_v4 (si_ClusterIP i)" "is_port (si_Port i)" "is_port (si_NodePort i)" "is_proto (si_Protocol i)"
    "\<And>x. x \<in> set (si_ExternalIPs i) \<Longrightarrow> is_v4 (ParseIP x)" "\<And>x. x \<in> set (p_nodeIPs p) \<Longrightarrow> is_v4 x"
    using i ips by (auto simp: valid_info_def list_all_iff)
  let ?bind = "\<lambda>st. Some (st\<lparr>sy_w := snd (i_AddDummyClusterIp (pe_ipvs env) (si_ClusterIP i) link (sy_w st)),
      sy_bind := str_insert (IP_String (si_ClusterIP i)) (sy_bind st)\<rparr>)"
  have b: "adds {} {IP_String (si_ClusterIP i)} ?bind"
    using add_addr [OF _ v(1)] unfolding creates_def by fastforce
  have x: "adds {vip_key i (si_Port i) (ParseIP x)} {} (add_external env p n i x)" if "x \<in> set (si_ExternalIPs i)" for x
    using hold_adds [OF free create_service_adds [OF v(5) [OF that] v(2,4)] hold_external_keeps [OF _ v(4)]]
    unfolding add_external_def by (rule back_subst [of "adds _ _"]) (auto simp: fun_eq_iff)
  have nps: "adds (\<Union>ip \<in> set (p_nodeIPs p). {vip_key i (si_NodePort i) ip}) (\<Union>ip \<in> set (p_nodeIPs p). {})
      (foldM (\<lambda>ip. create_service env (ipvs_service env ip (si_NodePort i) i)) (p_nodeIPs p))"
    using v by (intro creates_foldM create_service_adds) auto
  have np: "adds (if si_NodePort i \<noteq> 0 then vip_key i (si_NodePort i) ` set (p_nodeIPs p) else {}) {}
      (add_nodeport env p n i)"
  proof (cases "si_NodePort i = 0")
    case True
    then have "add_nodeport env p n i = Some" by (simp add: add_nodeport_def fun_eq_iff)
    with True creates_Some show ?thesis by simp
  next
    case False
    with hold_adds [OF free nps hold_nodeport_keeps [OF _ v(4)]] show ?thesis
      unfolding add_nodeport_def by (simp add: UNION_singleton_eq_range)
  qed
  let ?rest = "\<lambda>st. Option.bind (create_service env (ipvs_service env (si_ClusterIP i) (si_Port i) i) st)
    (\<lambda>st. Option.bind (foldM (add_external env p n i) (si_ExternalIPs i) st) (add_nodeport env p n i))"
  let ?K = "{} \<union> ({vip_key i (si_Port i) (si_ClusterIP i)} \<union>
    ((\<Union>x \<in> set (si_ExternalIPs i). {vip_key i (si_Port i) (ParseIP x)}) \<union>
     (if si_NodePort i \<noteq> 0 then vip_key i (si_NodePort i) ` set (p_nodeIPs p) else {})))"
  let ?B = "{IP_String (si_ClusterIP i)} \<union> ({} \<union> ((\<Union>x \<in> set (si_ExternalIPs i). {}) \<union> {}))"
  have "adds ?K ?B (\<lambda>st. Option.bind (?bind st) ?rest)"
    by (intro creates_bind b create_service_adds v creates_foldM x np)
  moreover have "?K = set (service_keys p i)" by (auto simp: service_keys_def)
  moreover have "?B = {IP_String (si_ClusterIP i)}" by simp
  moreover have "add_current env p link (n, i) st = Option.bind (?bind st) ?rest" if "ok (sy_w st)" for st
    using add_addr [OF that v(1)] by (auto simp: add_current_def)
  ultimately show ?thesis unfolding creates_def by metis
qed

end

context proxier_env
begin

lemma deleteIpvsService_table:
  assumes "ok w" "is_v4 ip" "is_port port" "is_proto (si_Protocol i)"
  shows "ok (deleteIpvsService env ip port i w) \<and> bound (deleteIpvsService env ip port i w) = bound w \<and>
    tbl (deleteIpvsService env ip port i w) = tbl w |` (- {vip_key i port ip})"
  using del_service [OF assms(1) valid_ipvs_service [OF assms(2-4), of env]]
  by (auto simp: deleteIpvsService_def restrict_map_def fun_eq_iff)

text \<open>The state of the deletion loops: exactly the keys in \<open>A\<close> are gone.\<close>

lemma delete_previous_table:
  assumes i: "valid_info i" and ips: "list_all is_v4 (p_nodeIPs p)"
    and w: "ok w \<and> bound w = b \<and> tbl w = t |` (- A)"
  shows "ok (delete_previous env p i w) \<and> bound (delete_previous env p i w) = b \<and>
    tbl (delete_previous env p i w) = t |` (- (set (service_keys p i) \<union> A))"
proof -
  let ?P = "\<lambda>A w. ok w \<and> bound w = b \<and> tbl w = t |` (- A)"
  have v: "is_v4 (si_ClusterIP i)" "is_port (si_Port i)" "is_port (si_NodePort i)" "is_proto (si_Protocol i)"
    "\<And>x. x \<in> set (si_ExternalIPs i) \<Longrightarrow> is_v4 (ParseIP x)" "\<And>x. x \<in> set (p_nodeIPs p) \<Longrightarrow> is_v4 x"
    using i ips by (auto simp: valid_info_def list_all_iff)
  have step: "?P ({vip_key i port ip} \<union> A) (deleteIpvsService env ip port i w)"
    if "?P A w" "is_v4 ip" "is_port port" for A w port ip
  proof -
    have "- A \<inter> - {vip_key i port ip} = - ({vip_key i port ip} \<union> A)" by blast
    with deleteIpvsService_table [OF _ that(2,3) v(4)] that(1) show ?thesis by simp
  qed
  let ?w1 = "deleteIpvsService env (si_ClusterIP i) (si_Port i) i w"
  let ?K1 = "{vip_key i (si_Port i) (si_ClusterIP i)} \<union> A"
  let ?w2 = "fold (\<lambda>x. deleteIpvsService env (ParseIP x) (si_Port i) i) (si_ExternalIPs i) ?w1"
  let ?K2 = "(\<Union>x \<in> set (si_ExternalIPs i). {vip_key i (si_Port i) (ParseIP x)}) \<union> ?K1"
  have 1: "?P ?K1 ?w1" using step [OF w v(1,2)] .
  have 2: "?P ?K2 ?w2" by (rule fold_grow [where P = ?P, OF _ 1]) (rule step [OF _ v(5) v(2)])
  let ?w3 = "fold (\<lambda>x. deleteIpvsService env x (si_NodePort i) i) (p_nodeIPs p) ?w2"
  have 3: "?P ((\<Union>x \<in> set (p_nodeIPs p). {vip_key i (si_NodePort i) x}) \<union> ?K2) ?w3"
    by (rule fold_grow [where P = ?P, OF _ 2]) (rule step [OF _ v(6) v(3)])
  have k: "set (service_keys p i) \<union> A = (if si_NodePort i \<noteq> 0
      then (\<Union>x \<in> set (p_nodeIPs p). {vip_key i (si_NodePort i) x}) \<union> ?K2 else ?K2)"
    by (auto simp: service_keys_def)
  show ?thesis unfolding k using 2 3 by (simp add: delete_previous_def Let_def)
qed

lemma sync_service_change_table:
  assumes free: "ports_free ok env" and ips: "list_all is_v4 (p_nodeIPs p)" and w: "ok (sy_w st)"
    and v: "valid_infos (sc_Previous ch)" "valid_infos (sc_Current ch)"
  shows "\<exists>st'. sync_service_change env p link ch st = Some st' \<and> ok (sy_w st') \<and>
    tbl (sy_w st') = change_table p ch (tbl (sy_w st)) \<and>
    bound (sy_w st') = (\<lambda>(_, i). IP_String (si_ClusterIP i)) ` set (range_map (sc_Current ch)) \<union> bound (sy_w st)"
proof -
  let ?P = "\<lambda>A w. ok w \<and> bound w = bound (sy_w st) \<and> tbl w = tbl (sy_w st) |` (- A)"
  let ?o = "range_map (sc_Previous ch)" and ?c = "range_map (sc_Current ch)"
  let ?w = "fold (\<lambda>(_, i). delete_previous env p i) ?o (sy_w st)"
  have "?P {} (sy_w st)" using w by (simp add: restrict_map_def)
  from fold_grow [where P = ?P and f = "\<lambda>(_, i). delete_previous env p i" and xs = ?o
      and K = "\<lambda>(_, i). set (service_keys p i)", OF _ this]
  have d: "?P (map_keys p (sc_Previous ch)) ?w"
    using delete_previous_table [OF _ ips] v(1)
    by (auto simp: map_keys_def valid_infos_def list_all_iff split: prod.splits)
  have "adds (\<Union>x \<in> set ?c. set (service_keys p (snd x))) (\<Union>x \<in> set ?c. {IP_String (si_ClusterIP (snd x))})
      (foldM (add_current env p link) ?c)"
  proof (rule creates_foldM)
    show "adds (set (service_keys p (snd x))) {IP_String (si_ClusterIP (snd x))} (add_current env p link x)"
      if "x \<in> set ?c" for x
      using add_current_adds [OF free _ ips, of "snd x" "fst x"] v(2) that
      by (auto simp: valid_infos_def list_all_iff)
  qed
  then obtain st' where "foldM (add_current env p link) ?c (st\<lparr>sy_w := ?w\<rparr>) = Some st'" "ok (sy_w st')"
    "tbl (sy_w st') = with_keys (map_keys p (sc_Current ch)) (tbl ?w)"
    "bound (sy_w st') = (\<Union>x \<in> set ?c. {IP_String (si_ClusterIP (snd x))}) \<union> bound ?w"
    using d unfolding creates_def map_keys_def split_beta
    by (metis (no_types, lifting) sync_state.select_convs(1) sync_state.surjective sync_state.update_convs(1))
  moreover have "with_keys (map_keys p (sc_Current ch)) (tbl ?w) = change_table p ch (tbl (sy_w st))"
    using d by (auto simp: with_keys_def change_table_def restrict_map_def fun_eq_iff split: option.splits)
  ultimately show ?thesis using d by (auto simp: sync_service_change_def split_beta)
qed

lemma service_sync_table:
  assumes w: "ok w" "p_endpointsSynced p" "p_servicesSynced p"
    and items: "p_serviceChanges p = [(nn, ch)]" "ecm_Items (p_endpointsChanges p) = []"
    and ips: "\<And>w. ok w \<Longrightarrow> pe_GetNodeIPs env (pe_ipvs env) w = Inr ips" "list_all is_v4 ips"
    and v: "valid_infos (sc_Previous ch)" "valid_infos (sc_Current ch)" and free: "ports_free ok env"
  shows "\<exists>p' w'. syncProxyRules env p w = Some (p', w') \<and> ok w' \<and> p_serviceChanges p' = [] \<and>
    same_input p' (updated p ips) \<and> tbl w' = change_table (updated p ips) ch (tbl w) \<and>
    bound w' = (\<lambda>(_, i). IP_String (si_ClusterIP i)) ` set (range_map (sc_Current ch)) \<union> bound w"
proof -
  from sync_start [OF w ips(1)] obtain p1 w1 stale eps where
    1: "ok w1" "tbl w1 = tbl w" "bound w1 = bound w" "same_input p1 (updated p ips)"
      "p_serviceChanges p1 = p_serviceChanges p" "p_endpointsChanges p1 = p_endpointsChanges p"
      "syncProxyRules env p w = map_option (\<lambda>(q, st). finish_sync env stale eps q st) (sync_phases env link p1 w1)"
    by metis
  have n: "p_nodeIPs p1 = ips" using 1(4) by (simp add: same_input_def updated_def)
  let ?st = "\<lparr>sy_w = w1, sy_ports = [], sy_active = [], sy_bind = []\<rparr>"
  obtain st where s: "sync_service_change env p1 link ch ?st = Some st" "ok (sy_w st)"
    "tbl (sy_w st) = change_table p1 ch (tbl w1)"
    "bound (sy_w st) = (\<lambda>(_, i). IP_String (si_ClusterIP i)) ` set (range_map (sc_Current ch)) \<union> bound w1"
    using sync_service_change_table [OF free, of p1 ?st ch] ips(2) n 1(1) v by auto
  let ?q = "p1\<lparr>p_serviceChanges := []\<rparr>"
  have "sync_phases env link p1 w1 = Some (?q, st)"
    using 1(5,6) items s(1) by (simp add: sync_phases_def)
  moreover obtain p' w' where f: "finish_sync env stale eps ?q st = (p', w')" by fastforce
  ultimately have sy: "syncProxyRules env p w = Some (p', w')" using 1(7) by simp
  have "service_keys p1 = service_keys (updated p ips)"
    using n by (simp add: fun_eq_iff service_keys_def updated_def)
  then have "change_table p1 ch = change_table (updated p ips) ch"
    by (simp add: fun_eq_iff change_table_def map_keys_def)
  with sy sync_finish [OF s(2) f] s 1 show ?thesis by (auto simp: same_input_def)
qed

end

context proxy_os
begin

lemma os_GetNodeIPs:
  "pe_GetNodeIPs (NewProxier_env h net execer recorder roundRobin)
     (pe_ipvs (NewProxier_env h net execer recorder roundRobin)) w = GetNodeIPs net (EnnIpvs h) w"
  by (simp add: NewProxier_env_def)

lemmas os_endpoints_sync = px.endpoints_sync_table [unfolded os_GetNodeIPs]

lemmas os_service_sync = px.service_sync_table [unfolded os_GetNodeIPs]

end

section \<open>Properties\<close>

text \<open>
  (C10) The incremental endpoints sync keeps convergence.  When the IPVS table is the desired one
  for the current maps and only endpoints changes are pending, one sync returns with the pending
  changes consumed and the table is the desired one for the updated endpoints: the addresses of
  the changed service ports get exactly their new endpoints and no other address changes.
\<close>

theorem endpoints_sync_converges:
  assumes "proxy_os h ok vs bound link net execer recorder" and "ok w"
    and "p_endpointsSynced p" and "p_servicesSynced p"
    and "p_serviceChanges p = []" and "ecm_Items (p_endpointsChanges p) \<noteq> []"
    and "\<And>w. ok w \<Longrightarrow> GetNodeIPs net (EnnIpvs h) w = Inr (p_nodeIPs p)"
    and "proxy_table (vs w) = desired_table p" and "wf_gomap (p_serviceMap p)"
    and "syncable (updated p (p_nodeIPs p))" and "no_conflict (updated p (p_nodeIPs p))"
  shows "\<exists>p' w'. syncProxyRules (NewProxier_env h net execer recorder rr) p w = Some (p', w') \<and>
    proxy_table (vs w') = desired_table (updated p (p_nodeIPs p)) \<and> bound w' = bound w \<and>
    ecm_Items (p_endpointsChanges p') = []"
  using proxy_os.os_endpoints_sync [OF assms(1-9) refl assms(10,11), of rr] by auto

definition ex_info0 :: ServiceInfo where "ex_info0 = ex_info\<lparr>si_NodePort := 0\<rparr>"

definition ex_eps :: "8 word \<Rightarrow> EndpointsInfo list" where
  "ex_eps b = [\<lparr>ei_Ip = dotted [10, 1, 1, b], ei_Port = 8080, ei_IsLocal = False\<rparr>]"

definition ex_moved :: Proxier where
  "ex_moved = ex_proxier\<lparr>p_serviceMap := [(ex_name, ex_info0)], p_endpointsMap := [(ex_name, ex_eps 1)],
     p_nodeIPs := ex_ips,
     p_endpointsChanges := \<lparr>ecm_Hostname = ''node1'', ecm_Items =
       [(ex_nsn, \<lparr>ec_Previous = Some [(ex_name, ex_eps 1)], ec_Current = Some [(ex_name, ex_eps 2)]\<rparr>)]\<rparr>\<rparr>"

definition ex_lib_service :: lib_Service where
  "ex_lib_service = \<lparr>ls_Address = [10, 0, 0, 1], ls_AddressFamily = 2, ls_Protocol = IPPROTO_TCP, ls_Port = 80,
     ls_SchedName = ''rr'', ls_Flags = 0, ls_Netmask = 0, ls_Timeout = 0\<rparr>"

definition ex_synced_world :: kworld where
  "ex_synced_world = \<lparr>kw_svcs = [(lib_key ex_lib_service, ex_lib_service,
       [\<lparr>ld_Address = [10, 1, 1, 1], ld_AddressFamily = 2, ld_Port = 8080, ld_Weight = 1\<rparr>])],
     kw_addrs = [[10, 0, 0, 1]], kw_link = True\<rparr>"

lemma ex_synced_ok: "ref_ok ex_synced_world"
  by (simp add: ref_ok_def ex_synced_world_def ref_entry_ok_def ex_lib_service_def lib_ok_def is_v4_def To4_def)

lemma ex_lib_key: "lib_key ex_lib_service = word_key (vip_key ex_info0 80 [10, 0, 0, 1])"
  by (simp add: lib_key_def ex_lib_service_def word_key_def vip_key_def ex_info0_def ex_info_def proto_number_def)

lemma ex_synced_table: "proxy_table (ref_vs ex_synced_world) = [vip_key ex_info0 80 [10, 0, 0, 1] \<mapsto> ep_val ` set (ex_eps 1)]"
proof -
  have v4: "is_v4 [10, 1, 1, 1]" by (simp add: is_v4_def To4_def)
  have "ref_vs ex_synced_world = Map.empty(word_key (vip_key ex_info0 80 [10, 0, 0, 1]) \<mapsto> {(dotted [10, 1, 1, 1], 8080)})"
    using IP_String_v4 [OF v4]
    by (simp add: ref_vs_def ex_synced_world_def ex_lib_key fun_eq_iff lib_val_def To4_def)
  moreover have "good_key (vip_key ex_info0 80 [10, 0, 0, 1])"
    by (simp add: good_key_def vip_key_def is_port_def is_proto_def ex_info0_def ex_info_def)
  moreover have "proxy_table Map.empty = Map.empty" by (simp add: proxy_table_def fun_eq_iff)
  ultimately show ?thesis
    by (simp add: proxy_table_upd int_val_def ep_val_def ex_eps_def)
qed

lemma ex_keys0: "service_keys p ex_info0 = [vip_key ex_info0 80 [10, 0, 0, 1]]"
  by (simp add: service_keys_def ex_info0_def ex_info_def)

lemma ex_moved_updated:
  "p_serviceMap (updated ex_moved ips) = [(ex_name, ex_info0)]"
  "p_endpointsMap (updated ex_moved ips) = [(ex_name, ex_eps 2)]" "p_nodeIPs (updated ex_moved ips) = ips"
  by (simp_all add: updated_def ex_moved_def ex_proxier_def UpdateEndpointsMap_def apply_endpoints_change_def
      ProxyEndpointMap_unmerge_def ProxyEndpointMap_merge_def range_map_def split_beta)

lemma ex_moved_valid: "syncable (updated ex_moved ex_ips)" "no_conflict (updated ex_moved ex_ips)"
proof -
  have "list_all is_v4 ex_ips" using ex_syncable(1) by (simp add: syncable_def)
  then show "syncable (updated ex_moved ex_ips)"
    by (simp add: syncable_def ex_moved_updated ex_info0_def valid_info_def ex_info_def is_v4_def To4_def is_port_def
        is_proto_def gm_slice_def valid_val_def ep_val_def ex_eps_def dotted_canonical)
  show "no_conflict (updated ex_moved ex_ips)" by (simp add: no_conflict_def ex_moved_updated)
qed

theorem endpoints_sync_converges_witness:
  "\<exists>p' w'. syncProxyRules ref_env ex_moved ex_synced_world = Some (p', w') \<and>
    proxy_table (ref_vs w') = desired_table (updated ex_moved (p_nodeIPs ex_moved)) \<and>
    ref_bound w' = ref_bound ex_synced_world \<and> ecm_Items (p_endpointsChanges p') = []"
proof -
  have n: "p_nodeIPs ex_moved = ex_ips" by (simp add: ex_moved_def)
  show ?thesis
    unfolding ref_env_def
    by (rule endpoints_sync_converges [OF refos.proxy_os_axioms ex_synced_ok])
      (simp_all add: n ex_node_ips ex_moved_valid ex_synced_table,
       simp_all add: ex_moved_def ex_proxier_def desired_table_def ex_keys0 eps_vals_def gm_slice_def)
qed


definition ex_affinity :: Proxier where
  "ex_affinity = ex_proxier\<lparr>p_serviceMap := [(ex_name, ex_info0)], p_endpointsMap := [(ex_name, ex_eps 1)],
     p_serviceChanges := [(ex_nsn, \<lparr>sc_Previous = Some [(ex_name, ex_info0)],
       sc_Current = Some [(ex_name, ex_info0\<lparr>si_SessionAffinity := True\<rparr>)]\<rparr>)]\<rparr>"


end
