(* ===== verification/Proxier_Events.thy ===== *)
theory Proxier_Events
  imports Proxier_Incremental
begin

text \<open>
  The event handlers of src/pkg/proxy/ipvs/proxier.go around \<^verbatim>\<open>syncProxyRules\<close>: what a sync
  keeps of the state, how events reach the maps, and when the proxier counts as initialized.
  These facts need no law of the kernel: they hold for every sync that returns.
\<close>

section \<open>What a sync keeps\<close>

lemma sync_phases_frame:
  assumes "sync_phases env link p w = Some (q, st)"
  shows "q = p\<lparr>p_serviceChanges := [], p_endpointsChanges := (p_endpointsChanges p)\<lparr>ecm_Items := []\<rparr>\<rparr>"
    and "p_serviceChanges p = [] \<Longrightarrow> ecm_Items (p_endpointsChanges p) \<noteq> [] \<Longrightarrow> sy_ports st = []"
  using assms by (auto simp: sync_phases_def Let_def bind_eq_Some_conv split: if_splits)

lemma BuildMaps_frame:
  "p_serviceMap (BuildClusterMap I l (BuildIpvsMap I p w) w) = p_serviceMap p"
  "p_endpointsMap (BuildClusterMap I l (BuildIpvsMap I p w) w) = p_endpointsMap p"
  "p_serviceChanges (BuildClusterMap I l (BuildIpvsMap I p w) w) = p_serviceChanges p"
  "p_endpointsChanges (BuildClusterMap I l (BuildIpvsMap I p w) w) = p_endpointsChanges p"
  "p_initialized (BuildClusterMap I l (BuildIpvsMap I p w) w) = p_initialized p"
  "p_endpointsSynced (BuildClusterMap I l (BuildIpvsMap I p w) w) = p_endpointsSynced p"
  "p_servicesSynced (BuildClusterMap I l (BuildIpvsMap I p w) w) = p_servicesSynced p"
  "p_portsMap (BuildClusterMap I l (BuildIpvsMap I p w) w) = p_portsMap p"
  by (simp_all add: BuildClusterMap_def BuildIpvsMap_def split: sum.splits)

lemma finish_sync_fst: "fst (finish_sync env stale eps p st) = p\<lparr>p_portsMap := sy_ports st\<rparr>"
  by (simp add: finish_sync_def Let_def)

text \<open>A sync that is not skipped applies the pending changes to both maps; no sync changes the flags.\<close>

lemma syncProxyRules_maps:
  assumes "syncProxyRules env p w = Some (p', w')" and "p_endpointsSynced p" "p_servicesSynced p"
  shows "p_serviceMap p' = fst (UpdateServiceMap (p_serviceMap p) (p_serviceChanges p))"
    and "p_endpointsMap p' = fst (UpdateEndpointsMap (p_endpointsMap p) (ecm_Items (p_endpointsChanges p)))"
  using assms
  by (auto simp: syncProxyRules_def Let_def split_beta bind_eq_Some_conv finish_sync_fst BuildMaps_frame
      dest!: sync_phases_frame(1) arg_cong [where f = fst and y = "(p', w')"]
      split: option.splits sum.splits if_splits)

lemma syncProxyRules_flags:
  assumes "syncProxyRules env p w = Some (p', w')"
  shows "p_initialized p' = p_initialized p"
    and "p_endpointsSynced p' = p_endpointsSynced p" and "p_servicesSynced p' = p_servicesSynced p"
  using assms
  by (auto simp: syncProxyRules_def Let_def split_beta bind_eq_Some_conv finish_sync_fst BuildMaps_frame
      dest!: sync_phases_frame(1) arg_cong [where f = fst and y = "(p', w')"]
      split: option.splits sum.splits if_splits)

section \<open>Streams of events\<close>

text \<open>The informer calls the handlers one after the other.\<close>

definition run_service_events ::
  "'w penv \<Rightarrow> (NamespacedName, api_Service) event list \<Rightarrow> Proxier \<times> 'w \<Rightarrow> (Proxier \<times> 'w) option" where
  "run_service_events env es = foldM (\<lambda>(n, old, new) (p, w). service_event env n old new p w) es"

definition run_endpoints_events ::
  "'w penv \<Rightarrow> (NamespacedName, api_Endpoints) event list \<Rightarrow> Proxier \<times> 'w \<Rightarrow> (Proxier \<times> 'w) option" where
  "run_endpoints_events env es = foldM (\<lambda>(n, old, new) (p, w). endpoints_event env n old new p w) es"

lemma run_service_events_quiet:
  assumes "\<not> isInitialized p"
  shows "run_service_events env es (p, w) =
    Some (p\<lparr>p_serviceChanges := run_updates ServiceChangeMap_Update (p_serviceChanges p) es\<rparr>, w)"
  using assms
proof (induction es arbitrary: p)
  case (Cons e es)
  obtain n old new where e: "e = (n, old, new)" by (cases e)
  let ?p = "p\<lparr>p_serviceChanges := fst (ServiceChangeMap_Update (p_serviceChanges p) n old new)\<rparr>"
  have q: "\<not> isInitialized ?p" using Cons.prems by (simp add: isInitialized_def)
  then have "service_event env n old new p w = Some (?p, w)"
    by (simp add: service_event_def split_beta)
  with Cons.IH [OF q] e show ?case by (simp add: run_service_events_def)
qed (simp add: run_service_events_def)

lemma run_endpoints_events_quiet:
  assumes "\<not> isInitialized p"
  shows "run_endpoints_events env es (p, w) =
    Some (p\<lparr>p_endpointsChanges := (p_endpointsChanges p)\<lparr>ecm_Items :=
      run_updates (EndpointsChangeItems_Update (ecm_Hostname (p_endpointsChanges p)))
        (ecm_Items (p_endpointsChanges p)) es\<rparr>\<rparr>, w)"
  using assms
proof (induction es arbitrary: p)
  case (Cons e es)
  obtain n old new where e: "e = (n, old, new)" by (cases e)
  let ?c = "p_endpointsChanges p"
  let ?p = "p\<lparr>p_endpointsChanges := ?c\<lparr>ecm_Items :=
      fst (EndpointsChangeItems_Update (ecm_Hostname ?c) (ecm_Items ?c) n old new)\<rparr>\<rparr>"
  have q: "\<not> isInitialized ?p" using Cons.prems by (simp add: isInitialized_def)
  then have "endpoints_event env n old new p w = Some (?p, w)"
    by (simp add: endpoints_event_def EndpointsChangeMap_Update_def split_beta)
  with Cons.IH [OF q] e show ?case by (simp add: run_endpoints_events_def)
qed (simp add: run_endpoints_events_def)

section \<open>Properties\<close>

text \<open>
  The initial synchronisation.  A proxier that is not initialized receives any consistent
  streams of service and endpoints events and then the signals that both caches are synced, the
  services last.  If that sync returns, the service map and the endpoints map hold exactly what
  the two stores hold, and the proxier is initialized.
\<close>

theorem initial_sync_follows_stores:
  assumes "\<not> isInitialized p" and "p_serviceChanges p = []"
    and "p_endpointsChanges p = NewEndpointsChangeMap hostname"
    and "map_of (p_serviceMap p) = service_view sst" and "map_of (p_endpointsMap p) = endpoints_view hostname est"
    and "consistent sst ses" and "consistent est ees"
    and "well_named service_nsn sst" and "well_named service_nsn (store_after sst ses)"
    and "well_named endpoints_nsn est" and "well_named endpoints_nsn (store_after est ees)"
    and "run_service_events env ses (p, w) = Some (pa, wa)"
    and "run_endpoints_events env ees (pa, wa) = Some (pb, wb)"
    and "OnServiceSynced env (pb\<lparr>p_endpointsSynced := True\<rparr>) wb = Some (p', w')"
  shows "map_of (p_serviceMap p') = service_view (store_after sst ses) \<and>
    map_of (p_endpointsMap p') = endpoints_view hostname (store_after est ees) \<and> isInitialized p'"
proof -
  define q where "q = p\<lparr>p_serviceChanges := run_updates ServiceChangeMap_Update [] ses\<rparr>"
  have p1: "pa = q" "wa = w"
    using assms(12) run_service_events_quiet [OF assms(1), of env ses w] assms(2) by (auto simp: q_def)
  have nq: "\<not> isInitialized q" using assms(1) by (simp add: q_def isInitialized_def)
  have p2: "pb = q\<lparr>p_endpointsChanges := \<lparr>ecm_Hostname = hostname, ecm_Items =
      run_updates (EndpointsChangeItems_Update hostname) [] ees\<rparr>\<rparr>"
    using assms(13) run_endpoints_events_quiet [OF nq, of env ees w] assms(3)
    by (simp add: p1 q_def NewEndpointsChangeMap_def)
  let ?q = "setInitialized True (pb\<lparr>p_endpointsSynced := True, p_servicesSynced := True\<rparr>)"
  have s: "syncProxyRules env ?q wb = Some (p', w')" using assms(14) by (simp add: OnServiceSynced_def)
  have f: "p_endpointsSynced ?q" "p_servicesSynced ?q" by (simp_all add: setInitialized_def)
  have "service_pending sst (store_after sst ses) (run_updates ServiceChangeMap_Update [] ses)"
    using svc.pending_empty assms(6) by (rule svc.pending_run)
  then have "map_of (fst (UpdateServiceMap (p_serviceMap p) (run_updates ServiceChangeMap_Update [] ses))) =
      service_view (store_after sst ses)" using assms(4,8,9) by (intro UpdateServiceMap_view) auto
  moreover have "endpoints_pending hostname est (store_after est ees)
      (run_updates (EndpointsChangeItems_Update hostname) [] ees)"
    using ep.pending_empty assms(7) by (rule ep.pending_run)
  then have "map_of (fst (UpdateEndpointsMap (p_endpointsMap p)
      (run_updates (EndpointsChangeItems_Update hostname) [] ees))) = endpoints_view hostname (store_after est ees)"
    using assms(5,10,11) by (intro UpdateEndpointsMap_view) auto
  moreover have "isInitialized p'"
    using syncProxyRules_flags(1) [OF s] by (simp add: setInitialized_def isInitialized_def)
  ultimately show ?thesis
    using syncProxyRules_maps [OF s f] by (simp add: p2 q_def setInitialized_def)
qed

text \<open>A proxier as it starts, with the interfaces of the reference kernel.\<close>

definition ex_fresh :: Proxier where
  "ex_fresh = ex_proxier\<lparr>p_serviceMap := [], p_endpointsMap := [], p_initialized := 0,
     p_endpointsSynced := False, p_servicesSynced := False\<rparr>"

lemma ex_fresh_sync:
  "\<exists>p' w'. OnServiceSynced ref_env (ex_fresh\<lparr>p_endpointsSynced := True\<rparr>) ex_stale_world = Some (p', w')"
proof -
  let ?q = "setInitialized True (ex_fresh\<lparr>p_endpointsSynced := True, p_servicesSynced := True\<rparr>)"
  have "syncable (?q\<lparr>p_nodeIPs := ex_ips\<rparr>)" "no_conflict (?q\<lparr>p_nodeIPs := ex_ips\<rparr>)"
    using ex_syncable(1) by (simp_all add: syncable_def no_conflict_def ex_fresh_def ex_proxier_def setInitialized_def)
  from refos.os_sync [OF ex_world_ok _ _ _ _ ex_node_ips this] show ?thesis
    by (auto simp: OnServiceSynced_def ref_env_def ex_fresh_def ex_proxier_def setInitialized_def
        NewEndpointsChangeMap_def)
qed

theorem initial_sync_follows_stores_witness:
  "\<exists>p' w'. OnServiceSynced ref_env (ex_fresh\<lparr>p_endpointsSynced := True\<rparr>) ex_stale_world = Some (p', w') \<and>
    map_of (p_serviceMap p') = service_view Map.empty \<and> isInitialized p'"
proof -
  obtain p' w' where s: "OnServiceSynced ref_env (ex_fresh\<lparr>p_endpointsSynced := True\<rparr>) ex_stale_world = Some (p', w')"
    using ex_fresh_sync by blast
  have "map_of (p_serviceMap p') = service_view (store_after Map.empty []) \<and>
    map_of (p_endpointsMap p') = endpoints_view ''node1'' (store_after Map.empty []) \<and> isInitialized p'"
    by (rule initial_sync_follows_stores [OF _ _ _ _ _ _ _ _ _ _ _ _ _ s, where p = ex_fresh and w = ex_stale_world
          and pa = ex_fresh and wa = ex_stale_world and ses = "[]" and ees = "[]"])
      (simp_all add: isInitialized_def ex_fresh_def ex_proxier_def well_named_def run_service_events_def
        run_endpoints_events_def)
  with s show ?thesis by auto
qed



text \<open>
  (C17) A sync with only endpoints changes pending forgets every held port: whatever sockets the
  proxier held for node ports and external addresses, its map of held ports is empty afterwards,
  although the services that need them are unchanged.
\<close>

theorem endpoints_sync_drops_held_ports:
  assumes "p_endpointsSynced p" and "p_servicesSynced p" and "p_serviceChanges p = []"
    and "ecm_Items (p_endpointsChanges p) \<noteq> []" and "i_GetDummyLink (pe_ipvs env) w = Some (Inr link, w1)"
    and "syncProxyRules env p w = Some (p', w')"
  shows "p_portsMap p' = []"
proof -
  obtain q q' st stale eps where "sync_phases env link q w1 = Some (q', st)" "p_serviceChanges q = []"
    "ecm_Items (p_endpointsChanges q) \<noteq> []" "finish_sync env stale eps q' st = (p', w')"
    using assms by (auto simp: syncProxyRules_def Let_def split_beta bind_eq_Some_conv BuildMaps_frame)
  then show ?thesis
    using sync_phases_frame(2) [of env link q w1 q' st] finish_sync_fst [of env stale eps q' st] by auto
qed

theorem endpoints_sync_drops_held_ports_witness:
  "\<exists>p' w'. syncProxyRules ref_env (ex_moved\<lparr>p_portsMap := [(node_port ex_name ex_info, 1)]\<rparr>) ex_synced_world
     = Some (p', w') \<and> p_portsMap p' = []"
proof -
  let ?p = "ex_moved\<lparr>p_portsMap := [(node_port ex_name ex_info, 1)]\<rparr>"
  have u: "same_input (updated ?p ex_ips) (updated ex_moved ex_ips)"
    by (simp add: same_input_def updated_def)
  have n: "p_nodeIPs ?p = ex_ips" by (simp add: ex_moved_def)
  have d: "desired_table ?p = desired_table ex_moved" by (rule same_input_spec(1)) (simp add: same_input_def)
  have "\<exists>p' w'. syncProxyRules ref_env ?p ex_synced_world = Some (p', w')"
    using refos.os_endpoints_sync [of ex_synced_world ?p, OF _ _ _ _ _ _ _ _ refl] same_input_spec(3,4) [OF u]
      ex_moved_valid ex_node_ips
    unfolding n d ref_env_def
    by (auto simp: ex_synced_ok ex_synced_table, auto simp: ex_moved_def ex_proxier_def desired_table_def
        ex_keys0 eps_vals_def gm_slice_def)
  then obtain p' w' where s: "syncProxyRules ref_env ?p ex_synced_world = Some (p', w')" by blast
  have "i_GetDummyLink (pe_ipvs ref_env) ex_synced_world = Some (Inr ref_link, ex_synced_world)"
    by (simp add: ref_env_def NewProxier_env_def EnnIpvs_def GetDummyLink_def ref_libnet_def ex_synced_world_def)
  from endpoints_sync_drops_held_ports [OF _ _ _ _ this s] s show ?thesis
    by (simp add: ex_moved_def ex_proxier_def)
qed

end
