(* ===== verification/Coreos_Iptables.thy ===== *)
theory Coreos_Iptables
  imports Node_Utils "HOL-Library.Product_Lexorder"
begin

text \<open>
  src/pkg/util/coreos/go-iptables/iptables/iptables.go and lock.go: the wrapper around the
  iptables command that the proxy uses for its masquerade rules.  Running a command, finding it and
  locking a file are the fields of \<open>ipt_os\<close>; \<open>None\<close> is a panic.
\<close>

section \<open>Environment and data\<close>

text \<open>
  The error of \<^verbatim>\<open>cmd.Run\<close>: the command exited with a status, or it did not run.
\<close>

datatype run_error = ExitStatus int | StartFailed go_error

datatype flock_result = Flock_nil | EWOULDBLOCK | Flock_err go_error

record 'w ipt_os =
  io_LookPath :: "string \<Rightarrow> 'w \<Rightarrow> go_error + string"
  io_Run :: "string \<Rightarrow> string list \<Rightarrow> 'w \<Rightarrow> (string \<times> string \<times> run_error option) \<times> 'w"
  io_Open :: "string \<Rightarrow> 'w \<Rightarrow> (go_error + int) \<times> 'w"
  io_Flock :: "int \<Rightarrow> 'w \<Rightarrow> flock_result \<times> 'w"
  io_Close :: "int \<Rightarrow> 'w \<Rightarrow> 'w"

text \<open>The errors the methods return: \<^verbatim>\<open>*Error\<close> with status and message, or any other.\<close>

datatype ipt_error = Ipt_Error (ExitStatus_of: int) (msg: string) | Ipt_other go_error

fun Error_String :: "ipt_error \<Rightarrow> string" where
  "Error_String (Ipt_Error st m) = ''exit status '' @ Itoa st @ '': '' @ m"
| "Error_String (Ipt_other e) = e"

datatype Protocol = ProtocolIPv4 | ProtocolIPv6

record IPTables =
  ipt_path :: string
  ipt_proto :: Protocol
  ipt_hasCheck :: bool
  ipt_hasWait :: bool

section \<open>The xtables lock\<close>

definition xtablesLockFilePath :: string where "xtablesLockFilePath = ''/var/run/xtables.lock''"

record fileLock =
  fl_mu :: bool
  fl_fd :: int

datatype Unlocker = nopUnlocker | File_Unlocker fileLock

definition newXtablesFileLock :: "'w ipt_os \<Rightarrow> 'w \<Rightarrow> (go_error + fileLock) \<times> 'w" where
  "newXtablesFileLock os w =
     (case io_Open os xtablesLockFilePath w of
        (Inl err, w1) \<Rightarrow> (Inl err, w1)
      | (Inr fd, w1) \<Rightarrow> (Inr \<lparr>fl_mu = False, fl_fd = fd\<rparr>, w1))"

definition tryLock :: "'w ipt_os \<Rightarrow> fileLock \<Rightarrow> 'w \<Rightarrow> (go_error + Unlocker) \<times> 'w" where
  "tryLock os l w =
     (case io_Flock os (fl_fd l) w of
        (EWOULDBLOCK, w1) \<Rightarrow> (Inr nopUnlocker, w1)
      | (Flock_nil, w1) \<Rightarrow> (Inr (File_Unlocker (l\<lparr>fl_mu := True\<rparr>)), w1)
      | (Flock_err err, w1) \<Rightarrow> (Inl err, w1))"

fun Unlock :: "'w ipt_os \<Rightarrow> Unlocker \<Rightarrow> 'w \<Rightarrow> 'w" where
  "Unlock os nopUnlocker w = w"
| "Unlock os (File_Unlocker l) w = io_Close os (fl_fd l) w"

section \<open>Running the command\<close>

definition cmd_Run :: "'w ipt_os \<Rightarrow> IPTables \<Rightarrow> string list \<Rightarrow> 'w \<Rightarrow> ((ipt_error option \<times> string) \<times> 'w) option" where
  "cmd_Run os ipt args w =
     (case io_Run os (ipt_path ipt) args w of
        ((out, errtext, None), w1) \<Rightarrow> Some ((None, out), w1)
      | ((out, errtext, Some (ExitStatus st)), w1) \<Rightarrow> Some ((Some (Ipt_Error st errtext), out), w1)
      | ((out, errtext, Some (StartFailed err)), w1) \<Rightarrow> None)"

text \<open>The error, and what the command wrote to its standard output.\<close>

definition runWithOutput ::
  "'w ipt_os \<Rightarrow> IPTables \<Rightarrow> string list \<Rightarrow> 'w \<Rightarrow> ((ipt_error option \<times> string) \<times> 'w) option" where
  "runWithOutput os ipt args w =
     (let args1 = ipt_path ipt # args in
      if ipt_hasWait ipt then cmd_Run os ipt (args1 @ [''--wait'']) w
      else (case newXtablesFileLock os w of
              (Inl err, w1) \<Rightarrow> Some ((Some (Ipt_other err), ''''), w1)
            | (Inr fmu, w1) \<Rightarrow>
                (case tryLock os fmu w1 of
                   (Inl err, w2) \<Rightarrow> Some ((Some (Ipt_other err), ''''), w2)
                 | (Inr ul, w2) \<Rightarrow>
                     (case cmd_Run os ipt args1 w2 of
                        None \<Rightarrow> None
                      | Some (r, w3) \<Rightarrow> Some (r, Unlock os ul w3)))))"

definition ipt_run :: "'w ipt_os \<Rightarrow> IPTables \<Rightarrow> string list \<Rightarrow> 'w \<Rightarrow> (ipt_error option \<times> 'w) option" where
  "ipt_run os ipt args w = map_option (\<lambda>((err, _), w1). (err, w1)) (runWithOutput os ipt args w)"

definition executeList :: "'w ipt_os \<Rightarrow> IPTables \<Rightarrow> string list \<Rightarrow> 'w \<Rightarrow> ((ipt_error + string list) \<times> 'w) option" where
  "executeList os ipt args w =
     (case runWithOutput os ipt args w of
        None \<Rightarrow> None
      | Some ((Some err, _), w1) \<Rightarrow> Some (Inl err, w1)
      | Some ((None, out), w1) \<Rightarrow>
          (let rules = split_on CHR 0x0A out
           in Some (Inr (if length rules > 0 \<and> last rules = '''' then butlast rules else rules), w1)))"

section \<open>Which flags the command has\<close>

definition getIptablesCommand :: "Protocol \<Rightarrow> string" where
  "getIptablesCommand proto = (if proto = ProtocolIPv6 then ''ip6tables'' else ''iptables'')"

text \<open>
  The expression \<^verbatim>\<open>v([0-9]+)[.]([0-9]+)[.]([0-9]+)\<close>: the leftmost match and its groups.
\<close>

definition digits_then :: "char \<Rightarrow> string \<Rightarrow> (string \<times> string) option" where
  "digits_then c s =
     (case dropWhile is_digit s of
        x # r \<Rightarrow> if x = c \<and> takeWhile is_digit s \<noteq> [] then Some (takeWhile is_digit s, r) else None
      | [] \<Rightarrow> None)"

definition version_here :: "string \<Rightarrow> (string \<times> string \<times> string) option" where
  "version_here s = do {
     (a, r1) \<leftarrow> digits_then CHR ''.'' s;
     (b, r2) \<leftarrow> digits_then CHR ''.'' r1;
     if takeWhile is_digit r2 \<noteq> [] then Some (a, b, takeWhile is_digit r2) else None
   }"

fun versionMatcher :: "string \<Rightarrow> (string \<times> string \<times> string) option" where
  "versionMatcher [] = None"
| "versionMatcher (c # s) =
     (if c = CHR ''v'' \<and> version_here s \<noteq> None then version_here s else versionMatcher s)"

definition extractIptablesVersion :: "string \<Rightarrow> go_error + (int \<times> int \<times> int)" where
  "extractIptablesVersion str =
     (case versionMatcher str of
        None \<Rightarrow> Inl (''no iptables version found in string: '' @ str)
      | Some (s1, s2, s3) \<Rightarrow>
          (case find (\<lambda>s. Atoi s = None) [s1, s2, s3] of
             Some s \<Rightarrow> Inl (''strconv.Atoi: parsing '' @ Quote s @ '': value out of range'')
           | None \<Rightarrow> Inr (the (Atoi s1), the (Atoi s2), the (Atoi s3))))"

definition getIptablesVersionString :: "'w ipt_os \<Rightarrow> string \<Rightarrow> 'w \<Rightarrow> (go_error + string) \<times> 'w" where
  "getIptablesVersionString os path w =
     (case io_Run os path [path, ''--version''] w of
        ((out, _, None), w1) \<Rightarrow> (Inr out, w1)
      | ((out, _, Some (ExitStatus st)), w1) \<Rightarrow> (Inl (''exit status '' @ Itoa st), w1)
      | ((out, _, Some (StartFailed err)), w1) \<Rightarrow> (Inl err, w1))"

definition iptablesHasCheckCommand :: "int \<Rightarrow> int \<Rightarrow> int \<Rightarrow> bool" where
  "iptablesHasCheckCommand a b c =
     (if a > 1 then True else if a = 1 \<and> b > 4 then True else if a = 1 \<and> b = 4 \<and> c \<ge> 11 then True else False)"

definition iptablesHasWaitCommand :: "int \<Rightarrow> int \<Rightarrow> int \<Rightarrow> bool" where
  "iptablesHasWaitCommand a b c =
     (if a > 1 then True else if a = 1 \<and> b > 4 then True else if a = 1 \<and> b = 4 \<and> c \<ge> 20 then True else False)"

definition getIptablesCommandSupport :: "'w ipt_os \<Rightarrow> string \<Rightarrow> 'w \<Rightarrow> (go_error + (bool \<times> bool)) \<times> 'w" where
  "getIptablesCommandSupport os path w =
     (case getIptablesVersionString os path w of
        (Inl err, w1) \<Rightarrow> (Inl err, w1)
      | (Inr vstring, w1) \<Rightarrow>
          ((case extractIptablesVersion vstring of
              Inl err \<Rightarrow> Inl err
            | Inr (a, b, c) \<Rightarrow> Inr (iptablesHasCheckCommand a b c, iptablesHasWaitCommand a b c)), w1))"

definition NewWithProtocol :: "'w ipt_os \<Rightarrow> Protocol \<Rightarrow> 'w \<Rightarrow> (go_error + IPTables) \<times> 'w" where
  "NewWithProtocol os proto w =
     (case io_LookPath os (getIptablesCommand proto) w of
        Inl err \<Rightarrow> (Inl err, w)
      | Inr path \<Rightarrow>
          (case getIptablesCommandSupport os path w of
             (Inl err, w1) \<Rightarrow> (Inl (''error checking iptables version: '' @ err), w1)
           | (Inr (checkPresent, waitPresent), w1) \<Rightarrow>
               (Inr \<lparr>ipt_path = path, ipt_proto = proto, ipt_hasCheck = checkPresent, ipt_hasWait = waitPresent\<rparr>, w1)))"

definition ipt_New :: "'w ipt_os \<Rightarrow> 'w \<Rightarrow> (go_error + IPTables) \<times> 'w" where
  "ipt_New os = NewWithProtocol os ProtocolIPv4"

definition Proto :: "IPTables \<Rightarrow> Protocol" where "Proto ipt = ipt_proto ipt"

section \<open>Rules\<close>

definition existsForOldIptables ::
  "'w ipt_os \<Rightarrow> IPTables \<Rightarrow> string \<Rightarrow> string \<Rightarrow> string list \<Rightarrow> 'w \<Rightarrow> ((ipt_error + bool) \<times> 'w) option" where
  "existsForOldIptables os ipt table chain rulespec w =
     (let rs = Join ([''-A'', chain] @ rulespec) '' '' in
      case runWithOutput os ipt [''-t'', table, ''-S''] w of
        None \<Rightarrow> None
      | Some ((Some err, _), w1) \<Rightarrow> Some (Inl err, w1)
      | Some ((None, out), w1) \<Rightarrow> Some (Inr (Contains out rs), w1))"

definition ipt_Exists ::
  "'w ipt_os \<Rightarrow> IPTables \<Rightarrow> string \<Rightarrow> string \<Rightarrow> string list \<Rightarrow> 'w \<Rightarrow> ((ipt_error + bool) \<times> 'w) option" where
  "ipt_Exists os ipt table chain rulespec w =
     (if \<not> ipt_hasCheck ipt then existsForOldIptables os ipt table chain rulespec w
      else (case ipt_run os ipt ([''-t'', table, ''-C'', chain] @ rulespec) w of
              None \<Rightarrow> None
            | Some (None, w1) \<Rightarrow> Some (Inr True, w1)
            | Some (Some (Ipt_Error st m), w1) \<Rightarrow> Some (if st = 1 then Inr False else Inl (Ipt_Error st m), w1)
            | Some (Some (Ipt_other err), w1) \<Rightarrow> Some (Inl (Ipt_other err), w1)))"

definition ipt_Insert ::
  "'w ipt_os \<Rightarrow> IPTables \<Rightarrow> string \<Rightarrow> string \<Rightarrow> int \<Rightarrow> string list \<Rightarrow> 'w \<Rightarrow> (ipt_error option \<times> 'w) option" where
  "ipt_Insert os ipt table chain pos rulespec = ipt_run os ipt ([''-t'', table, ''-I'', chain, Itoa pos] @ rulespec)"

definition ipt_Append ::
  "'w ipt_os \<Rightarrow> IPTables \<Rightarrow> string \<Rightarrow> string \<Rightarrow> string list \<Rightarrow> 'w \<Rightarrow> (ipt_error option \<times> 'w) option" where
  "ipt_Append os ipt table chain rulespec = ipt_run os ipt ([''-t'', table, ''-A'', chain] @ rulespec)"

definition ipt_Prepend ::
  "'w ipt_os \<Rightarrow> IPTables \<Rightarrow> string \<Rightarrow> string \<Rightarrow> string list \<Rightarrow> 'w \<Rightarrow> (ipt_error option \<times> 'w) option" where
  "ipt_Prepend os ipt table chain rulespec = ipt_run os ipt ([''-t'', table, ''-I'', chain] @ rulespec)"

definition AppendUnique ::
  "'w ipt_os \<Rightarrow> IPTables \<Rightarrow> string \<Rightarrow> string \<Rightarrow> string list \<Rightarrow> 'w \<Rightarrow> (ipt_error option \<times> 'w) option" where
  "AppendUnique os ipt table chain rulespec w =
     (case ipt_Exists os ipt table chain rulespec w of
        None \<Rightarrow> None
      | Some (Inl err, w1) \<Rightarrow> Some (Some err, w1)
      | Some (Inr ex, w1) \<Rightarrow> if \<not> ex then ipt_Append os ipt table chain rulespec w1 else Some (None, w1))"

definition PrependUnique ::
  "'w ipt_os \<Rightarrow> IPTables \<Rightarrow> string \<Rightarrow> string \<Rightarrow> string list \<Rightarrow> 'w \<Rightarrow> (ipt_error option \<times> 'w) option" where
  "PrependUnique os ipt table chain rulespec w =
     (case ipt_Exists os ipt table chain rulespec w of
        None \<Rightarrow> None
      | Some (Inl err, w1) \<Rightarrow> Some (Some err, w1)
      | Some (Inr ex, w1) \<Rightarrow> if \<not> ex then ipt_Prepend os ipt table chain rulespec w1 else Some (None, w1))"

definition ipt_Delete ::
  "'w ipt_os \<Rightarrow> IPTables \<Rightarrow> string \<Rightarrow> string \<Rightarrow> string list \<Rightarrow> 'w \<Rightarrow> (ipt_error option \<times> 'w) option" where
  "ipt_Delete os ipt table chain rulespec = ipt_run os ipt ([''-t'', table, ''-D'', chain] @ rulespec)"

section \<open>Lists and chains\<close>

definition ipt_List ::
  "'w ipt_os \<Rightarrow> IPTables \<Rightarrow> string \<Rightarrow> string \<Rightarrow> 'w \<Rightarrow> ((ipt_error + string list) \<times> 'w) option" where
  "ipt_List os ipt table chain = executeList os ipt [''-t'', table, ''-S'', chain]"

text \<open>The loop over the listing; a definition line without a second field panics.\<close>

fun chain_names :: "string list \<Rightarrow> string list option" where
  "chain_names [] = Some []"
| "chain_names (val # vals) =
     (if HasPrefix val ''-P'' \<or> HasPrefix val ''-N'' then
        (case Fields val of
           _ # name # _ \<Rightarrow> map_option ((#) name) (chain_names vals)
         | _ \<Rightarrow> None)
      else Some [])"

definition ListChains :: "'w ipt_os \<Rightarrow> IPTables \<Rightarrow> string \<Rightarrow> 'w \<Rightarrow> ((ipt_error + string list) \<times> 'w) option" where
  "ListChains os ipt table w =
     (case executeList os ipt [''-t'', table, ''-S''] w of
        None \<Rightarrow> None
      | Some (Inl err, w1) \<Rightarrow> Some (Inl err, w1)
      | Some (Inr result, w1) \<Rightarrow> map_option (\<lambda>chains. (Inr chains, w1)) (chain_names result))"

definition ipt_NewChain :: "'w ipt_os \<Rightarrow> IPTables \<Rightarrow> string \<Rightarrow> string \<Rightarrow> 'w \<Rightarrow> (ipt_error option \<times> 'w) option" where
  "ipt_NewChain os ipt table chain = ipt_run os ipt [''-t'', table, ''-N'', chain]"

definition ClearChain :: "'w ipt_os \<Rightarrow> IPTables \<Rightarrow> string \<Rightarrow> string \<Rightarrow> 'w \<Rightarrow> (ipt_error option \<times> 'w) option" where
  "ClearChain os ipt table chain w =
     (case ipt_NewChain os ipt table chain w of
        None \<Rightarrow> None
      | Some (None, w1) \<Rightarrow> Some (None, w1)
      | Some (Some (Ipt_Error st m), w1) \<Rightarrow>
          if st = 1 then ipt_run os ipt [''-t'', table, ''-F'', chain] w1 else Some (Some (Ipt_Error st m), w1)
      | Some (Some (Ipt_other err), w1) \<Rightarrow> Some (Some (Ipt_other err), w1))"

definition RenameChain ::
  "'w ipt_os \<Rightarrow> IPTables \<Rightarrow> string \<Rightarrow> string \<Rightarrow> string \<Rightarrow> 'w \<Rightarrow> (ipt_error option \<times> 'w) option" where
  "RenameChain os ipt table oldChain newChain = ipt_run os ipt [''-t'', table, ''-E'', oldChain, newChain]"

definition ipt_DeleteChain :: "'w ipt_os \<Rightarrow> IPTables \<Rightarrow> string \<Rightarrow> string \<Rightarrow> 'w \<Rightarrow> (ipt_error option \<times> 'w) option" where
  "ipt_DeleteChain os ipt table chain = ipt_run os ipt [''-t'', table, ''-X'', chain]"

section \<open>What the command does\<close>

text \<open>
  The documented behaviour of the command on the chains that exist.  \<open>rules w (table, chain)\<close> are
  the rule specifications of a chain from first to last.  A specification that the proxy passes
  starts with an option or with an exclamation mark and does not contain the wait option.
\<close>

definition plain_spec :: "string list \<Rightarrow> bool" where
  "plain_spec spec \<longleftrightarrow> spec \<noteq> [] \<and> (HasPrefix (hd spec) ''-'' \<or> hd spec = ''!'') \<and> ''--wait'' \<notin> set spec"

type_synonym chains = "string \<times> string \<Rightarrow> string list list option"

definition tool_does ::
  "'w ipt_os \<Rightarrow> ('w \<Rightarrow> bool) \<Rightarrow> ('w \<Rightarrow> chains) \<Rightarrow> string \<Rightarrow> string list \<Rightarrow> 'w \<Rightarrow> int option \<Rightarrow> chains \<Rightarrow> (string \<Rightarrow> bool) \<Rightarrow> bool"
  where
  "tool_does os ok rules path args w st R good \<longleftrightarrow>
     (\<exists>out errtext w'. io_Run os path (path # args) w = ((out, errtext, map_option ExitStatus st), w') \<and>
        ok w' \<and> rules w' = R \<and> good out)"

definition del_nth :: "nat \<Rightarrow> 'a list \<Rightarrow> 'a list" where
  "del_nth i xs = take i xs @ drop (Suc i) xs"

text \<open>A listing: one line for the policy of the chain and one for every rule.\<close>

definition listing :: "string \<Rightarrow> (string list \<Rightarrow> string) \<Rightarrow> string list list \<Rightarrow> string list" where
  "listing policy show_rule rs = policy # map show_rule rs"

locale iptables_tool =
  fixes os :: "'w ipt_os"
    and ok :: "'w \<Rightarrow> bool"
    and rules :: "'w \<Rightarrow> chains"
    and path :: string
    and vtext :: string
    and policy :: "string \<times> string \<Rightarrow> string"
    and show_rule :: "string \<times> string \<Rightarrow> string list \<Rightarrow> string"
  assumes tool_path: "ok w \<Longrightarrow> io_LookPath os ''iptables'' w = Inr path"
    and tool_version: "ok w \<Longrightarrow> tool_does os ok rules path [''--version''] w None (rules w) (\<lambda>out. out = vtext)"
    and tool_recent: "\<exists>a b c. extractIptablesVersion vtext = Inr (a, b, c) \<and> iptablesHasCheckCommand a b c"
    and tool_check: "ok w \<Longrightarrow> rules w (table, chain) = Some rs \<Longrightarrow> plain_spec spec \<Longrightarrow> ws \<in> {[], [''--wait'']} \<Longrightarrow>
      tool_does os ok rules path ([''-t'', table, ''-C'', chain] @ spec @ ws) w
        (if spec \<in> set rs then None else Some 1) (rules w) (\<lambda>_. True)"
    and tool_insert: "ok w \<Longrightarrow> rules w (table, chain) = Some rs \<Longrightarrow> plain_spec spec \<Longrightarrow> ws \<in> {[], [''--wait'']} \<Longrightarrow>
      tool_does os ok rules path ([''-t'', table, ''-I'', chain] @ spec @ ws) w
        None ((rules w)((table, chain) \<mapsto> spec # rs)) (\<lambda>_. True)"
    and tool_delete: "ok w \<Longrightarrow> rules w (table, chain) = Some rs \<Longrightarrow> ws \<in> {[], [''--wait'']} \<Longrightarrow>
      tool_does os ok rules path ([''-t'', table, ''-D'', chain, Itoa (int i)] @ ws) w
        (if 0 < i \<and> i \<le> length rs then None else Some 1)
        (if 0 < i \<and> i \<le> length rs then (rules w)((table, chain) \<mapsto> del_nth (i - 1) rs) else rules w) (\<lambda>_. True)"
    and tool_list: "ok w \<Longrightarrow> rules w (table, chain) = Some rs \<Longrightarrow> ws \<in> {[], [''--wait'']} \<Longrightarrow>
      tool_does os ok rules path ([''-t'', table, ''-S'', chain] @ ws) w None (rules w)
        (\<lambda>out. out = concat (map (\<lambda>l. l @ [CHR 0x0A]) (listing (policy (table, chain)) (show_rule (table, chain)) rs)))"
    and lines_plain: "CHR 0x0A \<notin> set (policy c)" "CHR 0x0A \<notin> set (show_rule c spec)" "show_rule c spec \<noteq> []"
    and lock_open: "ok w \<Longrightarrow> \<exists>fd w'. io_Open os xtablesLockFilePath w = (Inr fd, w') \<and> ok w' \<and> rules w' = rules w"
    and lock_flock: "ok w \<Longrightarrow> \<exists>r w'. io_Flock os fd w = (r, w') \<and> (\<forall>err. r \<noteq> Flock_err err) \<and> ok w' \<and> rules w' = rules w"
    and lock_close: "ok w \<Longrightarrow> ok (io_Close os fd w) \<and> rules (io_Close os fd w) = rules w"
begin

definition ours :: "IPTables \<Rightarrow> bool" where
  "ours ipt \<longleftrightarrow> ipt_path ipt = path \<and> ipt_hasCheck ipt"

lemma New_ours:
  assumes "ok w"
  shows "\<exists>ipt w'. ipt_New os w = (Inr ipt, w') \<and> ours ipt \<and> ok w' \<and> rules w' = rules w"
  using tool_version [OF assms] tool_recent tool_path [OF assms]
  by (auto simp: ipt_New_def NewWithProtocol_def getIptablesCommand_def getIptablesCommandSupport_def
      getIptablesVersionString_def tool_does_def ours_def)

lemma Unlock_keeps: "ok w \<Longrightarrow> ok (Unlock os ul w) \<and> rules (Unlock os ul w) = rules w"
  by (cases ul) (simp_all add: lock_close)

text \<open>The wrapper runs the command with or without the lock.\<close>

lemma run_does:
  assumes "ours ipt" and "ok w"
    and "\<And>w' ws. ok w' \<Longrightarrow> rules w' = rules w \<Longrightarrow> ws \<in> {[], [''--wait'']} \<Longrightarrow>
      tool_does os ok rules path (args @ ws) w' st R good"
  shows "\<exists>err out w'. runWithOutput os ipt args w = Some ((err, out), w') \<and> ok w' \<and> rules w' = R \<and> good out \<and>
    (case st of None \<Rightarrow> err = None | Some s \<Rightarrow> \<exists>m. err = Some (Ipt_Error s m))"
proof (cases "ipt_hasWait ipt")
  case True
  then show ?thesis
    using assms(3) [OF assms(2) refl, of "[''--wait'']"] assms(1)
    by (cases st) (auto simp: runWithOutput_def cmd_Run_def tool_does_def ours_def)
next
  case False
  obtain fd w1 where o1: "io_Open os xtablesLockFilePath w = (Inr fd, w1)" "ok w1" "rules w1 = rules w"
    using lock_open [OF assms(2)] by blast
  obtain r w2 where f: "io_Flock os fd w1 = (r, w2)" "\<And>err. r \<noteq> Flock_err err" "ok w2" "rules w2 = rules w"
    using lock_flock [OF o1(2), of fd] o1(3) by auto
  obtain ul where ul: "tryLock os \<lparr>fl_mu = False, fl_fd = fd\<rparr> w1 = (Inr ul, w2)"
    using f(1,2) by (cases r) (auto simp: tryLock_def)
  obtain out errtext w3 where x: "io_Run os path (path # args) w2 = ((out, errtext, map_option ExitStatus st), w3)"
    "ok w3" "rules w3 = R" "good out"
    using assms(3) [OF f(3,4), of "[]"] by (auto simp: tool_does_def)
  show ?thesis
    using False o1(1) ul x assms(1) Unlock_keeps [OF x(2), of ul]
    by (cases st) (auto simp: runWithOutput_def newXtablesFileLock_def cmd_Run_def ours_def)
qed

end

section \<open>The wrapper on these commands\<close>

context iptables_tool
begin

lemma Exists_does:
  assumes "ours ipt" and "ok w" and "rules w (table, chain) = Some rs" and "plain_spec spec"
  shows "\<exists>w'. ipt_Exists os ipt table chain spec w = Some (Inr (spec \<in> set rs), w') \<and> ok w' \<and> rules w' = rules w"
proof -
  have "tool_does os ok rules path (([''-t'', table, ''-C'', chain] @ spec) @ ws) w'
      (if spec \<in> set rs then None else Some 1) (rules w) (\<lambda>_. True)"
    if "ok w'" "rules w' = rules w" "ws \<in> {[], [''--wait'']}" for w' ws
    using tool_check [of w' table chain rs spec ws] that assms(3,4) by simp
  from run_does [OF assms(1,2) this] assms(1) show ?thesis
    by (auto simp: ipt_Exists_def ipt_run_def ours_def split: if_splits)
qed

lemma PrependUnique_does:
  assumes "ours ipt" and "ok w" and "rules w (table, chain) = Some rs" and "plain_spec spec"
  shows "\<exists>w'. PrependUnique os ipt table chain spec w = Some (None, w') \<and> ok w' \<and>
    rules w' = (rules w)((table, chain) \<mapsto> (if spec \<in> set rs then rs else spec # rs))"
proof -
  obtain w1 where e: "ipt_Exists os ipt table chain spec w = Some (Inr (spec \<in> set rs), w1)" "ok w1" "rules w1 = rules w"
    using Exists_does [OF assms] by blast
  show ?thesis
  proof (cases "spec \<in> set rs")
    case True
    with e assms(3) show ?thesis by (auto simp: PrependUnique_def fun_upd_idem)
  next
    case False
    have "tool_does os ok rules path (([''-t'', table, ''-I'', chain] @ spec) @ ws) w' None
        ((rules w)((table, chain) \<mapsto> spec # rs)) (\<lambda>_. True)"
      if "ok w'" "rules w' = rules w1" "ws \<in> {[], [''--wait'']}" for w' ws
      using tool_insert [of w' table chain rs spec ws] that e(3) assms(3,4) by simp
    from run_does [OF assms(1) e(2) this] e(1) False show ?thesis
      by (auto simp: PrependUnique_def ipt_Prepend_def ipt_run_def)
  qed
qed

lemma List_does:
  assumes "ours ipt" and "ok w" and "rules w (table, chain) = Some rs"
  shows "\<exists>w'. ipt_List os ipt table chain w =
      Some (Inr (listing (policy (table, chain)) (show_rule (table, chain)) rs), w') \<and> ok w' \<and> rules w' = rules w"
proof -
  let ?l = "listing (policy (table, chain)) (show_rule (table, chain)) rs"
  have "tool_does os ok rules path ([''-t'', table, ''-S'', chain] @ ws) w' None (rules w)
      (\<lambda>out. out = concat (map (\<lambda>l. l @ [CHR 0x0A]) ?l))"
    if "ok w'" "rules w' = rules w" "ws \<in> {[], [''--wait'']}" for w' ws
    using tool_list [of w' table chain rs ws] that assms(3) by simp
  from run_does [OF assms(1,2) this] obtain out w' where
    r: "runWithOutput os ipt [''-t'', table, ''-S'', chain] w = Some ((None, out), w')" "ok w'" "rules w' = rules w"
    "out = concat (map (\<lambda>l. l @ [CHR 0x0A]) ?l)" by auto
  have "split_on CHR 0x0A out = ?l @ [[]]"
    unfolding r(4) by (rule split_on_lines) (auto simp: listing_def lines_plain)
  with r show ?thesis by (simp add: ipt_List_def executeList_def)
qed

lemma Delete_does:
  assumes "ours ipt" and "ok w" and "rules w (table, chain) = Some rs"
  shows "\<exists>err w'. ipt_Delete os ipt table chain [Itoa (int i)] w = Some (err, w') \<and> ok w' \<and>
    (if 0 < i \<and> i \<le> length rs then err = None \<and> rules w' = (rules w)((table, chain) \<mapsto> del_nth (i - 1) rs)
     else err \<noteq> None \<and> rules w' = rules w)"
proof -
  have "tool_does os ok rules path ([''-t'', table, ''-D'', chain, Itoa (int i)] @ ws) w'
      (if 0 < i \<and> i \<le> length rs then None else Some 1)
      (if 0 < i \<and> i \<le> length rs then (rules w)((table, chain) \<mapsto> del_nth (i - 1) rs) else rules w) (\<lambda>_. True)"
    if "ok w'" "rules w' = rules w" "ws \<in> {[], [''--wait'']}" for w' ws
    using tool_delete [OF that(1) _ that(3), of table chain rs i] assms(3) unfolding that(2) by blast
  from run_does [OF assms(1,2) this] show ?thesis
    by (auto simp: ipt_Delete_def ipt_run_def split: if_splits)
qed

end

section \<open>Versions\<close>

lemma digits_then_show:
  "\<not> is_digit x \<Longrightarrow> digits_then x (show_nat n @ x # r) = Some (show_nat n, r)"
  by (simp add: digits_then_def takeWhile_digits dropWhile_digits)

lemma version_here_show:
  assumes "e = [] \<or> \<not> is_digit (hd e)"
  shows "version_here (show_nat a @ CHR ''.'' # show_nat b @ CHR ''.'' # show_nat c @ e) =
    Some (show_nat a, show_nat b, show_nat c)"
proof -
  have "\<not> is_digit CHR ''.''" by (simp add: is_digit_def)
  then show ?thesis using assms by (simp add: version_here_def digits_then_show takeWhile_digits)
qed

lemma versionMatcher_show:
  assumes "CHR ''v'' \<notin> set pre" and "e = [] \<or> \<not> is_digit (hd e)"
  shows "versionMatcher (pre @ CHR ''v'' # show_nat a @ CHR ''.'' # show_nat b @ CHR ''.'' # show_nat c @ e) =
    Some (show_nat a, show_nat b, show_nat c)"
  using assms(1) by (induction pre) (auto simp: version_here_show [OF assms(2)])

text \<open>
  (C23) The version check of the wrapper: whatever text the command prints before and after a
  version, as long as no v stands before it, the three numbers are read, and the two flags say
  exactly whether the version is at least 1.4.11 (check) and at least 1.4.20 (wait) in the
  lexicographic order of the numbers.
\<close>

theorem iptables_version_support:
  assumes "io_Run os path [path, ''--version''] w =
      ((pre @ ''v'' @ show_nat a @ ''.'' @ show_nat b @ ''.'' @ show_nat c @ e, errtext, None), w')"
    and "CHR ''v'' \<notin> set pre" and "e = [] \<or> \<not> is_digit (hd e)"
    and "a < 2 ^ 63" "b < 2 ^ 63" "c < 2 ^ 63"
  shows "getIptablesCommandSupport os path w = (Inr ((1, 4, 11) \<le> (a, b, c), (1, 4, 20) \<le> (a, b, c)), w')"
proof -
  have "int a < 2 ^ 63" "int b < 2 ^ 63" "int c < 2 ^ 63" using assms(4-6) by simp_all
  then have "extractIptablesVersion (pre @ ''v'' @ show_nat a @ ''.'' @ show_nat b @ ''.'' @ show_nat c @ e) =
      Inr (int a, int b, int c)"
    using versionMatcher_show [OF assms(2,3), of a b c] by (simp add: extractIptablesVersion_def Atoi_show_nat)
  with assms(1) show ?thesis
    by (auto simp: getIptablesCommandSupport_def getIptablesVersionString_def iptablesHasCheckCommand_def
        iptablesHasWaitCommand_def)
qed

theorem iptables_version_support_witness:
  "getIptablesCommandSupport
     \<lparr>io_LookPath = (\<lambda>_ _. Inr ''/sbin/iptables''), io_Run = (\<lambda>_ _ w. ((''iptables v1.4.14'', '''', None), w)),
      io_Open = (\<lambda>_ w. (Inr 3, w)), io_Flock = (\<lambda>_ w. (Flock_nil, w)), io_Close = (\<lambda>_ w. w)\<rparr>
     ''/sbin/iptables'' () = (Inr (True, False), ())"
proof -
  have [simp]: "show_nat (Suc 0) = ''1''" "show_nat 4 = ''4''" "show_nat 14 = ''14''"
    by (simp_all add: show_nat.simps)
  show ?thesis
    by (subst iptables_version_support [of _ _ _ "''iptables ''" 1 4 14 "''''" "''''" "()"]) simp_all
qed

end

