(* ===== verification/Ref_Iptables.thy ===== *)
theory Ref_Iptables
  imports Coreos_Iptables
begin

text \<open>
  A reference iptables: a command that keeps the rule specifications of its chains and answers
  the calls of the wrapper as the manual says.  It shows that the laws of \<open>iptables_tool\<close> can hold.
\<close>

record iptworld =
  iw_chains :: chains
  iw_fds :: nat

definition strip_wait :: "string list \<Rightarrow> string list" where
  "strip_wait spec = (if spec \<noteq> [] \<and> last spec = ''--wait'' then butlast spec else spec)"

definition ref_show :: "string \<times> string \<Rightarrow> string list \<Rightarrow> string" where
  "ref_show c spec = ''-A '' @ filter (\<lambda>x. x \<noteq> CHR 0x0A) (snd c @ '' '' @ Join spec '' '')"

definition ref_policy :: "string \<times> string \<Rightarrow> string" where
  "ref_policy c = ''-P '' @ filter (\<lambda>x. x \<noteq> CHR 0x0A) (snd c @ '' ACCEPT'')"

definition ref_vtext :: string where "ref_vtext = ''iptables v1.6.1''"

definition ref_rule_cmd ::
  "string \<times> string \<Rightarrow> string \<Rightarrow> string list \<Rightarrow> string list list \<Rightarrow> iptworld \<Rightarrow> (string \<times> string \<times> run_error option) \<times> iptworld"
  where
  "ref_rule_cmd c op spec rs w =
     (let put = (\<lambda>rs'. w\<lparr>iw_chains := (iw_chains w)(c \<mapsto> rs')\<rparr>);
          fail = (('''', ''iptables: Bad rule.'', Some (ExitStatus 1)), w)
      in if op = ''-C'' then (if spec \<in> set rs then (('''', '''', None), w) else fail)
         else if op = ''-I'' then (('''', '''', None), put (spec # rs))
         else if op = ''-D'' then
           (let i = digits_val (hd spec)
            in if 0 < i \<and> i \<le> length rs then (('''', '''', None), put (del_nth (i - 1) rs)) else fail)
         else ((concat (map (\<lambda>l. l @ [CHR 0x0A]) (listing (ref_policy c) (ref_show c) rs)), '''', None), w))"

definition ref_iptables :: "string list \<Rightarrow> iptworld \<Rightarrow> (string \<times> string \<times> run_error option) \<times> iptworld" where
  "ref_iptables args w =
     (case args of
        _ # _ # table # op # chain # spec \<Rightarrow>
          (case iw_chains w (table, chain) of
             None \<Rightarrow> (('''', ''iptables: No chain/target/match by that name.'', Some (ExitStatus 1)), w)
           | Some rs \<Rightarrow> ref_rule_cmd (table, chain) op (strip_wait spec) rs w)
      | _ \<Rightarrow> ((ref_vtext, '''', None), w))"

definition ref_ipt_os :: "iptworld ipt_os" where
  "ref_ipt_os = \<lparr>io_LookPath = (\<lambda>_ _. Inr ''/sbin/iptables''), io_Run = (\<lambda>_. ref_iptables),
     io_Open = (\<lambda>_ w. (Inr (int (iw_fds w)), w\<lparr>iw_fds := Suc (iw_fds w)\<rparr>)),
     io_Flock = (\<lambda>_ w. (Flock_nil, w)), io_Close = (\<lambda>_ w. w)\<rparr>"


lemma strip_wait_plain:
  "plain_spec spec \<Longrightarrow> ws \<in> {[], [''--wait'']} \<Longrightarrow> strip_wait (spec @ ws) = spec"
  by (auto simp: strip_wait_def plain_spec_def) (metis last_in_set)+

lemma ref_version: "extractIptablesVersion ref_vtext = Inr (1, 6, 1)"
  by (simp add: extractIptablesVersion_def ref_vtext_def version_here_def digits_then_def is_digit_def Atoi_def
      digits_val_def digit_val_def)

lemma strip_wait_number: "ws \<in> {[], [''--wait'']} \<Longrightarrow> strip_wait (show_nat i # ws) = [show_nat i]"
proof -
  have "show_nat i \<noteq> ''--wait''" using show_nat_digits [of "CHR ''-''" i] by (auto simp: is_digit_def)
  then show "ws \<in> {[], [''--wait'']} \<Longrightarrow> ?thesis" by (auto simp: strip_wait_def)
qed

lemma ref_tool:
  assumes "iw_chains w (table, chain) = Some rs"
  shows "tool_does ref_ipt_os (\<lambda>_. True) iw_chains path (''-t'' # table # op # chain # spec) w st R good \<longleftrightarrow>
    (case ref_rule_cmd (table, chain) op (strip_wait spec) rs w of
       ((out, errtext, e), w') \<Rightarrow> e = map_option ExitStatus st \<and> iw_chains w' = R \<and> good out)"
  using assms by (auto simp: tool_does_def ref_ipt_os_def ref_iptables_def split: prod.splits)

interpretation reft: iptables_tool ref_ipt_os "\<lambda>_. True" iw_chains "''/sbin/iptables''" ref_vtext ref_policy ref_show
proof unfold_locales
  show "\<exists>a b c. extractIptablesVersion ref_vtext = Inr (a, b, c) \<and> iptablesHasCheckCommand a b c"
    by (simp add: ref_version iptablesHasCheckCommand_def)
  show "tool_does ref_ipt_os (\<lambda>_. True) iw_chains ''/sbin/iptables'' ([''-t'', table, ''-C'', chain] @ spec @ ws) w
      (if spec \<in> set rs then None else Some 1) (iw_chains w) (\<lambda>_. True)"
    if "iw_chains w (table, chain) = Some rs" "plain_spec spec" "ws \<in> {[], [''--wait'']}" for w table chain rs spec ws
    using that(1) strip_wait_plain [OF that(2,3)] by (simp add: ref_tool ref_rule_cmd_def)
  show "tool_does ref_ipt_os (\<lambda>_. True) iw_chains ''/sbin/iptables'' ([''-t'', table, ''-I'', chain] @ spec @ ws) w
      None ((iw_chains w)((table, chain) \<mapsto> spec # rs)) (\<lambda>_. True)"
    if "iw_chains w (table, chain) = Some rs" "plain_spec spec" "ws \<in> {[], [''--wait'']}" for w table chain rs spec ws
    using that(1) strip_wait_plain [OF that(2,3)] by (simp add: ref_tool ref_rule_cmd_def)
  show "tool_does ref_ipt_os (\<lambda>_. True) iw_chains ''/sbin/iptables'' ([''-t'', table, ''-D'', chain, Itoa (int i)] @ ws) w
      (if 0 < i \<and> i \<le> length rs then None else Some 1)
      (if 0 < i \<and> i \<le> length rs then (iw_chains w)((table, chain) \<mapsto> del_nth (i - 1) rs) else iw_chains w) (\<lambda>_. True)"
    if "iw_chains w (table, chain) = Some rs" "ws \<in> {[], [''--wait'']}" for w table chain rs ws i
    using that(1) strip_wait_number [OF that(2)] by (simp add: ref_tool ref_rule_cmd_def Itoa_def Let_def)
  show "tool_does ref_ipt_os (\<lambda>_. True) iw_chains ''/sbin/iptables'' ([''-t'', table, ''-S'', chain] @ ws) w None
      (iw_chains w) (\<lambda>out. out = concat (map (\<lambda>l. l @ [CHR 0x0A])
        (listing (ref_policy (table, chain)) (ref_show (table, chain)) rs)))"
    if "iw_chains w (table, chain) = Some rs" for w table chain rs ws
    using that(1) by (simp add: ref_tool ref_rule_cmd_def)
  show "tool_does ref_ipt_os (\<lambda>_. True) iw_chains ''/sbin/iptables'' [''--version''] w None (iw_chains w)
      (\<lambda>out. out = ref_vtext)" for w
    by (simp add: tool_does_def ref_ipt_os_def ref_iptables_def)
qed (simp_all add: ref_ipt_os_def ref_policy_def ref_show_def)

end

