(* ===== verification/Proxier_Setup.thy ===== *)
theory Proxier_Setup
  imports Proxier_Events Ref_Iptables "HOL-Library.List_Lexorder" "HOL-Library.Char_ord"
begin

text \<open>
  The rest of src/pkg/proxy/ipvs/proxier.go: creating the proxier, the kernel flags, the masquerade
  rules, the periodic loop and the clean-up; and the configuration of src/app/options/options.go.
  The rate limiter that \<^verbatim>\<open>NewProxier\<close> stores only delays a sync, and the health checker is never
  used by the proxier: both are left out of its state.
\<close>

section \<open>Configuration\<close>

text \<open>Durations are nanoseconds.\<close>

record KubeEnnProxyConfig =
  cf_Kubeconfig :: string
  cf_Master :: string
  cf_ConfigSyncPeriod :: int
  cf_CleanupConfig :: bool
  cf_IPTablesSyncPeriod :: int
  cf_IpvsSyncPeriod :: int
  cf_MinSyncPeriod :: int
  cf_MasqueradeAll :: bool
  cf_MasqueradeBit :: int
  cf_ClusterCIDR :: string
  cf_HostnameOverride :: string
  cf_IpvsScheduler :: string
  cf_GlogToStderr :: bool
  cf_GlogV :: string
  cf_GlogDir :: string
  cf_BindAddress :: string

definition Minute :: int where "Minute = 60 * 10 ^ 9"

definition NewKubeEnnProxyConfig :: "string \<Rightarrow> KubeEnnProxyConfig" where
  "NewKubeEnnProxyConfig libipvs_RoundRobin =
     \<lparr>cf_Kubeconfig = '''', cf_Master = '''', cf_ConfigSyncPeriod = 5 * Minute, cf_CleanupConfig = False,
      cf_IPTablesSyncPeriod = 5 * Minute, cf_IpvsSyncPeriod = 5 * Minute, cf_MinSyncPeriod = 0,
      cf_MasqueradeAll = False, cf_MasqueradeBit = 0, cf_ClusterCIDR = '''', cf_HostnameOverride = '''',
      cf_IpvsScheduler = libipvs_RoundRobin, cf_GlogToStderr = False, cf_GlogV = '''', cf_GlogDir = '''',
      cf_BindAddress = ''''\<rparr>"

section \<open>Kernel flags and modules\<close>

record 'w sysfs =
  fs_WriteFile :: "string \<Rightarrow> string \<Rightarrow> 'w \<Rightarrow> go_error option \<times> 'w"
  fs_ReadFile :: "string \<Rightarrow> 'w \<Rightarrow> go_error + string"

definition sysctlBase :: string where "sysctlBase = ''/proc/sys''"
definition sysctlRouteLocalnet :: string where "sysctlRouteLocalnet = ''net/ipv4/conf/all/route_localnet''"
definition sysctlBridgeCallIPTables :: string where "sysctlBridgeCallIPTables = ''net/bridge/bridge-nf-call-iptables''"
definition sysctlVSConnTrack :: string where "sysctlVSConnTrack = ''net/ipv4/vs/conntrack''"
definition sysctlForward :: string where "sysctlForward = ''net/ipv4/ip_forward''"

definition setSysctl :: "'w sysfs \<Rightarrow> string \<Rightarrow> int \<Rightarrow> 'w \<Rightarrow> go_error option \<times> 'w" where
  "setSysctl fs sysctl newVal w = fs_WriteFile fs (sysctlBase @ ''/'' @ sysctl) (Itoa newVal) w"

definition getSysctl :: "'w sysfs \<Rightarrow> string \<Rightarrow> 'w \<Rightarrow> go_error + int" where
  "getSysctl fs sysctl w =
     (case fs_ReadFile fs (sysctlBase @ ''/'' @ sysctl) w of
        Inl err \<Rightarrow> Inl err
      | Inr data \<Rightarrow>
          (case Atoi (Trim data ('' '' @ [CHR 0x0A])) of
             None \<Rightarrow> Inl (''strconv.Atoi: parsing '' @ Quote (Trim data ('' '' @ [CHR 0x0A])))
           | Some val \<Rightarrow> Inr val))"

text \<open>The bridge flag is only read for a log message.\<close>

definition setNetFlag :: "'w sysfs \<Rightarrow> 'w \<Rightarrow> go_error option \<times> 'w" where
  "setNetFlag fs w =
     (case setSysctl fs sysctlRouteLocalnet 1 w of
        (Some err, w1) \<Rightarrow> (Some (''can't set sysctl '' @ sysctlRouteLocalnet @ '': '' @ err), w1)
      | (None, w1) \<Rightarrow>
          (case setSysctl fs sysctlVSConnTrack 1 w1 of
             (Some err, w2) \<Rightarrow> (Some (''can't set sysctl '' @ sysctlVSConnTrack @ '': '' @ err), w2)
           | (None, w2) \<Rightarrow>
               (case setSysctl fs sysctlForward 1 w2 of
                  (Some err, w3) \<Rightarrow> (Some (''can't set sysctl '' @ sysctlForward @ '': '' @ err), w3)
                | (None, w3) \<Rightarrow> (None, w3))))"

definition CanUseIpvs :: "'w execer \<Rightarrow> 'w \<Rightarrow> (go_error + bool) \<times> 'w" where
  "CanUseIpvs exec w =
     (case x_CombinedOutput exec ''cut'' [''-f1'', ''-d'', '' '', ''/proc/modules''] w of
        ((out, Some err), w1) \<Rightarrow> (Inl err, w1)
      | ((out, None), w1) \<Rightarrow>
          (let mods = split_on CHR 0x0A out;
               modules = sort (filter (\<lambda>m. m \<notin> set mods) (remdups IpvsModules))
           in (if length modules \<noteq> 0
               then Inl (''Failed to load kernel modules: ['' @ Join modules '' '' @ '']'')
               else Inr True, w1)))"

section \<open>Creating the proxier\<close>

datatype setup_error =
  MinSyncTooLarge int int
| SetNetFlagFailed go_error
| GetPodCidrFailed go_error

text \<open>The outer option is the fatal exit of \<^verbatim>\<open>GetHostname\<close>.\<close>

definition NewProxier ::
  "'w sysfs \<Rightarrow> 'w netio \<Rightarrow> (string \<Rightarrow> 'w \<Rightarrow> go_error + Node) \<Rightarrow> string \<Rightarrow> KubeEnnProxyConfig \<Rightarrow> string \<Rightarrow> IP \<Rightarrow> 'w
   \<Rightarrow> ((setup_error + Proxier) \<times> 'w) option" where
  "NewProxier fs net nodes_Get DEFAULSCHE config hostname nodeIP w =
     (let syncPeriod = cf_IpvsSyncPeriod config; minSyncPeriod = cf_MinSyncPeriod config in
      if minSyncPeriod > syncPeriod then Some (Inl (MinSyncTooLarge minSyncPeriod syncPeriod), w)
      else (case setNetFlag fs w of
              (Some err, w1) \<Rightarrow> Some (Inl (SetNetFlagFailed err), w1)
            | (None, w1) \<Rightarrow>
                (case GetPodCidrFromNodeSpec net nodes_Get (cf_HostnameOverride config) w1 of
                   None \<Rightarrow> None
                 | Some (Inl err) \<Rightarrow> Some (Inl (GetPodCidrFailed err), w1)
                 | Some (Inr clusterCIDR) \<Rightarrow>
                     Some (Inr \<lparr>p_serviceChanges = NewServiceChangeMap,
                       p_endpointsChanges = NewEndpointsChangeMap hostname,
                       p_serviceMap = [], p_endpointsMap = [], p_portsMap = [], p_kernelIpvsMap = [],
                       p_kernelClusterMap = [], p_endpointsSynced = False, p_servicesSynced = False,
                       p_initialized = 0, p_masqueradeAll = cf_MasqueradeAll config, p_clusterCIDR = clusterCIDR,
                       p_hostname = hostname, p_nodeIP = nodeIP, p_nodeIPs = [],
                       p_scheduler = (if length (cf_IpvsScheduler config) \<noteq> 0 then cf_IpvsScheduler config else DEFAULSCHE),
                       p_syncPeriod = syncPeriod, p_minSyncPeriod = minSyncPeriod\<rparr>, w1))))"

section \<open>Masquerade rules\<close>

definition masq_match :: "string list" where
  "masq_match = [''-m'', ''ipvs'', ''--ipvs'', ''--vdir'', ''ORIGINAL'', ''--vmethod'', ''MASQ'']"

definition masq_all_args :: "string list" where
  "masq_all_args = masq_match @ [''-m'', ''comment'', ''--comment'', ''IPVS SNAT MASQ ALL'', ''-j'', ''MASQUERADE'']"

definition masq_cidr_args :: "string \<Rightarrow> string list" where
  "masq_cidr_args clusterCIDR =
     [''!'', ''-s'', clusterCIDR] @ masq_match @ [''-m'', ''comment'', ''--comment'', ''IPVS SNAT'', ''-j'', ''MASQUERADE'']"

definition ensure_rule ::
  "'w ipt_os \<Rightarrow> IPTables \<Rightarrow> string list \<Rightarrow> 'w \<Rightarrow> (go_error option \<times> 'w) option" where
  "ensure_rule os ipt args w =
     (case PrependUnique os ipt ''nat'' ''POSTROUTING'' args w of
        None \<Rightarrow> None
      | Some (Some err, w1) \<Rightarrow> Some (Some (''EnsureIPtablesMASQ: iptables masq all failed'' @ Error_String err), w1)
      | Some (None, w1) \<Rightarrow> Some (None, w1))"

definition EnsureIPtablesMASQ :: "'w ipt_os \<Rightarrow> Proxier \<Rightarrow> 'w \<Rightarrow> (go_error option \<times> 'w) option" where
  "EnsureIPtablesMASQ os p w =
     (case ipt_New os w of
        (Inl err, w1) \<Rightarrow> Some (Some (''EnsureIPtablesMASQ: iptable init failed'' @ err), w1)
      | (Inr ipt, w1) \<Rightarrow>
          (case (if p_masqueradeAll p then ensure_rule os ipt masq_all_args w1 else Some (None, w1)) of
             None \<Rightarrow> None
           | Some (Some err, w2) \<Rightarrow> Some (Some err, w2)
           | Some (None, w2) \<Rightarrow>
               if length (p_clusterCIDR p) > 0 then ensure_rule os ipt (masq_cidr_args (p_clusterCIDR p)) w2
               else Some (None, w2)))"

section \<open>The periodic loop\<close>

text \<open>An error of the masquerade rules is only logged.\<close>

definition Sync :: "'w penv \<Rightarrow> 'w ipt_os \<Rightarrow> Proxier \<Rightarrow> 'w \<Rightarrow> (Proxier \<times> 'w) option" where
  "Sync env os p w =
     (case EnsureIPtablesMASQ os p w of
        None \<Rightarrow> None
      | Some (err, w1) \<Rightarrow> syncProxyRules env p w1)"

text \<open>What \<^verbatim>\<open>select\<close> sees, one after the other.\<close>

datatype loop_event = Tick | StopCh

fun sync_loop :: "'w penv \<Rightarrow> 'w ipt_os \<Rightarrow> loop_event list \<Rightarrow> Proxier \<Rightarrow> 'w \<Rightarrow> (Proxier \<times> 'w) option" where
  "sync_loop env os [] p w = Some (p, w)"
| "sync_loop env os (Tick # es) p w =
     (case Sync env os p w of None \<Rightarrow> None | Some (p1, w1) \<Rightarrow> sync_loop env os es p1 w1)"
| "sync_loop env os (StopCh # es) p w = Some (p, w)"

text \<open>A failure of the first masquerade call ends the loop before any event.\<close>

definition SyncLoop :: "'w penv \<Rightarrow> 'w ipt_os \<Rightarrow> loop_event list \<Rightarrow> Proxier \<Rightarrow> 'w \<Rightarrow> (Proxier \<times> 'w) option" where
  "SyncLoop env os es p w =
     (case EnsureIPtablesMASQ os p w of
        None \<Rightarrow> None
      | Some (Some err, w1) \<Rightarrow> Some (p, w1)
      | Some (None, w1) \<Rightarrow> sync_loop env os es p w1)"

section \<open>Clean-up\<close>

definition masq_line :: "string \<Rightarrow> bool" where
  "masq_line post \<longleftrightarrow> Contains post ''ipvs'' \<and> Contains post ''MASQUERADE''"

text \<open>The loop over the listing: the number of the line is the number of the rule to delete.\<close>

fun delete_lines :: "'w ipt_os \<Rightarrow> IPTables \<Rightarrow> nat \<Rightarrow> string list \<Rightarrow> 'w \<Rightarrow> (go_error option \<times> 'w) option" where
  "delete_lines os ipt i [] w = Some (None, w)"
| "delete_lines os ipt i (post # posts) w =
     (if masq_line post then
        (case ipt_Delete os ipt ''nat'' ''POSTROUTING'' [Itoa (int i)] w of
           None \<Rightarrow> None
         | Some (Some err, w1) \<Rightarrow>
             Some (Some (''cleanUpIptablesMASQ: delete post routing failed'' @ Error_String err), w1)
         | Some (None, w1) \<Rightarrow> delete_lines os ipt (Suc i) posts w1)
      else delete_lines os ipt (Suc i) posts w)"

definition cleanUpIptablesMASQ :: "'w ipt_os \<Rightarrow> 'w \<Rightarrow> (go_error option \<times> 'w) option" where
  "cleanUpIptablesMASQ os w =
     (case ipt_New os w of
        (Inl err, w1) \<Rightarrow> Some (Some (''cleanUpIptablesMASQ: iptable init failed'' @ err), w1)
      | (Inr ipt, w1) \<Rightarrow>
          (case ipt_List os ipt ''nat'' ''POSTROUTING'' w1 of
             None \<Rightarrow> None
           | Some (Inl err, w2) \<Rightarrow> Some (Some (''cleanUpIptablesMASQ: list post routing failed'' @ Error_String err), w2)
           | Some (Inr post_routing_list, w2) \<Rightarrow> delete_lines os ipt 0 post_routing_list w2))"

definition cleanUpIpvs :: "'w ipvs_Interface \<Rightarrow> 'w \<Rightarrow> 'w" where
  "cleanUpIpvs I w = snd (i_FlushIpvs I w)"

definition cleanUpDummyLink :: "'w ipvs_Interface \<Rightarrow> 'w \<Rightarrow> 'w" where
  "cleanUpDummyLink I w = snd (i_DeleteDummyLink I w)"

definition CleanupLeftovers :: "'w ipt_os \<Rightarrow> 'w ipvs_Interface \<Rightarrow> 'w \<Rightarrow> 'w option" where
  "CleanupLeftovers os I w =
     map_option (\<lambda>(err, w1). cleanUpDummyLink I (cleanUpIpvs I w1)) (cleanUpIptablesMASQ os w)"

section \<open>Masquerade rules on a working iptables\<close>

definition nat_post :: "string \<times> string" where
  "nat_post = (''nat'', ''POSTROUTING'')"

text \<open>The rules the configuration asks for, in the order in which they are ensured.\<close>

definition masq_specs :: "Proxier \<Rightarrow> string list list" where
  "masq_specs p =
     (if p_masqueradeAll p then [masq_all_args] else []) @
     (if p_clusterCIDR p \<noteq> '''' then [masq_cidr_args (p_clusterCIDR p)] else [])"

definition add_missing :: "'a list \<Rightarrow> 'a list \<Rightarrow> 'a list" where
  "add_missing specs rs = fold (\<lambda>s rs. if s \<in> set rs then rs else s # rs) specs rs"

lemma add_missing_Nil [simp]: "add_missing [] rs = rs"
  and add_missing_Cons [simp]:
    "add_missing (s # ss) rs = add_missing ss (if s \<in> set rs then rs else s # rs)"
  by (simp_all add: add_missing_def)

lemma add_missing_prefix:
  "\<exists>news. add_missing specs rs = news @ rs \<and> distinct news \<and> set news = set specs - set rs"
proof (induction specs arbitrary: rs)
  case (Cons s specs)
  show ?case
  proof (cases "s \<in> set rs")
    case True
    with Cons.IH [of rs] show ?thesis by auto
  next
    case False
    obtain news where "add_missing specs (s # rs) = news @ s # rs" "distinct news" "set news = set specs - set (s # rs)"
      using Cons.IH [of "s # rs"] by blast
    with False show ?thesis by (intro exI [of _ "news @ [s]"]) auto
  qed
qed simp

lemma add_missing_present: "set specs \<subseteq> set rs \<Longrightarrow> add_missing specs rs = rs"
  by (induction specs) auto

lemma masq_specs_differ: "masq_all_args \<noteq> masq_cidr_args c"
  by (simp add: masq_all_args_def masq_cidr_args_def masq_match_def)

lemma plain_masq: "plain_spec masq_all_args" "c \<noteq> ''--wait'' \<Longrightarrow> plain_spec (masq_cidr_args c)"
  by (auto simp: plain_spec_def masq_all_args_def masq_cidr_args_def masq_match_def HasPrefix_def)

text \<open>Deleting by the numbers of the lines, as a function on the chain; the flag says no deletion failed.\<close>

fun del_seq :: "nat \<Rightarrow> string list \<Rightarrow> 'a list \<Rightarrow> 'a list \<times> bool" where
  "del_seq i [] cur = (cur, True)"
| "del_seq i (l # ls) cur =
     (if masq_line l then
        if 0 < i \<and> i \<le> length cur then del_seq (Suc i) ls (del_nth (i - 1) cur) else (cur, False)
      else del_seq (Suc i) ls cur)"

lemma del_seq_none: "(\<And>l. l \<in> set ls \<Longrightarrow> \<not> masq_line l) \<Longrightarrow> del_seq i ls cur = (cur, True)"
  by (induction ls arbitrary: i) auto

context iptables_tool
begin

lemma ensure_rule_does:
  assumes "ours ipt" and "ok w" and "rules w nat_post = Some rs" and "plain_spec args"
  shows "\<exists>w'. ensure_rule os ipt args w = Some (None, w') \<and> ok w' \<and>
    rules w' = (rules w)(nat_post \<mapsto> add_missing [args] rs)"
  using PrependUnique_does [OF assms(1,2) assms(3) [unfolded nat_post_def] assms(4)]
  by (auto simp: ensure_rule_def nat_post_def)

lemma Ensure_does:
  assumes "ok w" and "rules w nat_post = Some rs" and "p_clusterCIDR p \<noteq> ''--wait''"
  shows "\<exists>w'. EnsureIPtablesMASQ os p w = Some (None, w') \<and> ok w' \<and>
    rules w' = (rules w)(nat_post \<mapsto> add_missing (masq_specs p) rs)"
proof -
  obtain ipt w1 where n: "ipt_New os w = (Inr ipt, w1)" "ours ipt" "ok w1" "rules w1 = rules w"
    using New_ours [OF assms(1)] by blast
  define a where "a = (if p_masqueradeAll p then [masq_all_args] else [])"
  define c where "c = (if p_clusterCIDR p \<noteq> '''' then [masq_cidr_args (p_clusterCIDR p)] else [])"
  have "\<exists>w2. (if p_masqueradeAll p then ensure_rule os ipt masq_all_args w1 else Some (None, w1)) = Some (None, w2) \<and>
      ok w2 \<and> rules w2 = (rules w)(nat_post \<mapsto> add_missing a rs)"
    using ensure_rule_does [OF n(2,3) _ plain_masq(1), of rs] n(3,4) assms(2)
    by (auto simp: a_def fun_upd_idem)
  then obtain w2 where w2: "(if p_masqueradeAll p then ensure_rule os ipt masq_all_args w1 else Some (None, w1)) = Some (None, w2)"
    "ok w2" "rules w2 = (rules w)(nat_post \<mapsto> add_missing a rs)" by blast
  have "\<exists>w'. (if length (p_clusterCIDR p) > 0 then ensure_rule os ipt (masq_cidr_args (p_clusterCIDR p)) w2
      else Some (None, w2)) = Some (None, w') \<and> ok w' \<and>
      rules w' = (rules w)(nat_post \<mapsto> add_missing c (add_missing a rs))"
    using ensure_rule_does [OF n(2) w2(2) _ plain_masq(2) [OF assms(3)], of "add_missing a rs"] w2(2,3)
    by (auto simp: c_def)
  with n(1) w2(1) show ?thesis
    by (simp add: EnsureIPtablesMASQ_def masq_specs_def a_def c_def add_missing_def)
qed

lemma delete_lines_does:
  assumes "ours ipt" and "ok w" and "rules w nat_post = Some cur"
  shows "\<exists>err w'. delete_lines os ipt i ls w = Some (err, w') \<and> ok w' \<and>
    rules w' = (rules w)(nat_post \<mapsto> fst (del_seq i ls cur)) \<and> (err = None \<longleftrightarrow> snd (del_seq i ls cur))"
  using assms(2,3)
proof (induction ls arbitrary: i w cur)
  case Nil
  then show ?case by (simp add: fun_upd_idem)
next
  case (Cons l ls)
  show ?case
  proof (cases "masq_line l")
    case False
    with Cons show ?thesis by simp
  next
    case True
    obtain err w1 where d: "ipt_Delete os ipt ''nat'' ''POSTROUTING'' [Itoa (int i)] w = Some (err, w1)" "ok w1"
      "if 0 < i \<and> i \<le> length cur then err = None \<and> rules w1 = (rules w)(nat_post \<mapsto> del_nth (i - 1) cur)
       else err \<noteq> None \<and> rules w1 = rules w"
      using Delete_does [OF assms(1) Cons.prems [unfolded nat_post_def], of i] unfolding nat_post_def by blast
    show ?thesis
    proof (cases "0 < i \<and> i \<le> length cur")
      case in_range: True
      with d(3) have r: "err = None" "rules w1 = (rules w)(nat_post \<mapsto> del_nth (i - 1) cur)" by simp_all
      have "rules w1 nat_post = Some (del_nth (i - 1) cur)" by (simp add: r(2))
      from Cons.IH [OF d(2) this, of "Suc i"] obtain err' w' where
        "delete_lines os ipt (Suc i) ls w1 = Some (err', w')" "ok w'"
        "rules w' = (rules w1)(nat_post \<mapsto> fst (del_seq (Suc i) ls (del_nth (i - 1) cur)))"
        "err' = None \<longleftrightarrow> snd (del_seq (Suc i) ls (del_nth (i - 1) cur))" by blast
      with True in_range d(1) r show ?thesis by (simp add: fun_eq_iff)
    next
      case False
      with d True Cons.prems show ?thesis by (cases err) (auto simp: fun_upd_idem)
    qed
  qed
qed

lemma cleanUp_does:
  assumes "ok w" and "rules w nat_post = Some rs"
  shows "\<exists>err w'. cleanUpIptablesMASQ os w = Some (err, w') \<and> ok w' \<and>
    rules w' = (rules w)(nat_post \<mapsto> fst (del_seq 0 (listing (policy nat_post) (show_rule nat_post) rs) rs)) \<and>
    (err = None \<longleftrightarrow> snd (del_seq 0 (listing (policy nat_post) (show_rule nat_post) rs) rs))"
proof -
  obtain ipt w1 where n: "ipt_New os w = (Inr ipt, w1)" "ours ipt" "ok w1" "rules w1 = rules w"
    using New_ours [OF assms(1)] by blast
  obtain w2 where l: "ipt_List os ipt ''nat'' ''POSTROUTING'' w1 =
      Some (Inr (listing (policy nat_post) (show_rule nat_post) rs), w2)" "ok w2" "rules w2 = rules w"
    using List_does [OF n(2,3), of "''nat''" "''POSTROUTING''" rs] n(4) assms(2) unfolding nat_post_def by auto
  have "rules w2 nat_post = Some rs" using l(3) assms(2) by simp
  from delete_lines_does [OF n(2) l(2) this] l n(1) show ?thesis by (simp add: cleanUpIptablesMASQ_def)
qed

end

section \<open>The periodic loop keeps IPVS in shape\<close>

text \<open>
  What the loop needs of the iptables command: it starts, and like the lock file it leaves alone
  whatever \<open>K\<close> says of the world.
\<close>

definition ipt_keeps :: "'w ipt_os \<Rightarrow> ('w \<Rightarrow> bool) \<Rightarrow> bool" where
  "ipt_keeps os K \<longleftrightarrow> (\<forall>w. K w \<longrightarrow>
     (\<forall>path args. K (snd (io_Run os path args w)) \<and> (\<forall>m. snd (snd (fst (io_Run os path args w))) \<noteq> Some (StartFailed m))) \<and>
     (\<forall>path. K (snd (io_Open os path w))) \<and> (\<forall>fd. K (snd (io_Flock os fd w))) \<and> (\<forall>fd. K (io_Close os fd w)))"

lemma cmd_Run_keeps:
  assumes "ipt_keeps os K" and "K w"
  shows "\<exists>r w'. cmd_Run os ipt args w = Some (r, w') \<and> K w'"
proof -
  obtain out errtext e w' where r: "io_Run os (ipt_path ipt) args w = ((out, errtext, e), w')"
    by (metis prod.exhaust)
  then have "K w'" "\<And>m. e \<noteq> Some (StartFailed m)"
    using assms unfolding ipt_keeps_def by (metis fst_conv snd_conv)+
  with r show ?thesis by (auto simp: cmd_Run_def split: option.splits run_error.splits)
qed

lemma runWithOutput_keeps:
  assumes "ipt_keeps os K" and "K w"
  shows "\<exists>err out w'. runWithOutput os ipt args w = Some ((err, out), w') \<and> K w'"
proof (cases "ipt_hasWait ipt")
  case True
  with cmd_Run_keeps [OF assms] show ?thesis by (simp add: runWithOutput_def)
next
  case False
  obtain o1 w1 where o1: "io_Open os xtablesLockFilePath w = (o1, w1)" by (metis prod.exhaust)
  have k1: "K w1" using assms o1 unfolding ipt_keeps_def by (metis snd_conv)
  show ?thesis
  proof (cases o1)
    case (Inl err)
    with False o1 k1 show ?thesis by (simp add: runWithOutput_def newXtablesFileLock_def)
  next
    case (Inr fd)
    obtain f w2 where f: "io_Flock os fd w1 = (f, w2)" by (metis prod.exhaust)
    have k2: "K w2" using assms(1) k1 f unfolding ipt_keeps_def by (metis snd_conv)
    obtain r w3 where r: "cmd_Run os ipt (ipt_path ipt # args) w2 = Some (r, w3)" "K w3"
      using cmd_Run_keeps [OF assms(1) k2] by blast
    have "K (io_Close os fd w3)" using assms(1) r(2) unfolding ipt_keeps_def by simp
    with False o1 Inr f k2 r show ?thesis
      by (cases f; cases r) (auto simp: runWithOutput_def newXtablesFileLock_def tryLock_def)
  qed
qed

lemma ipt_run_keeps:
  "ipt_keeps os K \<Longrightarrow> K w \<Longrightarrow> \<exists>err w'. ipt_run os ipt args w = Some (err, w') \<and> K w'"
  using runWithOutput_keeps [of os K w ipt args] by (auto simp: ipt_run_def)

lemma Exists_keeps:
  assumes "ipt_keeps os K" and "K w"
  shows "\<exists>r w'. ipt_Exists os ipt table chain spec w = Some (r, w') \<and> K w'"
  using runWithOutput_keeps [OF assms, of ipt "[''-t'', table, ''-S'']"]
    ipt_run_keeps [OF assms, of ipt "[''-t'', table, ''-C'', chain] @ spec"]
  by (auto simp: ipt_Exists_def existsForOldIptables_def Let_def split: option.splits ipt_error.splits)

lemma ensure_rule_keeps:
  assumes "ipt_keeps os K" and "K w"
  shows "\<exists>err w'. ensure_rule os ipt args w = Some (err, w') \<and> K w'"
proof -
  obtain r w1 where e: "ipt_Exists os ipt ''nat'' ''POSTROUTING'' args w = Some (r, w1)" "K w1"
    using Exists_keeps [OF assms] by blast
  obtain err w2 where "ipt_Prepend os ipt ''nat'' ''POSTROUTING'' args w1 = Some (err, w2)" "K w2"
    using ipt_run_keeps [OF assms(1) e(2), of ipt "[''-t'', ''nat'', ''-I'', ''POSTROUTING''] @ args"]
    by (auto simp: ipt_Prepend_def)
  with e show ?thesis by (auto simp: ensure_rule_def PrependUnique_def split: sum.splits option.splits)
qed

lemma New_keeps:
  assumes "ipt_keeps os K" and "K w"
  shows "K (snd (ipt_New os w))"
proof -
  have "K w1" if "io_Run os path args w = (r, w1)" for path args r w1
    using assms that unfolding ipt_keeps_def by (metis snd_conv)
  with assms(2) show ?thesis
    by (auto simp: ipt_New_def NewWithProtocol_def getIptablesCommandSupport_def getIptablesVersionString_def
        split: sum.splits prod.splits option.splits run_error.splits)
qed

lemma Ensure_keeps:
  assumes "ipt_keeps os K" and "K w"
  shows "\<exists>err w'. EnsureIPtablesMASQ os p w = Some (err, w') \<and> K w'"
proof -
  obtain r w1 where n: "ipt_New os w = (r, w1)" by (metis prod.exhaust)
  then have k1: "K w1" using New_keeps [OF assms] by simp
  show ?thesis
  proof (cases r)
    case (Inl err)
    with n k1 show ?thesis by (simp add: EnsureIPtablesMASQ_def)
  next
    case (Inr ipt)
    obtain err w2 where a: "(if p_masqueradeAll p then ensure_rule os ipt masq_all_args w1 else Some (None, w1)) =
        Some (err, w2)" "K w2"
      using ensure_rule_keeps [OF assms(1) k1, of ipt masq_all_args] k1 by (cases "p_masqueradeAll p") auto
    with ensure_rule_keeps [OF assms(1) a(2), of ipt "masq_cidr_args (p_clusterCIDR p)"] n Inr show ?thesis
      by (auto simp: EnsureIPtablesMASQ_def split: option.splits)
  qed
qed

text \<open>What every turn of the loop starts from, besides a working world.\<close>

definition settled :: "Proxier \<Rightarrow> Proxier \<Rightarrow> bool" where
  "settled q p \<longleftrightarrow> p_endpointsSynced p \<and> p_servicesSynced p \<and> p_serviceChanges p = [] \<and>
     ecm_Items (p_endpointsChanges p) = [] \<and> p_serviceMap p = p_serviceMap q \<and> p_endpointsMap p = p_endpointsMap q"

lemma settled_input: "settled q p \<Longrightarrow> same_input (p\<lparr>p_nodeIPs := ips\<rparr>) (q\<lparr>p_nodeIPs := ips\<rparr>)"
  by (simp add: settled_def same_input_def)

lemma syncProxyRules_settled:
  assumes "syncProxyRules env p w = Some (p', w')" and "settled q p"
  shows "settled q p'"
  using assms
  by (auto simp: settled_def syncProxyRules_def Let_def split_beta bind_eq_Some_conv finish_sync_fst BuildMaps_frame
      UpdateServiceMap_def UpdateEndpointsMap_def
      dest!: sync_phases_frame(1) arg_cong [where f = fst and y = "(p', w')"]
      split: option.splits sum.splits if_splits)

text \<open>What a turn of the loop achieves.\<close>

definition in_shape ::
  "('w \<Rightarrow> bool) \<Rightarrow> ('w \<Rightarrow> kernel_table) \<Rightarrow> ('w \<Rightarrow> string set) \<Rightarrow> Proxier \<Rightarrow> 'w \<Rightarrow> bool" where
  "in_shape ok vs bound q w \<longleftrightarrow> ok w \<and> proxy_table (vs w) = desired_table q \<and> bound w = cluster_ips q"

context proxy_os
begin

lemma Sync_turn:
  assumes "\<And>V B. ipt_keeps os (\<lambda>w. ok w \<and> vs w = V \<and> bound w = B)"
    and ips: "\<And>w. ok w \<Longrightarrow> GetNodeIPs net (EnnIpvs h) w = Inr ips"
    and q: "syncable (q\<lparr>p_nodeIPs := ips\<rparr>)" "no_conflict (q\<lparr>p_nodeIPs := ips\<rparr>)"
    and free: "ports_free ok (NewProxier_env h net execer recorder roundRobin)"
    and p: "settled q p" "ok w"
  shows "\<exists>p' w'. Sync (NewProxier_env h net execer recorder roundRobin) os p w = Some (p', w') \<and> settled q p' \<and>
    in_shape ok vs bound (q\<lparr>p_nodeIPs := ips\<rparr>) w'"
proof -
  let ?env = "NewProxier_env h net execer recorder roundRobin"
  obtain err w1 where e: "EnsureIPtablesMASQ os p w = Some (err, w1)" "ok w1"
    using Ensure_keeps [OF assms(1), of w] p(2) by blast
  note s = same_input_spec [OF settled_input [OF p(1), of ips]]
  have st: "p_endpointsSynced p" "p_servicesSynced p" "p_serviceChanges p = []" "ecm_Items (p_endpointsChanges p) = []"
    using p(1) by (simp_all add: settled_def)
  from os_sync [OF e(2) st ips] q free s obtain p' w' where
    r: "syncProxyRules ?env p w1 = Some (p', w')" "ok w'" "bound w' = cluster_ips (q\<lparr>p_nodeIPs := ips\<rparr>)"
    "proxy_table (vs w') = desired_table (q\<lparr>p_nodeIPs := ips\<rparr>)" by auto
  with e(1) syncProxyRules_settled [OF r(1) p(1)] show ?thesis by (simp add: Sync_def in_shape_def)
qed

lemma sync_loop_turns:
  assumes keeps: "\<And>V B. ipt_keeps os (\<lambda>w. ok w \<and> vs w = V \<and> bound w = B)"
    and ips: "\<And>w. ok w \<Longrightarrow> GetNodeIPs net (EnnIpvs h) w = Inr ips"
    and q: "syncable (q\<lparr>p_nodeIPs := ips\<rparr>)" "no_conflict (q\<lparr>p_nodeIPs := ips\<rparr>)"
    and free: "ports_free ok (NewProxier_env h net execer recorder roundRobin)"
    and "settled q p" "ok w"
  shows "\<exists>p' w'. sync_loop (NewProxier_env h net execer recorder roundRobin) os (replicate (Suc n) Tick @ StopCh # es) p w = Some (p', w') \<and>
    settled q p' \<and> in_shape ok vs bound (q\<lparr>p_nodeIPs := ips\<rparr>) w'"
  using assms(6,7)
proof (induction n arbitrary: p w)
  case 0
  from Sync_turn [OF keeps ips q free 0] show ?case by auto
next
  case (Suc n)
  obtain p1 w1 where s: "Sync (NewProxier_env h net execer recorder roundRobin) os p w = Some (p1, w1)" "settled q p1"
    "in_shape ok vs bound (q\<lparr>p_nodeIPs := ips\<rparr>) w1"
    using Sync_turn [OF keeps ips q free Suc.prems] by blast
  from s(3) have "ok w1" by (simp add: in_shape_def)
  from Suc.IH [OF s(2) this] s(1) show ?case by simp
qed

end

section \<open>Properties\<close>

text \<open>
  (C20) The masquerade rules converge.  On a working iptables one call of \<^verbatim>\<open>EnsureIPtablesMASQ\<close>
  succeeds and puts exactly the missing ones of the configured rules in front of the POSTROUTING
  chain, each once, leaving every other rule and chain as it is; a second call, as the periodic
  sync makes it, changes nothing.
\<close>

theorem masquerade_rules_converge:
  assumes "iptables_tool os ok rules path vtext policy show_rule" and "ok w" and "rules w nat_post = Some rs"
    and "p_clusterCIDR p \<noteq> ''--wait''"
  shows "\<exists>news w' w''. EnsureIPtablesMASQ os p w = Some (None, w') \<and> rules w' = (rules w)(nat_post \<mapsto> news @ rs) \<and>
    distinct news \<and> set news = set (masq_specs p) - set rs \<and>
    EnsureIPtablesMASQ os p w' = Some (None, w'') \<and> rules w'' = rules w'"
proof -
  obtain w' where e: "EnsureIPtablesMASQ os p w = Some (None, w')" "ok w'"
    "rules w' = (rules w)(nat_post \<mapsto> add_missing (masq_specs p) rs)"
    using iptables_tool.Ensure_does [OF assms(1) assms(2-4)] by blast
  obtain news where n: "add_missing (masq_specs p) rs = news @ rs" "distinct news" "set news = set (masq_specs p) - set rs"
    using add_missing_prefix [of "masq_specs p" rs] by blast
  have "add_missing (masq_specs p) (news @ rs) = news @ rs" using n(3) by (intro add_missing_present) auto
  with iptables_tool.Ensure_does [OF assms(1) e(2) _ assms(4), of "news @ rs"] e(3) n(1)
  obtain w'' where "EnsureIPtablesMASQ os p w' = Some (None, w'')" "rules w'' = rules w'" by auto
  with e n show ?thesis by auto
qed

definition ex_masq :: Proxier where
  "ex_masq = ex_proxier\<lparr>p_masqueradeAll := True, p_clusterCIDR := ''10.1.0.0/16''\<rparr>"

definition ex_foreign :: "string list" where
  "ex_foreign = [''-s'', ''172.17.0.0/16'', ''-j'', ''MASQUERADE'']"

definition ex_iptw :: iptworld where
  "ex_iptw = \<lparr>iw_chains = [nat_post \<mapsto> [ex_foreign]], iw_fds = 3\<rparr>"

theorem masquerade_rules_converge_witness:
  "\<exists>news w' w''. EnsureIPtablesMASQ ref_ipt_os ex_masq ex_iptw = Some (None, w') \<and>
    iw_chains w' = (iw_chains ex_iptw)(nat_post \<mapsto> news @ [ex_foreign]) \<and> distinct news \<and>
    set news = set (masq_specs ex_masq) - set [ex_foreign] \<and>
    EnsureIPtablesMASQ ref_ipt_os ex_masq w' = Some (None, w'') \<and> iw_chains w'' = iw_chains w'"
  by (rule masquerade_rules_converge [OF reft.iptables_tool_axioms]) (simp_all add: ex_iptw_def ex_masq_def)

text \<open>
  (C21) Setting up one masquerade rule and cleaning up gives the chain back.  When the
  configuration asks for at most one rule and no other rule of the chain mentions ipvs and
  MASQUERADE, the clean-up after \<^verbatim>\<open>EnsureIPtablesMASQ\<close> restores every chain.
\<close>

theorem masquerade_cleanup_roundtrip:
  assumes "iptables_tool os ok rules path vtext policy show_rule" and "ok w" and "rules w nat_post = Some rs"
    and "p_clusterCIDR p \<noteq> ''--wait''" and "length (masq_specs p) \<le> 1" and "\<not> masq_line (policy nat_post)"
    and "\<And>r. r \<in> set rs \<Longrightarrow> \<not> masq_line (show_rule nat_post r)"
    and "\<And>s. s \<in> set (masq_specs p) \<Longrightarrow> masq_line (show_rule nat_post s)"
  shows "\<exists>w' w''. EnsureIPtablesMASQ os p w = Some (None, w') \<and> cleanUpIptablesMASQ os w' = Some (None, w'') \<and>
    rules w'' = rules w"
proof -
  obtain w' where e: "EnsureIPtablesMASQ os p w = Some (None, w')" "ok w'"
    "rules w' = (rules w)(nat_post \<mapsto> add_missing (masq_specs p) rs)"
    using iptables_tool.Ensure_does [OF assms(1) assms(2-4)] by blast
  let ?c = "add_missing (masq_specs p) rs"
  have none: "del_seq i (map (show_rule nat_post) rs) cur = (cur, True)" for i and cur :: "string list list"
    using assms(7) by (intro del_seq_none) auto
  have "del_seq 0 (listing (policy nat_post) (show_rule nat_post) ?c) ?c = (rs, True)"
  proof (cases "masq_specs p")
    case Nil
    then show ?thesis using assms(6) none by (simp add: listing_def)
  next
    case (Cons s ss)
    with assms(5,8) have "ss = []" "masq_line (show_rule nat_post s)" by auto
    moreover from this have "s \<notin> set rs" using assms(7) by blast
    ultimately show ?thesis using Cons assms(6) none by (simp add: listing_def del_nth_def)
  qed
  then show ?thesis
    using iptables_tool.cleanUp_does [OF assms(1) e(2), of ?c] e assms(3) by (auto simp: fun_upd_idem)
qed

lemma ref_policy_plain: "\<not> masq_line (ref_policy nat_post)"
  by (simp add: masq_line_def ref_policy_def nat_post_def HasPrefix_def)

lemma ex_foreign_plain: "\<not> masq_line (ref_show nat_post ex_foreign)"
  by (simp add: masq_line_def ref_show_def nat_post_def HasPrefix_def ex_foreign_def)

lemma ref_masq_lines:
  "masq_line (ref_show nat_post masq_all_args)" "masq_line (ref_show nat_post (masq_cidr_args ''10.1.0.0/16''))"
  by (simp_all add: masq_line_def ref_show_def nat_post_def HasPrefix_def masq_all_args_def masq_cidr_args_def
      masq_match_def)

theorem masquerade_cleanup_roundtrip_witness:
  "\<exists>w' w''. EnsureIPtablesMASQ ref_ipt_os (ex_masq\<lparr>p_masqueradeAll := False\<rparr>) ex_iptw = Some (None, w') \<and>
    cleanUpIptablesMASQ ref_ipt_os w' = Some (None, w'') \<and> iw_chains w'' = iw_chains ex_iptw"
  by (rule masquerade_cleanup_roundtrip [OF reft.iptables_tool_axioms])
    (auto simp: ex_iptw_def ex_masq_def masq_specs_def ref_policy_plain ex_foreign_plain ref_masq_lines)

text \<open>
  (C22) With both masquerade rules configured the clean-up deletes a rule it does not own.  It walks
  the listing once and deletes by line number although every deletion shifts the later rules:
  the first rule after the two masquerade rules is deleted and one masquerade rule stays.
\<close>

theorem masquerade_cleanup_deletes_foreign:
  assumes "iptables_tool os ok rules path vtext policy show_rule" and "ok w" and "rules w nat_post = Some (r # rs)"
    and "p_clusterCIDR p \<noteq> ''--wait''" and "p_masqueradeAll p" and "p_clusterCIDR p \<noteq> ''''"
    and "\<not> masq_line (policy nat_post)"
    and "\<And>x. x \<in> set (r # rs) \<Longrightarrow> \<not> masq_line (show_rule nat_post x)"
    and "\<And>s. s \<in> set (masq_specs p) \<Longrightarrow> masq_line (show_rule nat_post s)"
  shows "\<exists>w' w''. EnsureIPtablesMASQ os p w = Some (None, w') \<and> cleanUpIptablesMASQ os w' = Some (None, w'') \<and>
    rules w'' = (rules w)(nat_post \<mapsto> masq_all_args # rs)"
proof -
  obtain w' where e: "EnsureIPtablesMASQ os p w = Some (None, w')" "ok w'"
    "rules w' = (rules w)(nat_post \<mapsto> add_missing (masq_specs p) (r # rs))"
    using iptables_tool.Ensure_does [OF assms(1) assms(2-4)] by blast
  have s: "masq_specs p = [masq_all_args, masq_cidr_args (p_clusterCIDR p)]"
    using assms(5,6) by (simp add: masq_specs_def)
  have l: "masq_line (show_rule nat_post masq_all_args)" "masq_line (show_rule nat_post (masq_cidr_args (p_clusterCIDR p)))"
    using assms(9) by (simp_all add: s)
  then have c: "add_missing (masq_specs p) (r # rs) = masq_cidr_args (p_clusterCIDR p) # masq_all_args # r # rs"
    using assms(8) masq_specs_differ [of "p_clusterCIDR p"] by (auto simp: s)
  have "\<not> masq_line (show_rule nat_post r)" using assms(8) by simp
  moreover have "del_seq i (map (show_rule nat_post) rs) cur = (cur, True)" for i and cur :: "string list list"
    using assms(8) by (intro del_seq_none) auto
  ultimately have "del_seq 0 (listing (policy nat_post) (show_rule nat_post) (masq_cidr_args (p_clusterCIDR p) # masq_all_args # r # rs))
      (masq_cidr_args (p_clusterCIDR p) # masq_all_args # r # rs) = (masq_all_args # rs, True)"
    using assms(7) l by (simp add: listing_def del_nth_def)
  then obtain w'' where "cleanUpIptablesMASQ os w' = Some (None, w'')" "rules w'' = (rules w')(nat_post \<mapsto> masq_all_args # rs)"
    using iptables_tool.cleanUp_does [OF assms(1) e(2), of "masq_cidr_args (p_clusterCIDR p) # masq_all_args # r # rs"] e
    by (auto simp: c)
  with e(1) show ?thesis unfolding e(3) fun_upd_upd by blast
qed

theorem masquerade_cleanup_deletes_foreign_witness:
  "\<exists>w' w''. EnsureIPtablesMASQ ref_ipt_os ex_masq ex_iptw = Some (None, w') \<and>
    cleanUpIptablesMASQ ref_ipt_os w' = Some (None, w'') \<and>
    iw_chains w'' = (iw_chains ex_iptw)(nat_post \<mapsto> [masq_all_args])"
  by (rule masquerade_cleanup_deletes_foreign [OF reft.iptables_tool_axioms, where r = ex_foreign])
    (auto simp: ex_iptw_def ex_masq_def masq_specs_def ref_policy_plain ex_foreign_plain ref_masq_lines)


text \<open>An iptables whose every call succeeds and leaves the kernel model alone.\<close>

definition ex_quiet_ipt :: "'w ipt_os" where
  "ex_quiet_ipt = \<lparr>io_LookPath = (\<lambda>_ _. Inr ''/sbin/iptables''),
     io_Run = (\<lambda>_ _ w. ((ref_vtext, '''', None), w)), io_Open = (\<lambda>_ w. (Inr 3, w)),
     io_Flock = (\<lambda>_ w. (Flock_nil, w)), io_Close = (\<lambda>_ w. w)\<rparr>"


text \<open>
  The check for IPVS support answers yes exactly when the listing of the loaded modules names
  every module the proxy needs, and otherwise fails with an error.
\<close>

theorem CanUseIpvs_iff:
  assumes "x_CombinedOutput exec ''cut'' [''-f1'', ''-d'', '' '', ''/proc/modules''] w =
      ((concat (map (\<lambda>l. l @ [CHR 0x0A]) mods), None), w')"
    and "\<And>m. m \<in> set mods \<Longrightarrow> CHR 0x0A \<notin> set m"
  shows "if set IpvsModules \<subseteq> set mods then CanUseIpvs exec w = (Inr True, w')
    else \<exists>err. CanUseIpvs exec w = (Inl err, w')"
proof -
  have "split_on CHR 0x0A (concat (map (\<lambda>l. l @ [CHR 0x0A]) mods)) = mods @ [[]]"
    using assms(2) by (rule split_on_lines)
  with assms(1) show ?thesis by (auto simp: CanUseIpvs_def Let_def filter_empty_conv IpvsModules_def)
qed

theorem CanUseIpvs_iff_witness:
  "CanUseIpvs \<lparr>x_LookPath = (\<lambda>_ _. Inr ''/usr/bin/cut''), x_CombinedOutput = (\<lambda>_ _ w.
       ((concat (map (\<lambda>l. l @ [CHR 0x0A]) [''ip_vs'', ''ext4'', ''ip_vs_rr'', ''nf_conntrack_ipv4'']), None), w))\<rparr> () =
     (Inr True, ())"
  (is "CanUseIpvs ?x () = _")
proof -
  let ?mods = "[''ip_vs'', ''ext4'', ''ip_vs_rr'', ''nf_conntrack_ipv4'']"
  have "if set IpvsModules \<subseteq> set ?mods then CanUseIpvs ?x () = (Inr True, ()) else \<exists>err. CanUseIpvs ?x () = (Inl err, ())"
    by (rule CanUseIpvs_iff) auto
  then show ?thesis by (simp add: IpvsModules_def)
qed

end

