(* ===== verification/Proxy_Config.thy ===== *)
theory Proxy_Config
  imports Proxier_Events
begin

text \<open>
  src/pkg/proxy/config: the configurations that an informer calls with raw objects and that pass
  them on, typed, to the registered handlers.  \<open>'s\<close> is the state all handlers share; a handler
  that panics is \<open>None\<close>.  The informer (client-go) is a parameter: the sequence of its calls.
\<close>

section \<open>Raw objects and handlers\<close>

text \<open>What an informer can pass as \<^verbatim>\<open>interface{}\<close>; a tombstone carries a key and the last known object.\<close>

datatype object =
  Obj_Service api_Service
| Obj_Endpoints api_Endpoints
| DeletedFinalStateUnknown string object
| Obj_other

record 's ServiceHandler =
  sh_OnServiceAdd :: "api_Service \<Rightarrow> 's \<Rightarrow> 's option"
  sh_OnServiceUpdate :: "api_Service \<Rightarrow> api_Service \<Rightarrow> 's \<Rightarrow> 's option"
  sh_OnServiceDelete :: "api_Service \<Rightarrow> 's \<Rightarrow> 's option"
  sh_OnServiceSynced :: "'s \<Rightarrow> 's option"

record 's EndpointsHandler =
  eh_OnEndpointsAdd :: "api_Endpoints \<Rightarrow> 's \<Rightarrow> 's option"
  eh_OnEndpointsUpdate :: "api_Endpoints \<Rightarrow> api_Endpoints \<Rightarrow> 's \<Rightarrow> 's option"
  eh_OnEndpointsDelete :: "api_Endpoints \<Rightarrow> 's \<Rightarrow> 's option"
  eh_OnEndpointsSynced :: "'s \<Rightarrow> 's option"

record 's ServiceConfig =
  scf_eventHandlers :: "'s ServiceHandler list"

record 's EndpointsConfig =
  ecf_eventHandlers :: "'s EndpointsHandler list"

definition NewServiceConfig :: "'s ServiceConfig" where
  "NewServiceConfig = \<lparr>scf_eventHandlers = []\<rparr>"

definition NewEndpointsConfig :: "'s EndpointsConfig" where
  "NewEndpointsConfig = \<lparr>ecf_eventHandlers = []\<rparr>"

definition ServiceConfig_RegisterEventHandler :: "'s ServiceHandler \<Rightarrow> 's ServiceConfig \<Rightarrow> 's ServiceConfig" where
  "ServiceConfig_RegisterEventHandler handler c = c\<lparr>scf_eventHandlers := scf_eventHandlers c @ [handler]\<rparr>"

definition EndpointsConfig_RegisterEventHandler :: "'s EndpointsHandler \<Rightarrow> 's EndpointsConfig \<Rightarrow> 's EndpointsConfig" where
  "EndpointsConfig_RegisterEventHandler handler c = c\<lparr>ecf_eventHandlers := ecf_eventHandlers c @ [handler]\<rparr>"

section \<open>Passing events on\<close>

text \<open>An object of an unexpected type is reported and dropped.\<close>

definition handleAddService :: "'s ServiceConfig \<Rightarrow> object \<Rightarrow> 's \<Rightarrow> 's option" where
  "handleAddService c obj s =
     (case obj of
        Obj_Service service \<Rightarrow> foldM (\<lambda>h. sh_OnServiceAdd h service) (scf_eventHandlers c) s
      | _ \<Rightarrow> Some s)"

definition handleUpdateService :: "'s ServiceConfig \<Rightarrow> object \<Rightarrow> object \<Rightarrow> 's \<Rightarrow> 's option" where
  "handleUpdateService c oldObj newObj s =
     (case oldObj of
        Obj_Service oldService \<Rightarrow>
          (case newObj of
             Obj_Service service \<Rightarrow> foldM (\<lambda>h. sh_OnServiceUpdate h oldService service) (scf_eventHandlers c) s
           | _ \<Rightarrow> Some s)
      | _ \<Rightarrow> Some s)"

definition handleDeleteService :: "'s ServiceConfig \<Rightarrow> object \<Rightarrow> 's \<Rightarrow> 's option" where
  "handleDeleteService c obj s =
     (let deliver = (\<lambda>service. foldM (\<lambda>h. sh_OnServiceDelete h service) (scf_eventHandlers c) s) in
      case obj of
        Obj_Service service \<Rightarrow> deliver service
      | DeletedFinalStateUnknown key tombstoneObj \<Rightarrow>
          (case tombstoneObj of Obj_Service service \<Rightarrow> deliver service | _ \<Rightarrow> Some s)
      | _ \<Rightarrow> Some s)"

definition handleAddEndpoints :: "'s EndpointsConfig \<Rightarrow> object \<Rightarrow> 's \<Rightarrow> 's option" where
  "handleAddEndpoints c obj s =
     (case obj of
        Obj_Endpoints endpoints \<Rightarrow> foldM (\<lambda>h. eh_OnEndpointsAdd h endpoints) (ecf_eventHandlers c) s
      | _ \<Rightarrow> Some s)"

definition handleUpdateEndpoints :: "'s EndpointsConfig \<Rightarrow> object \<Rightarrow> object \<Rightarrow> 's \<Rightarrow> 's option" where
  "handleUpdateEndpoints c oldObj newObj s =
     (case oldObj of
        Obj_Endpoints oldEndpoints \<Rightarrow>
          (case newObj of
             Obj_Endpoints endpoints \<Rightarrow> foldM (\<lambda>h. eh_OnEndpointsUpdate h oldEndpoints endpoints) (ecf_eventHandlers c) s
           | _ \<Rightarrow> Some s)
      | _ \<Rightarrow> Some s)"

definition handleDeleteEndpoints :: "'s EndpointsConfig \<Rightarrow> object \<Rightarrow> 's \<Rightarrow> 's option" where
  "handleDeleteEndpoints c obj s =
     (let deliver = (\<lambda>endpoints. foldM (\<lambda>h. eh_OnEndpointsDelete h endpoints) (ecf_eventHandlers c) s) in
      case obj of
        Obj_Endpoints endpoints \<Rightarrow> deliver endpoints
      | DeletedFinalStateUnknown key tombstoneObj \<Rightarrow>
          (case tombstoneObj of Obj_Endpoints endpoints \<Rightarrow> deliver endpoints | _ \<Rightarrow> Some s)
      | _ \<Rightarrow> Some s)"

text \<open>
  \<open>waitForCacheSync\<close> is the answer of the library: whether the cache synced before the stop signal.
  Afterwards the goroutine waits for the stop signal.
\<close>

definition waitForCacheSync :: "bool \<Rightarrow> bool" where
  "waitForCacheSync cache_WaitForCacheSync = (if \<not> cache_WaitForCacheSync then False else True)"

definition ServiceConfig_Run :: "'s ServiceConfig \<Rightarrow> bool \<Rightarrow> 's \<Rightarrow> 's option" where
  "ServiceConfig_Run c cacheSynced s =
     (if \<not> waitForCacheSync cacheSynced then Some s
      else foldM (\<lambda>h. sh_OnServiceSynced h) (scf_eventHandlers c) s)"

definition EndpointsConfig_Run :: "'s EndpointsConfig \<Rightarrow> bool \<Rightarrow> 's \<Rightarrow> 's option" where
  "EndpointsConfig_Run c cacheSynced s =
     (if \<not> waitForCacheSync cacheSynced then Some s
      else foldM (\<lambda>h. eh_OnEndpointsSynced h) (ecf_eventHandlers c) s)"

section \<open>The calls of an informer\<close>

datatype 'o notification = Added 'o | Updated 'o 'o | Deleted 'o | DeletedUnknown string 'o

fun notify_service :: "'s ServiceConfig \<Rightarrow> api_Service notification \<Rightarrow> 's \<Rightarrow> 's option" where
  "notify_service c (Added x) s = handleAddService c (Obj_Service x) s"
| "notify_service c (Updated old x) s = handleUpdateService c (Obj_Service old) (Obj_Service x) s"
| "notify_service c (Deleted x) s = handleDeleteService c (Obj_Service x) s"
| "notify_service c (DeletedUnknown key x) s = handleDeleteService c (DeletedFinalStateUnknown key (Obj_Service x)) s"

fun notify_endpoints :: "'s EndpointsConfig \<Rightarrow> api_Endpoints notification \<Rightarrow> 's \<Rightarrow> 's option" where
  "notify_endpoints c (Added x) s = handleAddEndpoints c (Obj_Endpoints x) s"
| "notify_endpoints c (Updated old x) s = handleUpdateEndpoints c (Obj_Endpoints old) (Obj_Endpoints x) s"
| "notify_endpoints c (Deleted x) s = handleDeleteEndpoints c (Obj_Endpoints x) s"
| "notify_endpoints c (DeletedUnknown key x) s =
     handleDeleteEndpoints c (DeletedFinalStateUnknown key (Obj_Endpoints x)) s"

text \<open>What a call says about the store of the informer.\<close>

fun notif_event :: "('o \<Rightarrow> 'n) \<Rightarrow> 'o notification \<Rightarrow> ('n, 'o) event" where
  "notif_event nsn (Added x) = (nsn x, None, Some x)"
| "notif_event nsn (Updated old x) = (nsn x, Some old, Some x)"
| "notif_event nsn (Deleted x) = (nsn x, Some x, None)"
| "notif_event nsn (DeletedUnknown key x) = (nsn x, Some x, None)"

lemma store_after_well_named:
  "well_named nsn st \<Longrightarrow> well_named nsn (store_after st (map (notif_event nsn) ns))"
proof (induction ns arbitrary: st)
  case (Cons n ns)
  have "well_named nsn (store_after st [notif_event nsn n])"
    using Cons.prems by (cases n) (auto simp: well_named_def)
  from Cons.IH [OF this] show ?case by (simp only: list.map store_after_Cons [of st _ "map (notif_event nsn) ns"])
qed simp

section \<open>What a handler promises\<close>

text \<open>
  A handler of named objects keeps an invariant \<open>inv\<close> that relates its state to the store it has
  seen.  The client is the configuration: whatever the informer calls, the invariant follows.
\<close>

fun notify_handler ::
  "('o \<Rightarrow> 's \<Rightarrow> 's option) \<Rightarrow> ('o \<Rightarrow> 'o \<Rightarrow> 's \<Rightarrow> 's option) \<Rightarrow> ('o \<Rightarrow> 's \<Rightarrow> 's option) \<Rightarrow> 'o notification \<Rightarrow> 's \<Rightarrow> 's option"
  where
  "notify_handler onAdd onUpdate onDelete (Added x) = onAdd x"
| "notify_handler onAdd onUpdate onDelete (Updated old x) = onUpdate old x"
| "notify_handler onAdd onUpdate onDelete (Deleted x) = onDelete x"
| "notify_handler onAdd onUpdate onDelete (DeletedUnknown key x) = onDelete x"

locale object_handler =
  fixes nsn :: "'o \<Rightarrow> 'n"
    and onAdd :: "'o \<Rightarrow> 's \<Rightarrow> 's option"
    and onUpdate :: "'o \<Rightarrow> 'o \<Rightarrow> 's \<Rightarrow> 's option"
    and onDelete :: "'o \<Rightarrow> 's \<Rightarrow> 's option"
    and inv :: "('n \<rightharpoonup> 'o) \<Rightarrow> 's \<Rightarrow> bool"
  assumes on_add: "inv st s \<Longrightarrow> st (nsn x) = None \<Longrightarrow> \<exists>s'. onAdd x s = Some s' \<and> inv (st(nsn x \<mapsto> x)) s'"
    and on_update: "inv st s \<Longrightarrow> st (nsn x) = Some old \<Longrightarrow> \<exists>s'. onUpdate old x s = Some s' \<and> inv (st(nsn x \<mapsto> x)) s'"
    and on_delete: "inv st s \<Longrightarrow> st (nsn x) = Some x \<Longrightarrow> \<exists>s'. onDelete x s = Some s' \<and> inv (st(nsn x := None)) s'"
begin

lemma notify_step:
  assumes "inv st s" and "consistent st [notif_event nsn n]"
  shows "\<exists>s'. notify_handler onAdd onUpdate onDelete n s = Some s' \<and> inv (store_after st [notif_event nsn n]) s'"
  using assms on_add [of st s] on_update [of st s] on_delete [of st s] by (cases n) auto

lemma notify_all:
  assumes "inv st s" and "consistent st (map (notif_event nsn) ns)"
  shows "\<exists>s'. foldM (notify_handler onAdd onUpdate onDelete) ns s = Some s' \<and>
    inv (store_after st (map (notif_event nsn) ns)) s'"
  using assms
proof (induction ns arbitrary: st s)
  case (Cons n ns)
  have c: "consistent st [notif_event nsn n]"
    "consistent (store_after st [notif_event nsn n]) (map (notif_event nsn) ns)"
    using Cons.prems(2) by (simp_all only: list.map consistent_Cons [of st _ "map (notif_event nsn) ns"])
  obtain s1 where s1: "notify_handler onAdd onUpdate onDelete n s = Some s1" "inv (store_after st [notif_event nsn n]) s1"
    using notify_step [OF Cons.prems(1) c(1)] by blast
  from Cons.IH [OF s1(2) c(2)] s1(1) show ?case
    unfolding list.map store_after_Cons [of st _ "map (notif_event nsn) ns"] by simp
qed simp

end

section \<open>The proxier as the handler\<close>

definition proxier_ServiceHandler :: "'w penv \<Rightarrow> (Proxier \<times> 'w) ServiceHandler" where
  "proxier_ServiceHandler env =
     \<lparr>sh_OnServiceAdd = (\<lambda>x (p, w). OnServiceAdd env x p w),
      sh_OnServiceUpdate = (\<lambda>old x (p, w). OnServiceUpdate env old x p w),
      sh_OnServiceDelete = (\<lambda>x (p, w). OnServiceDelete env x p w),
      sh_OnServiceSynced = (\<lambda>(p, w). OnServiceSynced env p w)\<rparr>"

definition proxier_EndpointsHandler :: "'w penv \<Rightarrow> (Proxier \<times> 'w) EndpointsHandler" where
  "proxier_EndpointsHandler env =
     \<lparr>eh_OnEndpointsAdd = (\<lambda>x (p, w). OnEndpointsAdd env x p w),
      eh_OnEndpointsUpdate = (\<lambda>old x (p, w). OnEndpointsUpdate env old x p w),
      eh_OnEndpointsDelete = (\<lambda>x (p, w). OnEndpointsDelete env x p w),
      eh_OnEndpointsSynced = (\<lambda>(p, w). OnEndpointsSynced env p w)\<rparr>"

definition proxier_ServiceConfig :: "'w penv \<Rightarrow> (Proxier \<times> 'w) ServiceConfig" where
  "proxier_ServiceConfig env = ServiceConfig_RegisterEventHandler (proxier_ServiceHandler env) NewServiceConfig"

definition proxier_EndpointsConfig :: "'w penv \<Rightarrow> (Proxier \<times> 'w) EndpointsConfig" where
  "proxier_EndpointsConfig env = EndpointsConfig_RegisterEventHandler (proxier_EndpointsHandler env) NewEndpointsConfig"

text \<open>
  Before the initial sync the proxier only records: relative to the proxier \<open>p0\<close> that was created, its
  pending changes describe the stores.
\<close>

definition recording ::
  "Proxier \<Rightarrow> 'w \<Rightarrow> (NamespacedName \<rightharpoonup> api_Service) \<Rightarrow> (NamespacedName \<rightharpoonup> api_Endpoints) \<Rightarrow> Proxier \<times> 'w \<Rightarrow> bool" where
  "recording p0 w0 sst est s \<longleftrightarrow> (\<exists>sitems eitems. s = (p0\<lparr>p_serviceChanges := sitems,
       p_endpointsChanges := \<lparr>ecm_Hostname = p_hostname p0, ecm_Items = eitems\<rparr>\<rparr>, w0) \<and>
     service_pending Map.empty sst sitems \<and> endpoints_pending (p_hostname p0) Map.empty est eitems) \<and>
     \<not> isInitialized p0"

lemma recording_service_event:
  assumes "recording p0 w0 sst est (p, w)" and "old = sst n"
  shows "\<exists>s'. service_event env n old new p w = Some s' \<and> recording p0 w0 (sst(n := new)) est s'"
proof -
  obtain si ei where p: "p = p0\<lparr>p_serviceChanges := si,
       p_endpointsChanges := \<lparr>ecm_Hostname = p_hostname p0, ecm_Items = ei\<rparr>\<rparr>" "w = w0"
    "service_pending Map.empty sst si" "endpoints_pending (p_hostname p0) Map.empty est ei" "\<not> isInitialized p0"
    using assms(1) by (auto simp: recording_def)
  from svc.pending_upd [OF p(3) assms(2)]
  have "service_pending Map.empty (sst(n := new)) (fst (ServiceChangeMap_Update si n old new))" .
  then have "recording p0 w0 (sst(n := new)) est (p\<lparr>p_serviceChanges := fst (ServiceChangeMap_Update si n old new)\<rparr>, w)"
    unfolding recording_def p(1,2)
    by (intro conjI exI [of _ "fst (ServiceChangeMap_Update si n old new)"] exI [of _ ei] p(4,5)) simp_all
  moreover have "service_event env n old new p w = Some (p\<lparr>p_serviceChanges := fst (ServiceChangeMap_Update si n old new)\<rparr>, w)"
    using p(5) by (simp add: p(1) service_event_def split_beta isInitialized_def)
  ultimately show ?thesis by blast
qed

lemma recording_endpoints_event:
  assumes "recording p0 w0 sst est (p, w)" and "old = est n"
  shows "\<exists>s'. endpoints_event env n old new p w = Some s' \<and> recording p0 w0 sst (est(n := new)) s'"
proof -
  obtain si ei where p: "p = p0\<lparr>p_serviceChanges := si,
       p_endpointsChanges := \<lparr>ecm_Hostname = p_hostname p0, ecm_Items = ei\<rparr>\<rparr>" "w = w0"
    "service_pending Map.empty sst si" "endpoints_pending (p_hostname p0) Map.empty est ei" "\<not> isInitialized p0"
    using assms(1) by (auto simp: recording_def)
  from ep.pending_upd [OF p(4) assms(2)]
  have "endpoints_pending (p_hostname p0) Map.empty (est(n := new))
      (fst (EndpointsChangeItems_Update (p_hostname p0) ei n old new))" .
  then have "recording p0 w0 sst (est(n := new)) (p\<lparr>p_endpointsChanges := \<lparr>ecm_Hostname = p_hostname p0,
      ecm_Items = fst (EndpointsChangeItems_Update (p_hostname p0) ei n old new)\<rparr>\<rparr>, w)"
    unfolding recording_def p(1,2)
    by (intro conjI exI [of _ si] exI [of _ "fst (EndpointsChangeItems_Update (p_hostname p0) ei n old new)"] p(3,5)) simp_all
  moreover have "endpoints_event env n old new p w = Some (p\<lparr>p_endpointsChanges := \<lparr>ecm_Hostname = p_hostname p0,
      ecm_Items = fst (EndpointsChangeItems_Update (p_hostname p0) ei n old new)\<rparr>\<rparr>, w)"
    using p(5) by (simp add: p(1) endpoints_event_def EndpointsChangeMap_Update_def split_beta isInitialized_def)
  ultimately show ?thesis by blast
qed

interpretation psh: object_handler service_nsn "\<lambda>x (p, w). OnServiceAdd env x p w"
  "\<lambda>old x (p, w). OnServiceUpdate env old x p w" "\<lambda>x (p, w). OnServiceDelete env x p w"
  "\<lambda>sst. recording p0 w0 sst est"
  by unfold_locales
    (simp_all only: split_paired_all case_prod_conv OnServiceAdd_def OnServiceUpdate_def OnServiceDelete_def,
      (rule recording_service_event; simp)+)

interpretation peh: object_handler endpoints_nsn "\<lambda>x (p, w). OnEndpointsAdd env x p w"
  "\<lambda>old x (p, w). OnEndpointsUpdate env old x p w" "\<lambda>x (p, w). OnEndpointsDelete env x p w"
  "\<lambda>est. recording p0 w0 sst est"
  by unfold_locales
    (simp_all only: split_paired_all case_prod_conv OnEndpointsAdd_def OnEndpointsUpdate_def OnEndpointsDelete_def,
      (rule recording_endpoints_event; simp)+)

text \<open>What an informer delivers reaches the handlers of the proxier.\<close>

lemma notify_service_proxier:
  "notify_service (proxier_ServiceConfig env) n = notify_handler (\<lambda>x (p, w). OnServiceAdd env x p w)
     (\<lambda>old x (p, w). OnServiceUpdate env old x p w) (\<lambda>x (p, w). OnServiceDelete env x p w) n"
  by (cases n) (simp_all add: fun_eq_iff handleAddService_def handleUpdateService_def handleDeleteService_def Let_def
      proxier_ServiceConfig_def ServiceConfig_RegisterEventHandler_def NewServiceConfig_def proxier_ServiceHandler_def
      foldM_Nil_fun Option.bind_runit)

lemma notify_endpoints_proxier:
  "notify_endpoints (proxier_EndpointsConfig env) n = notify_handler (\<lambda>x (p, w). OnEndpointsAdd env x p w)
     (\<lambda>old x (p, w). OnEndpointsUpdate env old x p w) (\<lambda>x (p, w). OnEndpointsDelete env x p w) n"
  by (cases n) (simp_all add: fun_eq_iff handleAddEndpoints_def handleUpdateEndpoints_def handleDeleteEndpoints_def
      Let_def proxier_EndpointsConfig_def EndpointsConfig_RegisterEventHandler_def NewEndpointsConfig_def
      proxier_EndpointsHandler_def foldM_Nil_fun Option.bind_runit)

end
