(* ===== verification/Proxier_Startup.thy ===== *)
theory Proxier_Startup
  imports Proxier_Setup Proxy_Config
begin

text \<open>
  The first sync of src/pkg/proxy/ipvs/proxier.go: everything is still pending, nothing was applied
  and IPVS is empty.  Both incremental phases run; together they build the desired table.
\<close>

section \<open>Both incremental phases\<close>

lemma sync_phases_incremental:
  assumes "p_serviceChanges p \<noteq> [] \<or> ecm_Items (p_endpointsChanges p) \<noteq> []"
    and "foldM (\<lambda>(_, ch). sync_service_change env p link ch) (p_serviceChanges p)
      \<lparr>sy_w = w, sy_ports = [], sy_active = [], sy_bind = []\<rparr> = Some st"
  shows "\<exists>st'. sync_phases env link p w =
      Some (p\<lparr>p_serviceChanges := [], p_endpointsChanges := (p_endpointsChanges p)\<lparr>ecm_Items := []\<rparr>\<rparr>, st') \<and>
    sy_w st' = fold (\<lambda>(_, ch). sync_endpoints_change env (p\<lparr>p_serviceChanges := []\<rparr>) ch)
      (ecm_Items (p_endpointsChanges p)) (sy_w st)"
proof (cases "p_serviceChanges p = []")
  case True
  then have eq: "p\<lparr>p_serviceChanges := []\<rparr> = p" by simp
  show ?thesis unfolding eq using assms True by (simp add: sync_phases_def Let_def)
next
  case False
  then show ?thesis using assms(2) by (simp add: sync_phases_def Let_def)
qed

lemma change_table_fresh: "range_map (sc_Previous ch) = [] \<Longrightarrow> change_table p ch t = with_keys (map_keys p (sc_Current ch)) t"
  by (auto simp: change_table_def with_keys_def map_keys_def fun_eq_iff split: option.splits)

text \<open>With nothing applied before, the pending services are the whole service map.\<close>

lemma fresh_services:
  assumes "service_pending Map.empty st items" and "well_named service_nsn st"
  shows "map_of (fst (UpdateServiceMap [] items)) = service_view st"
    and "(n, ch) \<in> set items \<Longrightarrow> range_map (sc_Previous ch) = []"
    and "set (fst (UpdateServiceMap [] items)) = (\<Union>(_, ch) \<in> set items. set (range_map (sc_Current ch)))"
proof -
  have none: "range_map (serviceToServiceMap None) = []" by (simp add: serviceToServiceMap_def range_map_def)
  have wn: "well_named service_nsn Map.empty" by (simp add: well_named_def)
  show m: "map_of (fst (UpdateServiceMap [] items)) = service_view st"
    by (rule UpdateServiceMap_view [OF assms(1) wn assms(2)]) simp
  show "range_map (sc_Previous ch) = []" if "(n, ch) \<in> set items" for n ch
    using svc.pending_item(2) [OF assms(1) that] none by simp
  have wf: "wf_gomap (fst (UpdateServiceMap [] items))" by (rule UpdateServiceMap_wf) simp
  have item: "sc_Current ch = serviceToServiceMap (st n)" if "(n, ch) \<in> set items" for n ch
    by (rule svc.pending_item(1) [OF assms(1) that])
  have mem: "(k, v) \<in> set (fst (UpdateServiceMap [] items)) \<longleftrightarrow>
      (k, v) \<in> set (range_map (serviceToServiceMap (st (spn_NamespacedName k))))" for k v
    unfolding wf_gomap_mem [OF wf] wf_gomap_mem [OF serviceToServiceMap_wf] m object_view_def ..
  have listed: "\<exists>ch. (n, ch) \<in> set items" if "(k, v) \<in> set (range_map (serviceToServiceMap (st n)))" for n k v
  proof (rule ccontr)
    assume "\<nexists>ch. (n, ch) \<in> set items"
    then have "map_of items n = None" by (auto simp: map_of_eq_None_iff)
    from pending_NoneD [OF assms(1) this] have "map_of (range_map (serviceToServiceMap (st n))) = Map.empty"
      using DeepEqual_maps_map_of none by fastforce
    with that show False by simp
  qed
  have named: "spn_NamespacedName k = n" if "(k, v) \<in> set (range_map (serviceToServiceMap (st n)))" for n k v
    by (rule svc.named_keys [OF assms(2)]) (rule image_eqI [OF _ that, of k fst], simp)
  show "set (fst (UpdateServiceMap [] items)) = (\<Union>(_, ch) \<in> set items. set (range_map (sc_Current ch)))"
  proof (rule set_eqI, clarify)
    fix k v
    show "(k, v) \<in> set (fst (UpdateServiceMap [] items)) \<longleftrightarrow>
        (k, v) \<in> (\<Union>(_, ch) \<in> set items. set (range_map (sc_Current ch)))"
      unfolding mem
    proof
      assume "(k, v) \<in> set (range_map (serviceToServiceMap (st (spn_NamespacedName k))))"
      with listed [OF this] item show "(k, v) \<in> (\<Union>(_, ch) \<in> set items. set (range_map (sc_Current ch)))"
        by (metis (no_types, lifting) UN_I case_prod_conv)
    next
      assume "(k, v) \<in> (\<Union>(_, ch) \<in> set items. set (range_map (sc_Current ch)))"
      then obtain n ch where c: "(n, ch) \<in> set items" "(k, v) \<in> set (range_map (sc_Current ch))" by blast
      then show "(k, v) \<in> set (range_map (serviceToServiceMap (st (spn_NamespacedName k))))"
        using item [OF c(1)] named [of k v n] by simp
    qed
  qed
qed

lemma desired_table_unlisted:
  assumes "wf_gomap (p_serviceMap q)" and "no_conflict q" and "k \<in> dom (desired_table q)"
    and "\<And>n. k \<in> keys_of q n \<Longrightarrow> map_of (p_endpointsMap q) n = None"
  shows "desired_table q k = Some {}"
proof -
  from assms(3) obtain S where S: "desired_table q k = Some S" by blast
  from desired_table_owner [OF S] obtain n i where
    n: "(n, i) \<in> set (p_serviceMap q)" "k \<in> set (service_keys q i)" "S = eps_vals q n" .
  then have "k \<in> keys_of q n" using assms(1) by (simp add: keys_of_def wf_gomap_mem)
  from assms(4) [OF this] S n(3) show ?thesis by (simp add: eps_vals_def gm_slice_def)
qed

context proxier_env
begin

lemma fresh_service_changes:
  assumes free: "ports_free ok env" and ips: "list_all is_v4 (p_nodeIPs p)" and "ok (sy_w st)"
    and items: "\<And>n ch. (n, ch) \<in> set items \<Longrightarrow> range_map (sc_Previous ch) = [] \<and> valid_infos (sc_Current ch)"
  shows "\<exists>st'. foldM (\<lambda>(_, ch). sync_service_change env p link ch) items st = Some st' \<and> ok (sy_w st') \<and>
    tbl (sy_w st') = with_keys (\<Union>(_, ch) \<in> set items. map_keys p (sc_Current ch)) (tbl (sy_w st)) \<and>
    bound (sy_w st') = (\<Union>(_, ch) \<in> set items. (\<lambda>(_, i). IP_String (si_ClusterIP i)) ` set (range_map (sc_Current ch)))
      \<union> bound (sy_w st)"
proof -
  let ?K = "\<lambda>x. map_keys p (sc_Current (snd x))"
    and ?B = "\<lambda>x. (\<lambda>(_, i). IP_String (si_ClusterIP i)) ` set (range_map (sc_Current (snd x)))"
  have "adds (?K x) (?B x) (\<lambda>st. sync_service_change env p link (snd x) st)" if "x \<in> set items" for x
    unfolding creates_def
  proof (intro allI impI)
    fix st :: "'w sync_state" assume w: "ok (sy_w st)"
    have x: "range_map (sc_Previous (snd x)) = []" "valid_infos (sc_Current (snd x))"
      using items [of "fst x" "snd x"] that by simp_all
    from x(1) have "valid_infos (sc_Previous (snd x))" by (simp add: valid_infos_def)
    from sync_service_change_table [OF free ips w this x(2)]
    show "\<exists>st'. sync_service_change env p link (snd x) st = Some st' \<and> ok (sy_w st') \<and>
        tbl (sy_w st') = with_keys (?K x) (tbl (sy_w st)) \<and> bound (sy_w st') = ?B x \<union> bound (sy_w st)"
      unfolding change_table_fresh [OF x(1)] .
  qed
  then have "adds (\<Union>x \<in> set items. ?K x) (\<Union>x \<in> set items. ?B x)
      (foldM (\<lambda>x. sync_service_change env p link (snd x)) items)" by (rule creates_foldM)
  then show ?thesis using assms(3) unfolding creates_def split_beta by blast
qed

text \<open>The service phase creates the virtual services of the desired table, all without destinations.\<close>

lemma fresh_service_phase:
  assumes "ok (sy_w st0)" and fresh: "tbl (sy_w st0) = Map.empty" and same: "same_input p1 q" and "syncable q"
    and free: "ports_free ok env"
    and cover: "set (p_serviceMap q) = (\<Union>(_, ch) \<in> set changes. set (range_map (sc_Current ch)))"
    and prev: "\<And>n ch. (n, ch) \<in> set changes \<Longrightarrow> range_map (sc_Previous ch) = []"
  shows "\<exists>st. foldM (\<lambda>(_, ch). sync_service_change env p1 link ch) changes st0 = Some st \<and> ok (sy_w st) \<and>
    tbl (sy_w st) = (\<lambda>k. if k \<in> dom (desired_table q) then Some {} else None) \<and>
    bound (sy_w st) = cluster_ips q \<union> bound (sy_w st0)"
proof -
  have sm: "p_nodeIPs p1 = p_nodeIPs q" using same by (simp add: same_input_def)
  then have keys: "service_keys p1 = service_keys q" by (simp add: fun_eq_iff service_keys_def)
  have valid: "valid_infos (sc_Current ch)" if "(n, ch) \<in> set changes" for n ch
    using assms(4) that cover unfolding syncable_def valid_infos_def list_all_iff by fastforce
  have v4: "list_all is_v4 (p_nodeIPs p1)" using assms(4) sm by (simp add: syncable_def)
  from fresh_service_changes [OF free v4, of st0 changes] prev valid assms(1) obtain st where
    s: "foldM (\<lambda>(_, ch). sync_service_change env p1 link ch) changes st0 = Some st" "ok (sy_w st)"
    "tbl (sy_w st) = with_keys (\<Union>(_, ch) \<in> set changes. map_keys p1 (sc_Current ch)) (tbl (sy_w st0))"
    "bound (sy_w st) = (\<Union>(_, ch) \<in> set changes. (\<lambda>(_, i). IP_String (si_ClusterIP i)) `
        set (range_map (sc_Current ch))) \<union> bound (sy_w st0)"
    by auto
  have K: "(\<Union>(_, ch) \<in> set changes. map_keys p1 (sc_Current ch)) = dom (desired_table q)"
    unfolding desired_table_dom cover map_keys_def keys by auto
  have B: "(\<Union>(_, ch) \<in> set changes. (\<lambda>(_, i). IP_String (si_ClusterIP i)) `
      set (range_map (sc_Current ch))) = cluster_ips q"
    unfolding cluster_ips_def cover by auto
  from s show ?thesis unfolding K B fresh by (auto simp: with_keys_def fun_eq_iff)
qed

text \<open>The endpoints phase fills them: endpoints that no change names are those that no service port has.\<close>

lemma fresh_endpoints_phase:
  assumes w: "ok w" "tbl w = (\<lambda>k. if k \<in> dom (desired_table q) then Some {} else None)"
    and same: "same_input p q" and slice: "\<And>k. gm_slice (p_kernelIpvsMap p) k = []"
    and q: "syncable q" "no_conflict q" "wf_gomap (p_serviceMap q)"
    and unlisted: "\<And>n. n \<notin> (\<Union>(_, ch) \<in> set items. changed_names ch) \<Longrightarrow> map_of (p_endpointsMap q) n = None"
  shows "\<exists>w'. fold (\<lambda>(_, ch). sync_endpoints_change env p ch) items w = w' \<and> ok w' \<and> tbl w' = desired_table q \<and> bound w' = bound w"
proof -
  note spec = same_input_spec [OF same]
  have "agrees p (tbl w)" using spec(1) by (simp add: agrees_def slice w(2))
  from sync_endpoints_changes [OF w(1) this, of items] q(1,2) spec(3,4)
  have e: "ep_inv ok tbl bound p (tbl w) (bound w) (\<Union>(_, ch) \<in> set items. \<Union>n \<in> changed_names ch. keys_of p n)
      (fold (\<lambda>(_, ch). sync_endpoints_change env p ch) items w)" (is "ep_inv _ _ _ _ _ _ ?A ?w") by simp
  have ko: "keys_of p n = keys_of q n" for n
    using same by (simp add: keys_of_def service_keys_def same_input_def split: option.splits)
  have "desired_table q k = tbl w k" if "k \<notin> ?A" for k
  proof (cases "k \<in> dom (desired_table q)")
    case True
    have "map_of (p_endpointsMap q) n = None" if "k \<in> keys_of q n" for n
      using unlisted [of n] \<open>k \<notin> ?A\<close> that unfolding ko by blast
    from desired_table_unlisted [OF q(3,2) True this] True show ?thesis by (simp add: w(2))
  next
    case False
    then show ?thesis unfolding w(2) by (auto simp: dom_def)
  qed
  with e spec(1) show ?thesis unfolding ep_inv_def by (auto simp: fun_eq_iff)
qed

lemma startup_incremental:
  assumes w: "ok w" "p_endpointsSynced p" "p_servicesSynced p" and some: "p_serviceChanges p \<noteq> [] \<or> ecm_Items (p_endpointsChanges p) \<noteq> []"
    and fresh: "tbl w = Map.empty" "p_endpointsMap p = []"
    and ips: "\<And>w. ok w \<Longrightarrow> pe_GetNodeIPs env (pe_ipvs env) w = Inr ips"
    and q: "q = updated p ips" "syncable q" "no_conflict q" "wf_gomap (p_serviceMap q)" and free: "ports_free ok env"
    and prev: "\<And>n ch. (n, ch) \<in> set (p_serviceChanges p) \<Longrightarrow> range_map (sc_Previous ch) = []"
    and cover: "set (p_serviceMap q) = (\<Union>(_, ch) \<in> set (p_serviceChanges p). set (range_map (sc_Current ch)))"
  shows "\<exists>p' w'. syncProxyRules env p w = Some (p', w') \<and> ok w' \<and> tbl w' = desired_table q \<and>
    bound w' = cluster_ips q \<union> bound w \<and> same_input p' q"
proof -
  from sync_start [OF w(1-3) ips] obtain p1 w1 stale eps where
    1: "ok w1" "tbl w1 = tbl w" "bound w1 = bound w" "snapshot p1 (tbl w1)" "same_input p1 q"
      "p_serviceChanges p1 = p_serviceChanges p" "p_endpointsChanges p1 = p_endpointsChanges p"
      "syncProxyRules env p w = map_option (\<lambda>(q, st). finish_sync env stale eps q st) (sync_phases env link p1 w1)"
    unfolding q(1) by metis
  let ?st0 = "\<lparr>sy_w = w1, sy_ports = [], sy_active = [], sy_bind = []\<rparr>" and ?items = "ecm_Items (p_endpointsChanges p)"
  from fresh_service_phase [OF _ _ 1(5) q(2) free cover, of ?st0] prev 1(1,2) fresh(1) obtain st where
    s: "foldM (\<lambda>(_, ch). sync_service_change env p1 link ch) (p_serviceChanges p1) ?st0 = Some st" "ok (sy_w st)"
    "tbl (sy_w st) = (\<lambda>k. if k \<in> dom (desired_table q) then Some {} else None)" "bound (sy_w st) = cluster_ips q \<union> bound w"
    unfolding 1(6) 1(3) [symmetric] by auto
  let ?p2 = "p1\<lparr>p_serviceChanges := []\<rparr>"
  let ?w = "fold (\<lambda>(_, ch). sync_endpoints_change env ?p2 ch) ?items (sy_w st)"
  have p2: "same_input ?p2 q" using 1(5) by (simp add: same_input_def)
  have slice: "gm_slice (p_kernelIpvsMap ?p2) k = []" for k
    using 1(4) unfolding 1(2) fresh(1) by (simp add: snapshot_def gm_slice_def)
  have unlisted: "map_of (p_endpointsMap q) n = None" if "n \<notin> (\<Union>(_, ch) \<in> set ?items. changed_names ch)" for n
    using UpdateEndpointsMap_other [OF that, of "[]"] fresh(2) by (simp add: q(1) updated_def)
  from fresh_endpoints_phase [OF s(2,3) p2 slice q(2-4) unlisted]
  have r: "ok ?w" "tbl ?w = desired_table q" "bound ?w = cluster_ips q \<union> bound w" using s(4) by auto
  from sync_phases_incremental [OF _ s(1)] some 1(6,7) obtain st' where
    p: "sync_phases env link p1 w1 =
      Some (p1\<lparr>p_serviceChanges := [], p_endpointsChanges := (p_endpointsChanges p1)\<lparr>ecm_Items := []\<rparr>\<rparr>, st')" "sy_w st' = ?w"
    by auto
  obtain p' w' where f: "finish_sync env stale eps
      (p1\<lparr>p_serviceChanges := [], p_endpointsChanges := (p_endpointsChanges p1)\<lparr>ecm_Items := []\<rparr>\<rparr>) st' = (p', w')" by fastforce
  with p(1) 1(8) have "syncProxyRules env p w = Some (p', w')" by simp
  with sync_finish [OF _ f] r p(2) 1(5) show ?thesis by (auto simp: same_input_def)
qed

end

section \<open>From the informers to the kernel\<close>

lemma ServiceConfig_Run_proxier:
  "ServiceConfig_Run (proxier_ServiceConfig env) True (p, w) = OnServiceSynced env p w"
  by (simp add: ServiceConfig_Run_def waitForCacheSync_def proxier_ServiceConfig_def proxier_ServiceHandler_def
      ServiceConfig_RegisterEventHandler_def NewServiceConfig_def foldM_Nil_fun Option.bind_runit)

lemma EndpointsConfig_Run_proxier:
  "EndpointsConfig_Run (proxier_EndpointsConfig env) True (p, w) = OnEndpointsSynced env p w"
  by (simp add: EndpointsConfig_Run_def waitForCacheSync_def proxier_EndpointsConfig_def proxier_EndpointsHandler_def
      EndpointsConfig_RegisterEventHandler_def NewEndpointsConfig_def foldM_Nil_fun Option.bind_runit)

lemma NewProxier_fresh:
  assumes "NewProxier fs net nodes_Get sched config hostname nodeIP w0 = Some (Inr p, w)"
  shows "p_serviceChanges p = []" "p_endpointsChanges p = NewEndpointsChangeMap hostname" "p_serviceMap p = []"
    "p_endpointsMap p = []" "p_hostname p = hostname" "\<not> p_servicesSynced p" "\<not> p_endpointsSynced p" "\<not> isInitialized p"
  using assms
  by (auto simp: NewProxier_def Let_def NewServiceChangeMap_def isInitialized_def split: if_splits prod.splits option.splits sum.splits)

context proxy_os
begin

lemmas os_startup = px.startup_incremental [unfolded os_GetNodeIPs]

text \<open>The sync that follows the second signal, with something pending or not.\<close>

lemma os_first_sync:
  assumes "ok w" "p_endpointsSynced p" "p_servicesSynced p" "proxy_table (vs w) = Map.empty"
    and "p_endpointsMap p = []" "p_serviceMap p = []"
    and "\<And>w. ok w \<Longrightarrow> GetNodeIPs net (EnnIpvs h) w = Inr ips"
    and "service_pending Map.empty sst (p_serviceChanges p)" "well_named service_nsn sst"
    and "syncable (updated p ips)" "no_conflict (updated p ips)"
    and "ports_free ok (NewProxier_env h net execer recorder roundRobin)"
  shows "\<exists>p' w'. syncProxyRules (NewProxier_env h net execer recorder roundRobin) p w = Some (p', w') \<and> ok w' \<and>
    proxy_table (vs w') = desired_table (updated p ips) \<and> cluster_ips (updated p ips) \<subseteq> bound w' \<and>
    same_input p' (updated p ips)"
proof (cases "p_serviceChanges p = [] \<and> ecm_Items (p_endpointsChanges p) = []")
  case True
  then have u: "updated p ips = p\<lparr>p_nodeIPs := ips\<rparr>" by (simp add: updated_def)
  have "syncable (p\<lparr>p_nodeIPs := ips\<rparr>)" "no_conflict (p\<lparr>p_nodeIPs := ips\<rparr>)" using assms(10,11) unfolding u .
  from os_sync [OF assms(1-3) _ _ assms(7) this] True assms(12) show ?thesis unfolding u by auto
next
  case False
  note f = fresh_services [OF assms(8,9)]
  have "wf_gomap (p_serviceMap (updated p ips))"
    unfolding updated_def using UpdateServiceMap_wf [of "p_serviceMap p"] assms(6) by simp
  moreover have "set (p_serviceMap (updated p ips)) = (\<Union>(_, ch) \<in> set (p_serviceChanges p). set (range_map (sc_Current ch)))"
    unfolding f(3) [symmetric] by (simp add: updated_def assms(6))
  moreover have "p_serviceChanges p \<noteq> [] \<or> ecm_Items (p_endpointsChanges p) \<noteq> []" using False by blast
  ultimately have "\<exists>p' w'. syncProxyRules (NewProxier_env h net execer recorder roundRobin) p w = Some (p', w') \<and> ok w' \<and>
      proxy_table (vs w') = desired_table (updated p ips) \<and> bound w' = cluster_ips (updated p ips) \<union> bound w \<and>
      same_input p' (updated p ips)"
    using f(2) by (intro os_startup [OF assms(1-3) _ assms(4,5,7) refl assms(10,11) _ assms(12)])
  then show ?thesis by blast
qed

end

end
