(* ===== verification/Watchers.thy ===== *)
theory Watchers
  imports Proxy_Config
begin

text \<open>
  src/pkg/watchers: the older way to hear about services and endpoints.  A watcher passes typed updates to a
  broadcaster, which starts one goroutine per listener; a goroutine is a function on the state \<open>'s\<close> that
  the listeners share.  The informer and \<^verbatim>\<open>reflect.DeepEqual\<close> on objects are parameters.
\<close>

section \<open>Broadcaster\<close>

datatype Operation = ADD | UPDATE | REMOVE

type_synonym 's goroutine = "'s \<Rightarrow> 's option"

record ('i, 's) Broadcaster =
  bc_listeners :: "('i \<Rightarrow> 's goroutine) list"

definition NewBroadcaster :: "('i, 's) Broadcaster" where
  "NewBroadcaster = \<lparr>bc_listeners = []\<rparr>"

definition Broadcaster_Add :: "('i \<Rightarrow> 's goroutine) \<Rightarrow> ('i, 's) Broadcaster \<Rightarrow> ('i, 's) Broadcaster" where
  "Broadcaster_Add listener b = b\<lparr>bc_listeners := bc_listeners b @ [listener]\<rparr>"

definition Broadcaster_Notify :: "('i, 's) Broadcaster \<Rightarrow> 'i \<Rightarrow> 's goroutine list" where
  "Broadcaster_Notify b inst = map (\<lambda>listener. listener inst) (bc_listeners b)"

section \<open>Endpoints\<close>

record EndpointsUpdate =
  eu_Endpoints :: api_Endpoints
  eu_Op :: Operation

text \<open>\<open>ew_receiving\<close>: the controller still receives from the stop channel.\<close>

record 's EndpointsWatcher =
  ew_broadcaster :: "(EndpointsUpdate, 's) Broadcaster"
  ew_receiving :: bool

definition NewEndpointWatcher :: "'s EndpointsWatcher" where
  "NewEndpointWatcher = \<lparr>ew_broadcaster = NewBroadcaster, ew_receiving = True\<rparr>"

definition endpointsAdd :: "'s EndpointsWatcher \<Rightarrow> object \<Rightarrow> 's goroutine list" where
  "endpointsAdd ew obj =
     (case obj of
        Obj_Endpoints endpoints \<Rightarrow> Broadcaster_Notify (ew_broadcaster ew) \<lparr>eu_Endpoints = endpoints, eu_Op = ADD\<rparr>
      | _ \<Rightarrow> [])"

definition endpointsDelete :: "'s EndpointsWatcher \<Rightarrow> object \<Rightarrow> 's goroutine list" where
  "endpointsDelete ew obj =
     (case obj of
        Obj_Endpoints endpoints \<Rightarrow> Broadcaster_Notify (ew_broadcaster ew) \<lparr>eu_Endpoints = endpoints, eu_Op = REMOVE\<rparr>
      | _ \<Rightarrow> [])"

text \<open>The second type check looks at the new object again.\<close>

definition endpointsUpdate :: "(object \<Rightarrow> object \<Rightarrow> bool) \<Rightarrow> 's EndpointsWatcher \<Rightarrow> object \<Rightarrow> object \<Rightarrow> 's goroutine list" where
  "endpointsUpdate DeepEqual ew old obj =
     (case obj of
        Obj_Endpoints endpoints_new \<Rightarrow>
          (case obj of
             Obj_Endpoints _ \<Rightarrow>
               if \<not> DeepEqual old obj
               then Broadcaster_Notify (ew_broadcaster ew) \<lparr>eu_Endpoints = endpoints_new, eu_Op = UPDATE\<rparr> else []
           | _ \<Rightarrow> [])
      | _ \<Rightarrow> [])"

definition EndpointsWatcher_RegisterHandler ::
  "(EndpointsUpdate \<Rightarrow> 's goroutine) \<Rightarrow> 's EndpointsWatcher \<Rightarrow> 's EndpointsWatcher" where
  "EndpointsWatcher_RegisterHandler onEndpointsUpdate ew =
     ew\<lparr>ew_broadcaster := Broadcaster_Add onEndpointsUpdate (ew_broadcaster ew)\<rparr>"

text \<open>A listed object of another type panics.\<close>

fun EndpointsWatcher_List :: "object list \<Rightarrow> api_Endpoints list option" where
  "EndpointsWatcher_List [] = Some []"
| "EndpointsWatcher_List (Obj_Endpoints e # os) = map_option (\<lambda>es. e # es) (EndpointsWatcher_List os)"
| "EndpointsWatcher_List (_ # os) = None"

text \<open>Sending on a channel that nobody receives from blocks: \<open>None\<close>.\<close>

definition StopEndpointsWatcher :: "'s EndpointsWatcher \<Rightarrow> 's EndpointsWatcher option" where
  "StopEndpointsWatcher ew = (if ew_receiving ew then Some (ew\<lparr>ew_receiving := False\<rparr>) else None)"

section \<open>Services\<close>

record ServicesUpdate =
  su_Service :: api_Service
  su_Op :: Operation

record 's ServicesWatcher =
  sw_broadcaster :: "(ServicesUpdate, 's) Broadcaster"
  sw_receiving :: bool

definition NewServiceWatcher :: "'s ServicesWatcher" where
  "NewServiceWatcher = \<lparr>sw_broadcaster = NewBroadcaster, sw_receiving = True\<rparr>"

definition servicesAdd :: "'s ServicesWatcher \<Rightarrow> object \<Rightarrow> 's goroutine list" where
  "servicesAdd sw obj =
     (case obj of
        Obj_Service services \<Rightarrow> Broadcaster_Notify (sw_broadcaster sw) \<lparr>su_Service = services, su_Op = ADD\<rparr>
      | _ \<Rightarrow> [])"

definition servicesDelete :: "'s ServicesWatcher \<Rightarrow> object \<Rightarrow> 's goroutine list" where
  "servicesDelete sw obj =
     (case obj of
        Obj_Service services \<Rightarrow> Broadcaster_Notify (sw_broadcaster sw) \<lparr>su_Service = services, su_Op = REMOVE\<rparr>
      | _ \<Rightarrow> [])"

definition servicesUpdate :: "(object \<Rightarrow> object \<Rightarrow> bool) \<Rightarrow> 's ServicesWatcher \<Rightarrow> object \<Rightarrow> object \<Rightarrow> 's goroutine list" where
  "servicesUpdate DeepEqual sw old obj =
     (case obj of
        Obj_Service services_new \<Rightarrow>
          (case obj of
             Obj_Service _ \<Rightarrow>
               if \<not> DeepEqual old obj
               then Broadcaster_Notify (sw_broadcaster sw) \<lparr>su_Service = services_new, su_Op = UPDATE\<rparr> else []
           | _ \<Rightarrow> [])
      | _ \<Rightarrow> [])"

definition ServicesWatcher_RegisterHandler ::
  "(ServicesUpdate \<Rightarrow> 's goroutine) \<Rightarrow> 's ServicesWatcher \<Rightarrow> 's ServicesWatcher" where
  "ServicesWatcher_RegisterHandler onServicesUpdate sw =
     sw\<lparr>sw_broadcaster := Broadcaster_Add onServicesUpdate (sw_broadcaster sw)\<rparr>"

fun ServicesWatcher_List :: "object list \<Rightarrow> api_Service list option" where
  "ServicesWatcher_List [] = Some []"
| "ServicesWatcher_List (Obj_Service x # os) = map_option (\<lambda>xs. x # xs) (ServicesWatcher_List os)"
| "ServicesWatcher_List (_ # os) = None"

definition StopServiceWatcher :: "'s ServicesWatcher \<Rightarrow> 's ServicesWatcher option" where
  "StopServiceWatcher sw = (if sw_receiving sw then Some (sw\<lparr>sw_receiving := False\<rparr>) else None)"

section \<open>Facts\<close>

text \<open>
  Unlike the configurations of pkg/proxy/config, a watcher drops the tombstone of a deleted object, and
  an update is passed on whatever the old object is.
\<close>

lemma watchers_drop_tombstones:
  "endpointsDelete ew (DeletedFinalStateUnknown key obj) = []" "servicesDelete sw (DeletedFinalStateUnknown key obj) = []"
  by (simp_all add: endpointsDelete_def servicesDelete_def)

lemma updates_ignore_old_type:
  "\<not> DeepEqual Obj_other (Obj_Service x) \<Longrightarrow>
     servicesUpdate DeepEqual sw Obj_other (Obj_Service x) = Broadcaster_Notify (sw_broadcaster sw) \<lparr>su_Service = x, su_Op = UPDATE\<rparr>"
  by (simp add: servicesUpdate_def)

text \<open>A list is returned exactly when every object has the type of the watcher.\<close>

lemma ServicesWatcher_List_iff: "ServicesWatcher_List os = Some xs \<longleftrightarrow> os = map Obj_Service xs"
  by (induction os arbitrary: xs rule: ServicesWatcher_List.induct) auto

lemma EndpointsWatcher_List_iff: "EndpointsWatcher_List os = Some xs \<longleftrightarrow> os = map Obj_Endpoints xs"
  by (induction os arbitrary: xs rule: EndpointsWatcher_List.induct) auto

end
