(* ===== verification/App_Server.thy ===== *)
theory App_Server
  imports Proxier_Startup Watchers
begin

text \<open>
  src/app/server.go and src/kube-enn-proxy.go: creating the server, running it until a signal comes, shutting it
  down, and the main function.  The informers, the API client and signals are parameters: the sequence of what they
  deliver.  Every goroutine that the server starts acts in atomic steps, because the proxier's mutex is held in each.
\<close>

section \<open>Creating the server\<close>

record EnnProxyServer =
  es_Config :: KubeEnnProxyConfig
  es_Proxier :: Proxier
  es_NodeRef :: string
  es_ConfigSyncPeriod :: int

definition NewEnnProxyServer :: "KubeEnnProxyConfig \<Rightarrow> Proxier \<Rightarrow> string \<Rightarrow> EnnProxyServer" where
  "NewEnnProxyServer config proxier nodeRef =
     \<lparr>es_Config = config, es_Proxier = proxier, es_NodeRef = nodeRef, es_ConfigSyncPeriod = cf_ConfigSyncPeriod config\<rparr>"

datatype server_error =
  GetNodeFailed go_error
| GetNodeIPFailed go_error
| IpvsUnusable go_error
| ProxierFailed setup_error

definition tryIPVSProxy :: "'w execer \<Rightarrow> 'w \<Rightarrow> go_error option \<times> 'w" where
  "tryIPVSProxy exec w =
     (case CanUseIpvs exec w of
        (Inl err, w1) \<Rightarrow> (Some err, w1)
      | (Inr use, w1) \<Rightarrow> (if \<not> use then Some ''can not use ipvs proxy'' else None, w1))"

text \<open>\<open>client config\<close> says whether the API client could be made; it panics otherwise.\<close>

definition NewEnnProxyServerDefault ::
  "(KubeEnnProxyConfig \<Rightarrow> bool) \<Rightarrow> 'w sysfs \<Rightarrow> 'w netio \<Rightarrow> 'w execer \<Rightarrow> (string \<Rightarrow> 'w \<Rightarrow> go_error + Node) \<Rightarrow> string
   \<Rightarrow> KubeEnnProxyConfig \<Rightarrow> 'w \<Rightarrow> ((server_error + EnnProxyServer) \<times> 'w) option" where
  "NewEnnProxyServerDefault client fs net exec nodes_Get DEFAULSCHE config0 w =
     (let config = (if cf_Kubeconfig config0 = '''' \<and> cf_Master config0 = ''''
                    then config0\<lparr>cf_Kubeconfig := ''/var/lib/kube-enn-proxy/kubeconfig''\<rparr> else config0) in
      if \<not> client config then None
      else (case GetNode net nodes_Get (cf_HostnameOverride config) w of
          None \<Rightarrow> None
        | Some (Inl err) \<Rightarrow> Some (Inl (GetNodeFailed err), w)
        | Some (Inr node) \<Rightarrow>
            (case InternalGetNodeHostIP node of
               None \<Rightarrow> None
             | Some (Inl err) \<Rightarrow> Some (Inl (GetNodeIPFailed err), w)
             | Some (Inr nodeIP) \<Rightarrow>
                 (case tryIPVSProxy exec w of
                    (Some err, w1) \<Rightarrow> Some (Inl (IpvsUnusable err), w1)
                  | (None, w1) \<Rightarrow>
                      (case NewProxier fs net nodes_Get DEFAULSCHE config (nd_Name node) nodeIP w1 of
                         None \<Rightarrow> None
                       | Some (Inl err, w2) \<Rightarrow> Some (Inl (ProxierFailed err), w2)
                       | Some (Inr proxier, w2) \<Rightarrow> Some (Inr (NewEnnProxyServer config proxier (nd_Name node)), w2))))))"

section \<open>Running and stopping\<close>

text \<open>The global variables of the package watchers; they start nil.\<close>

record watch_configs =
  wc_Endpoints :: "unit EndpointsWatcher option"
  wc_Service :: "unit ServicesWatcher option"

definition nil_watchers :: watch_configs where
  "nil_watchers = \<lparr>wc_Endpoints = None, wc_Service = None\<rparr>"

definition createWatcher :: "watch_configs \<Rightarrow> watch_configs" where
  "createWatcher wc = wc\<lparr>wc_Endpoints := Some NewEndpointWatcher, wc_Service := Some NewServiceWatcher\<rparr>"

datatype 'a ending = Finished 'a | Crashed | Hangs

text \<open>A nil watcher is dereferenced; sending to a watcher that no longer receives hangs.\<close>

definition StopWatcher :: "watch_configs \<Rightarrow> watch_configs ending" where
  "StopWatcher wc =
     (case wc_Endpoints wc of
        None \<Rightarrow> Crashed
      | Some ew \<Rightarrow>
          (case StopEndpointsWatcher ew of
             None \<Rightarrow> Hangs
           | Some ew' \<Rightarrow>
               (case wc_Service wc of
                  None \<Rightarrow> Crashed
                | Some sw \<Rightarrow>
                    (case StopServiceWatcher sw of
                       None \<Rightarrow> Hangs
                     | Some sw' \<Rightarrow> Finished \<lparr>wc_Endpoints = Some ew', wc_Service = Some sw'\<rparr>))))"

definition birthCry :: "'w penv \<Rightarrow> 'w \<Rightarrow> 'w" where
  "birthCry env w = pe_Eventf env ''Starting'' ''Starting kube-proxy.'' w"

text \<open>What the goroutines see, in the order it happens.\<close>

datatype server_event =
  Ev_Service "api_Service notification"
| Ev_Endpoints "api_Endpoints notification"
| Ev_ServicesSynced
| Ev_EndpointsSynced
| Ev_Tick

record 'w server_state =
  ss_proxier :: Proxier
  ss_w :: 'w
  ss_loop :: bool

definition put_state :: "'w server_state \<Rightarrow> Proxier \<times> 'w \<Rightarrow> 'w server_state" where
  "put_state s pw = s\<lparr>ss_proxier := fst pw, ss_w := snd pw\<rparr>"

fun server_step :: "'w penv \<Rightarrow> 'w ipt_os \<Rightarrow> server_event \<Rightarrow> 'w server_state \<Rightarrow> 'w server_state option" where
  "server_step env os (Ev_Service n) s =
     map_option (put_state s) (notify_service (proxier_ServiceConfig env) n (ss_proxier s, ss_w s))"
| "server_step env os (Ev_Endpoints n) s =
     map_option (put_state s) (notify_endpoints (proxier_EndpointsConfig env) n (ss_proxier s, ss_w s))"
| "server_step env os Ev_ServicesSynced s =
     map_option (put_state s) (ServiceConfig_Run (proxier_ServiceConfig env) True (ss_proxier s, ss_w s))"
| "server_step env os Ev_EndpointsSynced s =
     map_option (put_state s) (EndpointsConfig_Run (proxier_EndpointsConfig env) True (ss_proxier s, ss_w s))"
| "server_step env os Ev_Tick s =
     (if ss_loop s then map_option (put_state s) (Sync env os (ss_proxier s) (ss_w s)) else Some s)"

text \<open>
  The server up to the signal.  The loop first ensures the masquerade rules and ends when that fails; nothing
  else reads them, so it is taken to happen first.
\<close>

definition server_until_signal ::
  "'w penv \<Rightarrow> 'w ipt_os \<Rightarrow> server_event list \<Rightarrow> EnnProxyServer \<Rightarrow> 'w \<Rightarrow> 'w server_state option" where
  "server_until_signal env os events s w =
     (case EnsureIPtablesMASQ os (es_Proxier s) (birthCry env w) of
        None \<Rightarrow> None
      | Some (err, w1) \<Rightarrow>
          foldM (server_step env os) events \<lparr>ss_proxier = es_Proxier s, ss_w = w1, ss_loop = (err = None)\<rparr>)"

text \<open>
  After the signal \<^verbatim>\<open>StopCh\<close> is sent on a channel without a buffer: only a running loop receives it.  Then the
  watchers are stopped, and the server waits for the loop, which has ended.
\<close>

definition server_Run ::
  "'w penv \<Rightarrow> 'w ipt_os \<Rightarrow> watch_configs \<Rightarrow> server_event list \<Rightarrow> EnnProxyServer \<Rightarrow> 'w \<Rightarrow> 'w server_state ending" where
  "server_Run env os wc events s w =
     (case server_until_signal env os events s w of
        None \<Rightarrow> Crashed
      | Some st \<Rightarrow>
          if \<not> ss_loop st then Hangs
          else (case StopWatcher wc of
                  Finished _ \<Rightarrow> Finished (st\<lparr>ss_loop := False\<rparr>)
                | Crashed \<Rightarrow> Crashed
                | Hangs \<Rightarrow> Hangs))"

definition CleanUpAndExit :: "'w ipt_os \<Rightarrow> 'w libnet \<Rightarrow> 'w \<Rightarrow> 'w option" where
  "CleanUpAndExit os h w = CleanupLeftovers os (EnnIpvs h) w"

text \<open>The process finishes with an exit status, crashes, or never exits.\<close>

definition main ::
  "(KubeEnnProxyConfig \<Rightarrow> bool) \<Rightarrow> 'w sysfs \<Rightarrow> 'w netio \<Rightarrow> 'w execer \<Rightarrow> (string \<Rightarrow> 'w \<Rightarrow> go_error + Node) \<Rightarrow> string \<Rightarrow>
   'w libnet \<Rightarrow> (string \<Rightarrow> string \<Rightarrow> 'w \<Rightarrow> 'w) \<Rightarrow> 'w ipt_os \<Rightarrow> server_event list \<Rightarrow> KubeEnnProxyConfig \<Rightarrow> 'w \<Rightarrow> nat ending" where
  "main client fs net exec nodes_Get rr h recorder os events config w =
     (if cf_CleanupConfig config then (case CleanUpAndExit os h w of None \<Rightarrow> Crashed | Some _ \<Rightarrow> Finished 0)
      else (case NewEnnProxyServerDefault client fs net exec nodes_Get rr config w of
              None \<Rightarrow> Crashed
            | Some (Inl err, w1) \<Rightarrow> Finished 1
            | Some (Inr s, w1) \<Rightarrow>
                (case server_Run (NewProxier_env h net exec recorder rr) os nil_watchers events s w1 of
                   Finished _ \<Rightarrow> Finished 0
                 | Crashed \<Rightarrow> Crashed
                 | Hangs \<Rightarrow> Hangs)))"

section \<open>Properties\<close>

text \<open>No event changes whether the loop runs.\<close>

lemma server_step_loop: "server_step env os ev s = Some s' \<Longrightarrow> ss_loop s' = ss_loop s"
  by (cases ev) (auto simp: put_state_def split: if_splits)

lemma server_steps_loop: "foldM (server_step env os) evs s = Some s' \<Longrightarrow> ss_loop s' = ss_loop s"
  by (induction evs arbitrary: s) (auto simp: bind_eq_Some_conv dest: server_step_loop)

lemma server_Run_nil: "server_Run env os nil_watchers events s w \<noteq> Finished st"
  by (auto simp: server_Run_def StopWatcher_def nil_watchers_def split: option.splits)

lemma server_Run_started:
  assumes "EnsureIPtablesMASQ os (es_Proxier s) (birthCry env w) = Some (err, w1)"
  shows "server_Run env os nil_watchers events s w = Crashed \<or>
    (err \<noteq> None \<and> server_Run env os nil_watchers events s w = Hangs)"
  using assms server_steps_loop
  by (fastforce simp: server_Run_def server_until_signal_def StopWatcher_def nil_watchers_def split: option.splits)

text \<open>
  (C38) The server is never shut down in order.  The watchers that \<^verbatim>\<open>Run\<close> stops are never created, so whatever
  events come before the signal, the process crashes on a nil watcher, or it hangs: when it
  was not asked to clean up it exits with a status only when the server could not be created.  It hangs only when the
  first masquerade call failed: the loop has ended then and no one receives from \<^verbatim>\<open>StopCh\<close>.
\<close>

theorem main_never_exits_cleanly:
  assumes "\<not> cf_CleanupConfig config"
  shows "(\<forall>n. main client fs net exec nodes_Get rr h recorder os events config w = Finished n \<longrightarrow>
       n = 1 \<and> (\<exists>err w1. NewEnnProxyServerDefault client fs net exec nodes_Get rr config w = Some (Inl err, w1))) \<and>
    (\<forall>s w1 w2. NewEnnProxyServerDefault client fs net exec nodes_Get rr config w = Some (Inr s, w1) \<longrightarrow>
       EnsureIPtablesMASQ os (es_Proxier s) (birthCry (NewProxier_env h net exec recorder rr) w1) = Some (None, w2) \<longrightarrow>
       main client fs net exec nodes_Get rr h recorder os events config w = Crashed)"
proof (intro conjI allI impI)
  fix n
  assume "main client fs net exec nodes_Get rr h recorder os events config w = Finished n"
  then show "n = 1"
    and "\<exists>err w1. NewEnnProxyServerDefault client fs net exec nodes_Get rr config w = Some (Inl err, w1)"
    using assms by (auto simp: main_def server_Run_nil split: option.splits sum.splits prod.splits ending.splits)
next
  fix s w1 w2
  assume "NewEnnProxyServerDefault client fs net exec nodes_Get rr config w = Some (Inr s, w1)"
    and "EnsureIPtablesMASQ os (es_Proxier s) (birthCry (NewProxier_env h net exec recorder rr) w1) = Some (None, w2)"
  then show "main client fs net exec nodes_Get rr h recorder os events config w = Crashed"
    using server_Run_started [of os s "NewProxier_env h net exec recorder rr" w1 None w2 events] assms
    by (auto simp: main_def)
qed

text \<open>A node with an address, the modules loaded and a working iptables; the signal comes at once.\<close>

definition ex_loaded :: "'w execer" where
  "ex_loaded = \<lparr>x_LookPath = (\<lambda>_ _. Inr ''/usr/bin/cut''), x_CombinedOutput = (\<lambda>_ _ w.
     ((concat (map (\<lambda>l. l @ [CHR 0x0A]) [''ip_vs'', ''ip_vs_rr'', ''nf_conntrack_ipv4'']), None), w))\<rparr>"

definition ex_node_Get :: "string \<Rightarrow> 'w \<Rightarrow> go_error + Node" where
  "ex_node_Get n w = Inr \<lparr>nd_Name = n, nd_PodCIDR = ''10.1.0.0/16'',
     nd_Addresses = [\<lparr>na_Type = ''InternalIP'', na_Address = dotted [192, 168, 0, 1]\<rparr>]\<rparr>"

definition ex_proc :: "'w sysfs" where
  "ex_proc = \<lparr>fs_WriteFile = (\<lambda>_ _ w. (None, w)), fs_ReadFile = (\<lambda>_ _. Inl [])\<rparr>"

lemma ex_server_on:
  assumes "\<And>w. n_Hostname net w = Inr ''node1''"
  shows "\<exists>s. NewEnnProxyServerDefault (\<lambda>_. True) ex_proc net ex_loaded ex_node_Get ''rr'' (NewKubeEnnProxyConfig ''rr'') w =
     Some (Inr s, w) \<and> es_NodeRef s = ''node1''"
proof -
  have l: "ToLower ''node1'' = ''node1''" by (simp add: ToLower_def lower_char_def)
  have "CanUseIpvs ex_loaded w = (Inr True, w)"
    by (simp add: CanUseIpvs_def ex_loaded_def IpvsModules_def)
  then show ?thesis
    by (simp add: NewEnnProxyServerDefault_def tryIPVSProxy_def NewProxier_def NewKubeEnnProxyConfig_def Minute_def
        setNetFlag_def setSysctl_def ex_proc_def Let_def GetPodCidrFromNodeSpec_def GetNode_def GetHostname_def
        assms ex_node_Get_def TrimSpace_def is_space_def InternalGetNodeHostIP_def address_map_def
        first_address_def gm_slice_def l NewEnnProxyServer_def)
qed

lemma ex_server:
  "\<exists>s. NewEnnProxyServerDefault (\<lambda>_. True) ex_proc ref_netio ex_loaded ex_node_Get ''rr'' (NewKubeEnnProxyConfig ''rr'') w =
     Some (Inr s, w) \<and> es_NodeRef s = ''node1''"
  by (rule ex_server_on) (simp add: ref_netio_def)

lemma ex_quiet_Ensure: "EnsureIPtablesMASQ ex_quiet_ipt p w = Some (None, w)"
  by (simp add: EnsureIPtablesMASQ_def ipt_New_def NewWithProtocol_def getIptablesCommandSupport_def
      getIptablesVersionString_def ex_quiet_ipt_def ref_version ensure_rule_def PrependUnique_def ipt_Exists_def
      iptablesHasCheckCommand_def iptablesHasWaitCommand_def ipt_run_def runWithOutput_def cmd_Run_def Let_def)

theorem main_never_exits_cleanly_witness:
  "main (\<lambda>_. True) ex_proc ref_netio ex_loaded ex_node_Get ''rr'' ref_libnet ref_recorder ex_quiet_ipt []
     (NewKubeEnnProxyConfig ''rr'') ex_stale_world = Crashed"
proof -
  obtain s where "NewEnnProxyServerDefault (\<lambda>_. True) ex_proc ref_netio ex_loaded ex_node_Get ''rr'' (NewKubeEnnProxyConfig ''rr'')
    ex_stale_world = Some (Inr s, ex_stale_world)" using ex_server by blast
  then show ?thesis
    using main_never_exits_cleanly [of "NewKubeEnnProxyConfig ''rr''" "\<lambda>_. True" ex_proc ref_netio ex_loaded ex_node_Get
        "''rr''" ref_libnet ref_recorder ex_quiet_ipt "[]" ex_stale_world]
    by (simp add: NewKubeEnnProxyConfig_def ex_quiet_Ensure)
qed

end
