(* ===== verification/Server_Startup.thy ===== *)
theory Server_Startup
  imports App_Server
begin

text \<open>
  The server from its creation to the point where both caches are synced, and the ticks of the loop after that.
  The informers, the two signals and the loop are goroutines, so their steps come in any order.
\<close>

section \<open>What the informers announce\<close>

fun announced_services :: "server_event list \<Rightarrow> api_Service notification list" where
  "announced_services [] = []"
| "announced_services (Ev_Service n # es) = n # announced_services es"
| "announced_services (_ # es) = announced_services es"

fun announced_endpoints :: "server_event list \<Rightarrow> api_Endpoints notification list" where
  "announced_endpoints [] = []"
| "announced_endpoints (Ev_Endpoints n # es) = n # announced_endpoints es"
| "announced_endpoints (_ # es) = announced_endpoints es"

abbreviation services_after :: "(NamespacedName \<rightharpoonup> api_Service) \<Rightarrow> server_event list \<Rightarrow> (NamespacedName \<rightharpoonup> api_Service)" where
  "services_after sst es \<equiv> store_after sst (map (notif_event service_nsn) (announced_services es))"

abbreviation endpoints_after ::
  "(NamespacedName \<rightharpoonup> api_Endpoints) \<Rightarrow> server_event list \<Rightarrow> (NamespacedName \<rightharpoonup> api_Endpoints)" where
  "endpoints_after est es \<equiv> store_after est (map (notif_event endpoints_nsn) (announced_endpoints es))"

text \<open>Every notification reports as the old object what the informer's store held.\<close>

definition announces ::
  "(NamespacedName \<rightharpoonup> api_Service) \<Rightarrow> (NamespacedName \<rightharpoonup> api_Endpoints) \<Rightarrow> server_event list \<Rightarrow> bool" where
  "announces sst est es \<longleftrightarrow> consistent sst (map (notif_event service_nsn) (announced_services es)) \<and>
     consistent est (map (notif_event endpoints_nsn) (announced_endpoints es))"

lemma announced_Cons:
  "services_after sst (e # es) = services_after (services_after sst [e]) es"
  "endpoints_after est (e # es) = endpoints_after (endpoints_after est [e]) es"
  "announces sst est (e # es) \<longleftrightarrow> announces sst est [e] \<and> announces (services_after sst [e]) (endpoints_after est [e]) es"
proof -
  note c = store_after_Cons [where es = "map (notif_event service_nsn) (announced_services es)"]
    store_after_Cons [where es = "map (notif_event endpoints_nsn) (announced_endpoints es)"]
    consistent_Cons [where es = "map (notif_event service_nsn) (announced_services es)"]
    consistent_Cons [where es = "map (notif_event endpoints_nsn) (announced_endpoints es)"]
  show "services_after sst (e # es) = services_after (services_after sst [e]) es"
    by (cases e) (simp_all add: c(1) [of sst])
  show "endpoints_after est (e # es) = endpoints_after (endpoints_after est [e]) es"
    by (cases e) (simp_all add: c(2) [of est])
  show "announces sst est (e # es) \<longleftrightarrow>
      announces sst est [e] \<and> announces (services_after sst [e]) (endpoints_after est [e]) es"
    by (cases e) (simp_all add: announces_def c(3) [of sst] c(4) [of est], blast+)
qed

section \<open>Until the last signal\<close>

text \<open>
  Before the second signal the proxier only records.  \<open>a\<close> and \<open>b\<close> say which signal came, and \<open>K\<close> holds of the
  world, which the loop keeps touching through iptables.
\<close>

definition starting ::
  "('w \<Rightarrow> bool) \<Rightarrow> Proxier \<Rightarrow> bool \<Rightarrow> bool \<Rightarrow> (NamespacedName \<rightharpoonup> api_Service) \<Rightarrow> (NamespacedName \<rightharpoonup> api_Endpoints) \<Rightarrow>
   'w server_state \<Rightarrow> bool" where
  "starting K p0 a b sst est s \<longleftrightarrow> p_initialized p0 = 0 \<and> K (ss_w s) \<and>
     recording (p0\<lparr>p_servicesSynced := a, p_endpointsSynced := b\<rparr>) (ss_w s) sst est (ss_proxier s, ss_w s)"

lemma recording_world: "recording p0 w sst est (p, w) \<Longrightarrow> recording p0 w' sst est (p, w')"
  by (auto simp: recording_def)

lemma recording_snd: "recording p0 w0 sst est s \<Longrightarrow> snd s = w0"
  by (auto simp: recording_def)

lemma recording_signal:
  assumes "recording (p0\<lparr>p_servicesSynced := a, p_endpointsSynced := b\<rparr>) w sst est (p, w)"
  shows "recording (p0\<lparr>p_servicesSynced := True, p_endpointsSynced := b\<rparr>) w sst est (p\<lparr>p_servicesSynced := True\<rparr>, w)"
    and "recording (p0\<lparr>p_servicesSynced := a, p_endpointsSynced := True\<rparr>) w sst est (p\<lparr>p_endpointsSynced := True\<rparr>, w)"
    and "p_servicesSynced p = a" and "p_endpointsSynced p = b" and "p_initialized p = p_initialized p0"
proof -
  from assms obtain si ei where p: "p = p0\<lparr>p_servicesSynced := a, p_endpointsSynced := b, p_serviceChanges := si,
       p_endpointsChanges := \<lparr>ecm_Hostname = p_hostname p0, ecm_Items = ei\<rparr>\<rparr>"
    and pending: "service_pending Map.empty sst si" "endpoints_pending (p_hostname p0) Map.empty est ei" "\<not> isInitialized p0"
    by (auto simp: recording_def isInitialized_def)
  show "recording (p0\<lparr>p_servicesSynced := True, p_endpointsSynced := b\<rparr>) w sst est (p\<lparr>p_servicesSynced := True\<rparr>, w)"
    "recording (p0\<lparr>p_servicesSynced := a, p_endpointsSynced := True\<rparr>) w sst est (p\<lparr>p_endpointsSynced := True\<rparr>, w)"
    unfolding recording_def p using pending
    by (intro conjI exI [of _ si] exI [of _ ei]; simp add: isInitialized_def)+
qed (use assms in \<open>auto simp: recording_def\<close>)


lemma starting_step:
  assumes "starting K p0 a b sst est s" and "ipt_keeps os K" and "announces sst est [ev]"
    and "\<not> (a \<or> ev = Ev_ServicesSynced) \<or> \<not> (b \<or> ev = Ev_EndpointsSynced)"
  shows "\<exists>s'. server_step env os ev s = Some s' \<and> starting K p0 (a \<or> ev = Ev_ServicesSynced) (b \<or> ev = Ev_EndpointsSynced)
    (services_after sst [ev]) (endpoints_after est [ev]) s'"
proof -
  let ?q = "p0\<lparr>p_servicesSynced := a, p_endpointsSynced := b\<rparr>"
  obtain p w l where s: "s = \<lparr>ss_proxier = p, ss_w = w, ss_loop = l\<rparr>" by (cases s) blast
  from assms(1) have r: "p_initialized p0 = 0" "K w" "recording ?q w sst est (p, w)" by (simp_all add: starting_def s)
  note f = recording_signal [OF r(3)]
  have idle: "syncProxyRules env q w' = Some (q, w')" if "\<not> p_servicesSynced q \<or> \<not> p_endpointsSynced q" for q w'
    using that by (auto simp: syncProxyRules_def)
  show ?thesis
  proof (cases ev)
    case (Ev_Service n)
    with assms(3) have "consistent sst [notif_event service_nsn n]" by (simp add: announces_def)
    from psh.notify_step [OF r(3) this, of env] obtain x where
      "notify_service (proxier_ServiceConfig env) n (p, w) = Some x"
      "recording ?q w (store_after sst [notif_event service_nsn n]) est x"
      unfolding notify_service_proxier by blast
    with recording_snd [OF this(2)] r Ev_Service show ?thesis by (cases x) (simp add: s starting_def put_state_def)
  next
    case (Ev_Endpoints n)
    with assms(3) have "consistent est [notif_event endpoints_nsn n]" by (simp add: announces_def)
    from peh.notify_step [OF r(3) this, of env] obtain x where
      "notify_endpoints (proxier_EndpointsConfig env) n (p, w) = Some x"
      "recording ?q w sst (store_after est [notif_event endpoints_nsn n]) x"
      unfolding notify_endpoints_proxier by blast
    with recording_snd [OF this(2)] r Ev_Endpoints show ?thesis by (cases x) (simp add: s starting_def put_state_def)
  next
    case Ev_ServicesSynced
    with assms(4) have "\<not> b" by simp
    moreover from f(4) this have "setInitialized False (p\<lparr>p_servicesSynced := True\<rparr>) = p\<lparr>p_servicesSynced := True\<rparr>"
      using f(5) r(1) by (simp add: setInitialized_def)
    ultimately show ?thesis using Ev_ServicesSynced r(1,2) f(1,4)
      by (simp add: s starting_def put_state_def ServiceConfig_Run_proxier OnServiceSynced_def idle)
  next
    case Ev_EndpointsSynced
    with assms(4) have "\<not> a" by simp
    with Ev_EndpointsSynced r(1,2) f(2,3) show ?thesis
      by (simp add: s starting_def put_state_def EndpointsConfig_Run_proxier OnEndpointsSynced_def idle)
  next
    case Ev_Tick
    from Ensure_keeps [OF assms(2) r(2), of p] obtain err w1 where
      e: "EnsureIPtablesMASQ os p w = Some (err, w1)" "K w1" by blast
    have "syncProxyRules env p w1 = Some (p, w1)" using assms(4) Ev_Tick f(3,4) by (intro idle) auto
    with e r Ev_Tick recording_world [OF r(3), of w1] show ?thesis
      by (simp add: s starting_def put_state_def Sync_def)
  qed
qed

lemma starting_steps:
  assumes "starting K p0 a b sst est s" and "ipt_keeps os K" and "announces sst est es"
    and "\<not> (a \<or> Ev_ServicesSynced \<in> set es) \<or> \<not> (b \<or> Ev_EndpointsSynced \<in> set es)"
  shows "\<exists>s'. foldM (server_step env os) es s = Some s' \<and>
    starting K p0 (a \<or> Ev_ServicesSynced \<in> set es) (b \<or> Ev_EndpointsSynced \<in> set es)
      (services_after sst es) (endpoints_after est es) s'"
  using assms(1,3,4)
proof (induction es arbitrary: a b sst est s)
  case Nil
  then show ?case by simp
next
  case (Cons e es)
  from Cons.prems(2) have c: "announces sst est [e]" "announces (services_after sst [e]) (endpoints_after est [e]) es"
    using announced_Cons(3) by blast+
  have "\<not> (a \<or> e = Ev_ServicesSynced) \<or> \<not> (b \<or> e = Ev_EndpointsSynced)" using Cons.prems(3) by auto
  from starting_step [OF Cons.prems(1) assms(2) c(1) this, of env] obtain s1 where
    s1: "server_step env os e s = Some s1" "starting K p0 (a \<or> e = Ev_ServicesSynced) (b \<or> e = Ev_EndpointsSynced)
      (services_after sst [e]) (endpoints_after est [e]) s1" by blast
  from Cons.prems(3) have "\<not> ((a \<or> e = Ev_ServicesSynced) \<or> Ev_ServicesSynced \<in> set es) \<or>
      \<not> ((b \<or> e = Ev_EndpointsSynced) \<or> Ev_EndpointsSynced \<in> set es)" by auto
  from Cons.IH [OF s1(2) c(2) this] s1(1) show ?case
    unfolding announced_Cons(1) [of sst e es] announced_Cons(2) [of est e es] by (simp add: disj_assoc eq_commute [of e])
qed


section \<open>After the last signal\<close>

text \<open>
  The proxier has applied the stores and nothing is pending; the kernel is as it should be for the node
  addresses \<open>ips\<close>.
\<close>

definition converged ::
  "('w \<Rightarrow> bool) \<Rightarrow> ('w \<Rightarrow> kernel_table) \<Rightarrow> ('w \<Rightarrow> string set) \<Rightarrow> IP list \<Rightarrow> string \<Rightarrow> (NamespacedName \<rightharpoonup> api_Service) \<Rightarrow>
   (NamespacedName \<rightharpoonup> api_Endpoints) \<Rightarrow> int \<Rightarrow> 'w server_state \<Rightarrow> bool" where
  "converged ok vs bound ips hostname sst est i s \<longleftrightarrow>
     (let p = ss_proxier s; w = ss_w s in
      ok w \<and> settled p p \<and> p_initialized p = i \<and> wf_gomap (p_serviceMap p) \<and>
      map_of (p_serviceMap p) = service_view sst \<and> map_of (p_endpointsMap p) = endpoints_view hostname est \<and>
      proxy_table (vs w) = desired_table (p\<lparr>p_nodeIPs := ips\<rparr>) \<and> cluster_ips p \<subseteq> bound w)"

text \<open>The inputs that the convergence theorems cover, for all maps that are the views of the stores.\<close>

definition valid_stores ::
  "IP list \<Rightarrow> string \<Rightarrow> (NamespacedName \<rightharpoonup> api_Service) \<Rightarrow> (NamespacedName \<rightharpoonup> api_Endpoints) \<Rightarrow> bool" where
  "valid_stores ips hostname sst est \<longleftrightarrow> (\<forall>q. wf_gomap (p_serviceMap q) \<longrightarrow> map_of (p_serviceMap q) = service_view sst \<longrightarrow>
     map_of (p_endpointsMap q) = endpoints_view hostname est \<longrightarrow> p_nodeIPs q = ips \<longrightarrow> syncable q \<and> no_conflict q)"

lemma cluster_ips_nodes: "cluster_ips (p\<lparr>p_nodeIPs := ips\<rparr>) = cluster_ips p"
  by (simp add: cluster_ips_def)

lemma syncProxyRules_clears:
  assumes "syncProxyRules env p w = Some (p', w')" and "p_endpointsSynced p" "p_servicesSynced p"
    and "i_GetDummyLink (pe_ipvs env) w = Some (Inr l, w1)"
  shows "p_serviceChanges p' = []" and "p_endpointsChanges p' = (p_endpointsChanges p)\<lparr>ecm_Items := []\<rparr>"
  using assms
  by (auto simp: syncProxyRules_def Let_def split_beta bind_eq_Some_conv finish_sync_fst BuildMaps_frame
      dest!: sync_phases_frame(1) arg_cong [where f = fst and y = "(p', w')"])

lemma Sync_initialized: "Sync env os p w = Some (p', w') \<Longrightarrow> p_initialized p' = p_initialized p"
  by (auto simp: Sync_def split: option.splits dest: syncProxyRules_flags(1))

lemma last_signal:
  assumes "starting K p0 a b sst est s" and "a \<noteq> b"
  shows "\<exists>q. server_step env os (if a then Ev_EndpointsSynced else Ev_ServicesSynced) s =
      map_option (put_state s) (syncProxyRules env q (ss_w s)) \<and> p_endpointsSynced q \<and> p_servicesSynced q \<and>
    p_initialized q = (if a then 0 else 1) \<and> p_serviceMap q = p_serviceMap p0 \<and> p_endpointsMap q = p_endpointsMap p0 \<and>
    service_pending Map.empty sst (p_serviceChanges q) \<and>
    endpoints_pending (p_hostname p0) Map.empty est (ecm_Items (p_endpointsChanges q)) \<and>
    ecm_Hostname (p_endpointsChanges q) = p_hostname p0"
proof -
  obtain p w l where s: "s = \<lparr>ss_proxier = p, ss_w = w, ss_loop = l\<rparr>" by (cases s) blast
  from assms(1) have r: "p_initialized p0 = 0"
    "recording (p0\<lparr>p_servicesSynced := a, p_endpointsSynced := b\<rparr>) w sst est (p, w)" by (simp_all add: starting_def s)
  note f = recording_signal(3-5) [OF r(2)]
  have q: "p_serviceMap p = p_serviceMap p0" "p_endpointsMap p = p_endpointsMap p0"
    "service_pending Map.empty sst (p_serviceChanges p)"
    "endpoints_pending (p_hostname p0) Map.empty est (ecm_Items (p_endpointsChanges p))"
    "ecm_Hostname (p_endpointsChanges p) = p_hostname p0"
    using r(2) by (auto simp: recording_def)
  show ?thesis
  proof (cases a)
    case True
    with q f r(1) show ?thesis
      by (intro exI [of _ "p\<lparr>p_endpointsSynced := True\<rparr>"]) (simp add: s EndpointsConfig_Run_proxier OnEndpointsSynced_def)
  next
    case False
    with assms(2) q f r(1) show ?thesis
      by (intro exI [of _ "setInitialized True (p\<lparr>p_servicesSynced := True\<rparr>)"])
        (simp add: s ServiceConfig_Run_proxier OnServiceSynced_def setInitialized_def)
  qed
qed


context proxy_os
begin

lemma last_signal_converges:
  assumes "starting (\<lambda>w. ok w \<and> vs w = V \<and> bound w = B) p0 a b sst est s" and "a \<noteq> b"
    and "p_serviceMap p0 = []" "p_endpointsMap p0 = []" and "proxy_table V = Map.empty"
    and "well_named service_nsn sst" "well_named endpoints_nsn est"
    and ips: "\<And>w. ok w \<Longrightarrow> GetNodeIPs net (EnnIpvs h) w = Inr ips"
    and "valid_stores ips (p_hostname p0) sst est"
    and "ports_free ok (NewProxier_env h net execer recorder roundRobin)"
  shows "\<exists>s'. server_step (NewProxier_env h net execer recorder roundRobin) os
      (if a then Ev_EndpointsSynced else Ev_ServicesSynced) s = Some s' \<and>
    converged ok vs bound ips (p_hostname p0) sst est (if a then 0 else 1) s'"
proof -
  let ?env = "NewProxier_env h net execer recorder roundRobin"
  have w: "ok (ss_w s)" "proxy_table (vs (ss_w s)) = Map.empty" using assms(1,5) by (simp_all add: starting_def)
  from last_signal [OF assms(1,2), of ?env os] obtain q where
    q: "server_step ?env os (if a then Ev_EndpointsSynced else Ev_ServicesSynced) s =
      map_option (put_state s) (syncProxyRules ?env q (ss_w s))" "p_endpointsSynced q" "p_servicesSynced q"
    "p_initialized q = (if a then 0 else 1)" "p_serviceMap q = []" "p_endpointsMap q = []"
    "service_pending Map.empty sst (p_serviceChanges q)"
    "endpoints_pending (p_hostname p0) Map.empty est (ecm_Items (p_endpointsChanges q))"
    unfolding assms(3,4) by (elim exE conjE) (rule that)
  let ?u = "updated q ips"
  have "map_of (fst (UpdateEndpointsMap [] (ecm_Items (p_endpointsChanges q)))) = endpoints_view (p_hostname p0) est"
    by (rule UpdateEndpointsMap_view [OF q(8) _ assms(7)]) (simp_all add: well_named_def)
  then have u: "wf_gomap (p_serviceMap ?u)" "map_of (p_serviceMap ?u) = service_view sst"
    "map_of (p_endpointsMap ?u) = endpoints_view (p_hostname p0) est" "p_nodeIPs ?u = ips"
    using UpdateServiceMap_wf [of "[]" "p_serviceChanges q"] fresh_services(1) [OF q(7) assms(6)] q(5,6)
    by (simp_all add: updated_def)
  with assms(9) have v: "syncable ?u" "no_conflict ?u" unfolding valid_stores_def by blast+
  from os_first_sync [OF w(1) q(2,3) w(2) q(6,5) ips q(7) assms(6) v assms(10)] obtain p' w' where
    s: "syncProxyRules ?env q (ss_w s) = Some (p', w')" "ok w'" "proxy_table (vs w') = desired_table ?u"
      "cluster_ips ?u \<subseteq> bound w'" "same_input p' ?u" by blast
  obtain w1 where "i_GetDummyLink (pe_ipvs ?env) (ss_w s) = Some (Inr link, w1)"
    using px.dummy_link [OF w(1)] by blast
  note c = syncProxyRules_clears [OF s(1) q(2,3) this]
  have "desired_table (p'\<lparr>p_nodeIPs := ips\<rparr>) = desired_table ?u"
    using s(5) u(4) by (intro same_input_spec(1)) (simp add: same_input_def)
  with s u c q(2-4) syncProxyRules_flags [OF s(1)] same_input_spec(1,2) [OF s(5)]
  have "converged ok vs bound ips (p_hostname p0) sst est (if a then 0 else 1) (put_state s (p', w'))"
    by (simp add: converged_def settled_def put_state_def same_input_def)
  with q(1) s(1) show ?thesis by simp
qed

lemma tick_converged:
  assumes keeps: "\<And>V B. ipt_keeps os (\<lambda>w. ok w \<and> vs w = V \<and> bound w = B)"
    and ips: "\<And>w. ok w \<Longrightarrow> GetNodeIPs net (EnnIpvs h) w = Inr ips"
    and "valid_stores ips hostname sst est" and free: "ports_free ok (NewProxier_env h net execer recorder roundRobin)"
    and "converged ok vs bound ips hostname sst est i s"
  shows "\<exists>s'. server_step (NewProxier_env h net execer recorder roundRobin) os Ev_Tick s = Some s' \<and>
    converged ok vs bound ips hostname sst est i s'"
proof (cases "ss_loop s")
  case True
  let ?env = "NewProxier_env h net execer recorder roundRobin"
  let ?p = "ss_proxier s"
  from assms(5) have c: "ok (ss_w s)" "settled ?p ?p" "p_initialized ?p = i" "wf_gomap (p_serviceMap ?p)"
    "map_of (p_serviceMap ?p) = service_view sst" "map_of (p_endpointsMap ?p) = endpoints_view hostname est"
    by (simp_all add: converged_def Let_def)
  with assms(3) have v: "syncable (?p\<lparr>p_nodeIPs := ips\<rparr>)" "no_conflict (?p\<lparr>p_nodeIPs := ips\<rparr>)"
    unfolding valid_stores_def by simp_all
  from Sync_turn [OF keeps ips v free c(2,1)] obtain p' w' where
    s: "Sync ?env os ?p (ss_w s) = Some (p', w')" "settled ?p p'" "in_shape ok vs bound (?p\<lparr>p_nodeIPs := ips\<rparr>) w'" by blast
  note d = same_input_spec(1,2) [OF settled_input [OF s(2), of ips]]
  from s(2) have "settled p' p'" "p_serviceMap p' = p_serviceMap ?p" "p_endpointsMap p' = p_endpointsMap ?p"
    by (simp_all add: settled_def)
  with s(3) c(3-6) d Sync_initialized [OF s(1)]
  have "converged ok vs bound ips hostname sst est i (put_state s (p', w'))"
    by (simp add: converged_def in_shape_def put_state_def cluster_ips_nodes)
  with s(1) True show ?thesis by simp
qed (use assms(5) in simp)

lemma ticks_converged:
  assumes "\<And>V B. ipt_keeps os (\<lambda>w. ok w \<and> vs w = V \<and> bound w = B)"
    and "\<And>w. ok w \<Longrightarrow> GetNodeIPs net (EnnIpvs h) w = Inr ips"
    and "valid_stores ips hostname sst est" and "ports_free ok (NewProxier_env h net execer recorder roundRobin)"
    and "converged ok vs bound ips hostname sst est i s"
  shows "\<exists>s'. foldM (server_step (NewProxier_env h net execer recorder roundRobin) os) (replicate n Ev_Tick) s = Some s' \<and>
    converged ok vs bound ips hostname sst est i s'"
  using assms(5)
proof (induction n arbitrary: s)
  case (Suc n)
  from tick_converged [OF assms(1-4) Suc.prems] obtain s1 where
    "server_step (NewProxier_env h net execer recorder roundRobin) os Ev_Tick s = Some s1"
    "converged ok vs bound ips hostname sst est i s1" by blast
  with Suc.IH [OF this(2)] show ?case by simp
qed simp

end


section \<open>The new server\<close>

lemma NewEnnProxyServerDefault_proxier:
  assumes "NewEnnProxyServerDefault client fs net exec nodes_Get rr config w0 = Some (Inr s, w)"
  shows "\<exists>config' nodeIP w1. NewProxier fs net nodes_Get rr config' (es_NodeRef s) nodeIP w1 = Some (Inr (es_Proxier s), w)"
  using assms
  by (auto simp: NewEnnProxyServerDefault_def Let_def NewEnnProxyServer_def
      split: if_splits option.splits sum.splits prod.splits) blast+

lemma NewProxier_starting:
  assumes "NewProxier fs net nodes_Get sched config hostname nodeIP w0 = Some (Inr p, w)" and "K w'"
  shows "starting K p False False Map.empty Map.empty \<lparr>ss_proxier = p, ss_w = w', ss_loop = l\<rparr>"
proof -
  note new = NewProxier_fresh [OF assms(1)]
  have eta: "p\<lparr>p_servicesSynced := False, p_endpointsSynced := False, p_serviceChanges := [],
      p_endpointsChanges := \<lparr>ecm_Hostname = hostname, ecm_Items = []\<rparr>\<rparr> = p"
    using new by (simp add: NewEndpointsChangeMap_def)
  have "p_initialized p = 0"
    using assms(1) by (auto simp: NewProxier_def Let_def split: if_splits prod.splits option.splits sum.splits)
  then show ?thesis
    unfolding starting_def recording_def using assms(2)
    by (intro conjI exI [of _ "[]"])
      (simp_all add: eta new(5) isInitialized_def svc.pending_empty ep.pending_empty)

qed

lemma announced_well_named:
  "well_named service_nsn (services_after Map.empty es)" "well_named endpoints_nsn (endpoints_after Map.empty es)"
  by (intro store_after_well_named; simp add: well_named_def)+

end
