(* ===== verification/Server_Convergence.thy ===== *)
theory Server_Convergence
  imports Server_Startup
begin

text \<open>
  The server after both caches are synced, with any further events.  The incremental syncs may leave a wrong table
  (a service update loses destinations), but every sync returns and brings the maps up to date, so the
  whole-rules sync of a later tick repairs the kernel.
\<close>

section \<open>Every sync returns\<close>

context ipvs_iface
begin

lemma servers_ok:
  assumes "valid_service s" and "\<And>v. v \<in> set xs \<Longrightarrow> valid_val v" and "ok w"
  shows "ok (fold (\<lambda>v w. if v \<in> X then w else snd (i_AddIpvsServer I s (ipvs_server v) w)) xs w)"
    and "ok (fold (\<lambda>v w. if v \<in> X then w else snd (i_DeleteIpvsServer I s (ipvs_server v) w)) xs w)"
proof -
  have "ok (snd (i_AddIpvsServer I s (ipvs_server v) w))" "ok (snd (i_DeleteIpvsServer I s (ipvs_server v) w))"
    if "ok w" "valid_val v" for v w
    using add_server [OF that(1) assms(1), of "ipvs_server v"] del_server [OF that(1) assms(1), of "ipvs_server v"] that(2)
    by auto
  with assms(2,3) show "ok (fold (\<lambda>v w. if v \<in> X then w else snd (i_AddIpvsServer I s (ipvs_server v) w)) xs w)"
    and "ok (fold (\<lambda>v w. if v \<in> X then w else snd (i_DeleteIpvsServer I s (ipvs_server v) w)) xs w)"
    by (intro fold_invariant [where P = ok and Q = valid_val]; simp)+
qed

lemma CreateEndpointRule_ok:
  assumes "ok w" "valid_service s" and "\<And>v. v \<in> set old \<Longrightarrow> valid_val v" and "\<And>v. v \<in> eps_vals p n \<Longrightarrow> valid_val v"
  shows "ok (CreateEndpointRule I p s n old w)"
proof -
  have "set (fold str_insert old []) = set old" using set_fold_insert [of "\<lambda>_. True" "\<lambda>x. x" old "[]"] by simp
  moreover have "set (fold (\<lambda>d. str_insert \<lparr>av_ip = ei_Ip d, av_port = ei_Port d\<rparr>) (gm_slice (p_endpointsMap p) n) []) = eps_vals p n"
    using set_fold_insert [of "\<lambda>_. True" ep_val "gm_slice (p_endpointsMap p) n" "[]"]
    by (simp add: eps_vals_def ep_val_def)
  ultimately show ?thesis
    unfolding CreateEndpointRule_def Let_def using assms by (intro servers_ok) auto
qed

end

context proxier_env
begin

lemma syncEndpointChange_ok:
  assumes "\<forall>k. \<forall>v \<in> set (gm_slice (p_kernelIpvsMap p) k). valid_val v" and "syncable p"
    and "(n, i) \<in> set (p_serviceMap p)" and "is_v4 ip" "is_port port" and "ok w"
  shows "ok (syncEndpointChange env p ip port i n w)"
proof -
  note e = syncable_entry [OF assms(2,3)]
  have "valid_service (ipvs_service env ip port i)"
    using assms(4,5) e(1) by (intro valid_ipvs_service) (auto simp: valid_info_def)
  then show ?thesis
    unfolding syncEndpointChange_def Let_def using assms(1,6) e(2) by (intro CreateEndpointRule_ok) auto
qed

lemma sync_endpoints_of_ok:
  assumes "\<forall>k. \<forall>v \<in> set (gm_slice (p_kernelIpvsMap p) k). valid_val v" and "syncable p" and "ok w"
  shows "ok (sync_endpoints_of env p n w)"
proof (cases "gm_get (p_serviceMap p) n")
  case (Some i)
  then have m: "(n, i) \<in> set (p_serviceMap p)" by (rule map_of_SomeD)
  have v: "is_v4 (si_ClusterIP i)" "is_port (si_Port i)" "is_port (si_NodePort i)"
    "\<And>x. x \<in> set (si_ExternalIPs i) \<Longrightarrow> is_v4 (ParseIP x)" "\<And>x. x \<in> set (p_nodeIPs p) \<Longrightarrow> is_v4 x"
    using syncable_entry(1) [OF assms(2) m] assms(2) by (auto simp: valid_info_def list_all_iff syncable_def)
  note step = syncEndpointChange_ok [OF assms(1,2) m]
  have ext: "ok (fold (\<lambda>x. syncEndpointChange env p (ParseIP x) (si_Port i) i n) (si_ExternalIPs i) w)" if "ok w" for w
    by (rule fold_invariant [where P = ok and Q = "\<lambda>x. is_v4 (ParseIP x)"]) (use step v that in auto)
  have nodes: "ok (fold (\<lambda>x. syncEndpointChange env p x (si_NodePort i) i n) (p_nodeIPs p) w)" if "ok w" for w
    by (rule fold_invariant [where P = ok and Q = is_v4]) (use step v that in auto)
  show ?thesis using Some step [OF v(1,2) assms(3)] ext nodes by (simp add: sync_endpoints_of_def Let_def)
qed (simp add: sync_endpoints_of_def assms(3))

lemma sync_endpoints_changes_ok:
  assumes "\<forall>k. \<forall>v \<in> set (gm_slice (p_kernelIpvsMap p) k). valid_val v" and "syncable p" and "ok w"
  shows "ok (fold (\<lambda>(_, ch). sync_endpoints_change env p ch) items w)"
proof -
  note step = sync_endpoints_of_ok [OF assms(1,2)]
  have "ok (sync_endpoints_change env p ch w)" if "ok w" for ch w
    unfolding sync_endpoints_change_def Let_def
    by (intro fold_invariant [where P = ok and Q = "\<lambda>_. True"]) (use step that in \<open>auto split: prod.splits\<close>)
  with assms(3) show ?thesis
    by (intro fold_invariant [where P = ok and Q = "\<lambda>_. True"]) (auto split: prod.splits)
qed

lemma sync_service_changes_ok:
  assumes "ports_free ok env" and "list_all is_v4 (p_nodeIPs p)" and "ok (sy_w st)"
    and "\<And>n ch. (n, ch) \<in> set items \<Longrightarrow> valid_infos (sc_Previous ch) \<and> valid_infos (sc_Current ch)"
  shows "\<exists>st'. foldM (\<lambda>(_, ch). sync_service_change env p link ch) items st = Some st' \<and> ok (sy_w st')"
  using assms(3,4)
proof (induction items arbitrary: st)
  case (Cons x items)
  obtain n ch where x: "x = (n, ch)" by (cases x)
  with Cons.prems(2) have "valid_infos (sc_Previous ch)" "valid_infos (sc_Current ch)" by auto
  from sync_service_change_table [OF assms(1,2) Cons.prems(1) this] obtain st1 where
    "sync_service_change env p link ch st = Some st1" "ok (sy_w st1)" by blast
  with Cons x show ?case by auto
qed simp

text \<open>A sync with valid inputs returns, keeps the world working, applies the pending changes and leaves none.\<close>

lemma sync_returns:
  assumes w: "ok w" "p_endpointsSynced p" "p_servicesSynced p"
    and ips: "\<And>w. ok w \<Longrightarrow> pe_GetNodeIPs env (pe_ipvs env) w = Inr ips"
    and q: "syncable (updated p ips)" "no_conflict (updated p ips)" and free: "ports_free ok env"
    and items: "\<And>n ch. (n, ch) \<in> set (p_serviceChanges p) \<Longrightarrow> valid_infos (sc_Previous ch) \<and> valid_infos (sc_Current ch)"
  shows "\<exists>p' w'. syncProxyRules env p w = Some (p', w') \<and> ok w' \<and> same_input p' (updated p ips) \<and>
    p_serviceChanges p' = [] \<and> p_endpointsChanges p' = (p_endpointsChanges p)\<lparr>ecm_Items := []\<rparr>"
proof -
  have "\<exists>p' w'. syncProxyRules env p w = Some (p', w') \<and> ok w' \<and> same_input p' (updated p ips)"
  proof (cases "p_serviceChanges p = [] \<and> ecm_Items (p_endpointsChanges p) = []")
    case True
    then have u: "updated p ips = p\<lparr>p_nodeIPs := ips\<rparr>" by (simp add: updated_def)
    from True syncProxyRules_table [OF w _ _ ips q [unfolded u]] show ?thesis unfolding u by blast
  next
    case False
    from sync_start [OF w ips] obtain p1 w1 stale eps where
      1: "ok w1" "snapshot p1 (tbl w1)" "same_input p1 (updated p ips)"
        "p_serviceChanges p1 = p_serviceChanges p" "p_endpointsChanges p1 = p_endpointsChanges p"
        "syncProxyRules env p w = map_option (\<lambda>(q, st). finish_sync env stale eps q st) (sync_phases env link p1 w1)"
      by metis
    note spec = same_input_spec [OF 1(3)]
    let ?st0 = "\<lparr>sy_w = w1, sy_ports = [], sy_active = [], sy_bind = []\<rparr>" and ?p2 = "p1\<lparr>p_serviceChanges := []\<rparr>"
    have "list_all is_v4 (p_nodeIPs p1)" using q(1) spec(3) by (simp add: syncable_def)
    from sync_service_changes_ok [OF free this, of ?st0 "p_serviceChanges p1"] 1(1) items [folded 1(4)] obtain st where
      s: "foldM (\<lambda>(_, ch). sync_service_change env p1 link ch) (p_serviceChanges p1) ?st0 = Some st" "ok (sy_w st)" by auto
    have "p_serviceChanges p1 \<noteq> [] \<or> ecm_Items (p_endpointsChanges p1) \<noteq> []" using False 1(4,5) by simp
    from sync_phases_incremental [OF this s(1)] obtain st' where
      p: "sync_phases env link p1 w1 =
        Some (p1\<lparr>p_serviceChanges := [], p_endpointsChanges := (p_endpointsChanges p1)\<lparr>ecm_Items := []\<rparr>\<rparr>, st')"
      "sy_w st' = fold (\<lambda>(_, ch). sync_endpoints_change env ?p2 ch) (ecm_Items (p_endpointsChanges p1)) (sy_w st)" by blast
    have "syncable ?p2" using q(1) spec(3) same_input_spec(3) [of ?p2 p1] by (simp add: same_input_def)
    then have "ok (sy_w st')"
      unfolding p(2) using s(2) snapshot_slices [OF 1(2)] by (intro sync_endpoints_changes_ok) auto
    moreover obtain p' w' where f: "finish_sync env stale eps
        (p1\<lparr>p_serviceChanges := [], p_endpointsChanges := (p_endpointsChanges p1)\<lparr>ecm_Items := []\<rparr>\<rparr>) st' = (p', w')" by fastforce
    ultimately show ?thesis using sync_finish [OF _ f] p(1) 1(3,6) by (auto simp: same_input_def)
  qed
  then obtain p' w' where s: "syncProxyRules env p w = Some (p', w')" "ok w'" "same_input p' (updated p ips)" by blast
  obtain w1 where "i_GetDummyLink (pe_ipvs env) w = Some (Inr link, w1)" using dummy_link [OF w(1)] by blast
  with s syncProxyRules_clears [OF s(1) w(2,3)] show ?thesis by auto
qed

end

section \<open>Valid stores\<close>

lemma empty_views: "service_view Map.empty = Map.empty" "endpoints_view hostname Map.empty = Map.empty"
  by (simp_all add: fun_eq_iff object_view_def serviceToServiceMap_def endpointsToEndpointsMap_def range_map_def)

lemma view_valid_infos:
  assumes "syncable p" "wf_gomap (p_serviceMap p)" "map_of (p_serviceMap p) = service_view st" "well_named service_nsn st"
    and "wf_gomap (range_map m)" "map_of (range_map m) = map_of (range_map (serviceToServiceMap (st n)))"
  shows "valid_infos m"
proof -
  have "valid_info i" if "(k, i) \<in> set (range_map m)" for k i
  proof -
    have k: "map_of (range_map (serviceToServiceMap (st n))) k = Some i" using that assms(5,6) by (simp add: wf_gomap_mem)
    have "k \<in> fst ` set (range_map (serviceToServiceMap (st n)))" using map_of_SomeD [OF k] by force
    from svc.named_keys [OF assms(4) this] have "service_view st k = Some i" using k by (simp add: object_view_def)
    then have "(k, i) \<in> set (p_serviceMap p)" using assms(2,3) by (simp add: wf_gomap_mem)
    with assms(1) show ?thesis by (rule syncable_entry(1))
  qed
  then show ?thesis by (auto simp: valid_infos_def list_all_iff)
qed

lemma pending_valid_infos:
  fixes ch :: ServiceChange
  assumes "service_pending bs sst items" "well_named service_nsn bs" "well_named service_nsn sst" "(n, ch) \<in> set items"
    and "syncable p" "wf_gomap (p_serviceMap p)" "map_of (p_serviceMap p) = service_view bs"
    and "syncable q" "wf_gomap (p_serviceMap q)" "map_of (p_serviceMap q) = service_view sst"
  shows "valid_infos (sc_Previous ch)" "valid_infos (sc_Current ch)"
proof -
  note i = svc.pending_item [OF assms(1,4)]
  show "valid_infos (sc_Previous ch)" by (rule view_valid_infos [OF assms(5-7,2) i(3,2)])
  show "valid_infos (sc_Current ch)"
    by (rule view_valid_infos [OF assms(8-10,3), of _ n]) (simp_all add: i(1) serviceToServiceMap_wf)
qed


section \<open>Tracking the stores\<close>

text \<open>
  The maps are the views of stores that were applied before, and the pending changes lead from there to the stores
  that the informers have reached.
\<close>

definition tracking ::
  "IP list \<Rightarrow> string \<Rightarrow> (NamespacedName \<rightharpoonup> api_Service) \<Rightarrow> (NamespacedName \<rightharpoonup> api_Endpoints) \<Rightarrow> Proxier \<Rightarrow> bool" where
  "tracking ips hostname sst est p \<longleftrightarrow> (\<exists>bs be.
     p_endpointsSynced p \<and> p_servicesSynced p \<and> wf_gomap (p_serviceMap p) \<and> ecm_Hostname (p_endpointsChanges p) = hostname \<and>
     map_of (p_serviceMap p) = service_view bs \<and> map_of (p_endpointsMap p) = endpoints_view hostname be \<and>
     service_pending bs sst (p_serviceChanges p) \<and> endpoints_pending hostname be est (ecm_Items (p_endpointsChanges p)) \<and>
     valid_stores ips hostname bs be \<and> well_named service_nsn bs \<and> well_named endpoints_nsn be \<and>
     well_named service_nsn sst \<and> well_named endpoints_nsn est)"

text \<open>Nothing is pending any more.\<close>

definition caught_up :: "string \<Rightarrow> (NamespacedName \<rightharpoonup> api_Service) \<Rightarrow> (NamespacedName \<rightharpoonup> api_Endpoints) \<Rightarrow> Proxier \<Rightarrow> bool" where
  "caught_up hostname sst est p \<longleftrightarrow> settled p p \<and> wf_gomap (p_serviceMap p) \<and> ecm_Hostname (p_endpointsChanges p) = hostname \<and>
     map_of (p_serviceMap p) = service_view sst \<and> map_of (p_endpointsMap p) = endpoints_view hostname est"

lemma caught_up_tracking:
  assumes "caught_up hostname sst est p" and "valid_stores ips hostname sst est"
    and "well_named service_nsn sst" "well_named endpoints_nsn est"
  shows "tracking ips hostname sst est p"
  unfolding tracking_def using assms svc.pending_empty [of sst] ep.pending_empty [of hostname est]
  by (intro exI [of _ sst] exI [of _ est]) (simp add: caught_up_def settled_def)

lemma tracking_input: "tracking ips hostname sst est p \<Longrightarrow> p_endpointsSynced p \<and> p_servicesSynced p"
  by (auto simp: tracking_def)

lemma tracking_initialized: "tracking ips hostname sst est (setInitialized b p) \<longleftrightarrow> tracking ips hostname sst est p"
  by (simp add: tracking_def setInitialized_def)

lemma tracking_synced:
  assumes "tracking ips hostname sst est p"
  shows "tracking ips hostname sst est (p\<lparr>p_servicesSynced := True\<rparr>)"
    and "tracking ips hostname sst est (p\<lparr>p_endpointsSynced := True\<rparr>)"
  using assms by (simp_all add: tracking_def)

lemma tracking_service:
  assumes "tracking ips hostname sst est p" and "well_named service_nsn (sst(n := new))"
  shows "tracking ips hostname (sst(n := new)) est
    (p\<lparr>p_serviceChanges := fst (ServiceChangeMap_Update (p_serviceChanges p) n (sst n) new)\<rparr>)"
proof -
  from assms(1) obtain bs be where b: "p_endpointsSynced p" "p_servicesSynced p" "wf_gomap (p_serviceMap p)"
    "ecm_Hostname (p_endpointsChanges p) = hostname" "map_of (p_serviceMap p) = service_view bs"
    "map_of (p_endpointsMap p) = endpoints_view hostname be" "service_pending bs sst (p_serviceChanges p)"
    "endpoints_pending hostname be est (ecm_Items (p_endpointsChanges p))" "valid_stores ips hostname bs be"
    "well_named service_nsn bs" "well_named endpoints_nsn be" "well_named endpoints_nsn est"
    unfolding tracking_def by (elim exE conjE) (rule that)
  from svc.pending_upd [OF b(7) refl, of n new] b assms(2) show ?thesis
    unfolding tracking_def by (intro exI [of _ bs] exI [of _ be]) simp
qed

lemma tracking_endpoints:
  assumes "tracking ips hostname sst est p" and "well_named endpoints_nsn (est(n := new))"
  shows "tracking ips hostname sst (est(n := new))
    (p\<lparr>p_endpointsChanges := fst (EndpointsChangeMap_Update (p_endpointsChanges p) n (est n) new)\<rparr>)"
proof -
  from assms(1) obtain bs be where b: "p_endpointsSynced p" "p_servicesSynced p" "wf_gomap (p_serviceMap p)"
    "ecm_Hostname (p_endpointsChanges p) = hostname" "map_of (p_serviceMap p) = service_view bs"
    "map_of (p_endpointsMap p) = endpoints_view hostname be" "service_pending bs sst (p_serviceChanges p)"
    "endpoints_pending hostname be est (ecm_Items (p_endpointsChanges p))" "valid_stores ips hostname bs be"
    "well_named service_nsn bs" "well_named endpoints_nsn be" "well_named service_nsn sst"
    unfolding tracking_def by (elim exE conjE) (rule that)
  from ep.pending_upd [OF b(8) refl, of n new] b assms(2) show ?thesis
    unfolding tracking_def
    by (intro exI [of _ bs] exI [of _ be]) (simp add: EndpointsChangeMap_Update_def split_beta)
qed


lemma notify_service_event:
  "notify_service (proxier_ServiceConfig env) n (p, w) =
     (case notif_event service_nsn n of (name, old, new) \<Rightarrow> service_event env name old new p w)"
  by (cases n) (simp_all add: notify_service_proxier OnServiceAdd_def OnServiceUpdate_def OnServiceDelete_def)

lemma notify_endpoints_event:
  "notify_endpoints (proxier_EndpointsConfig env) n (p, w) =
     (case notif_event endpoints_nsn n of (name, old, new) \<Rightarrow> endpoints_event env name old new p w)"
  by (cases n) (simp_all add: notify_endpoints_proxier OnEndpointsAdd_def OnEndpointsUpdate_def OnEndpointsDelete_def)

lemma syncProxyRules_hostname:
  "syncProxyRules env p w = Some (p', w') \<Longrightarrow> ecm_Hostname (p_endpointsChanges p') = ecm_Hostname (p_endpointsChanges p)"
  by (auto simp: syncProxyRules_def Let_def split_beta bind_eq_Some_conv finish_sync_fst BuildMaps_frame
      dest!: sync_phases_frame(1) arg_cong [where f = fst and y = "(p', w')"]
      split: option.splits sum.splits if_splits)

lemma Sync_hostname:
  "Sync env os p w = Some (p', w') \<Longrightarrow> ecm_Hostname (p_endpointsChanges p') = ecm_Hostname (p_endpointsChanges p)"
  by (auto simp: Sync_def split: option.splits dest: syncProxyRules_hostname)

context proxy_os
begin

lemma sync_catches_up:
  assumes "tracking ips hostname sst est p" and "valid_stores ips hostname sst est" and "ok w"
    and ips: "\<And>w. ok w \<Longrightarrow> GetNodeIPs net (EnnIpvs h) w = Inr ips"
    and free: "ports_free ok (NewProxier_env h net execer recorder roundRobin)"
  shows "\<exists>p' w'. syncProxyRules (NewProxier_env h net execer recorder roundRobin) p w = Some (p', w') \<and> ok w' \<and>
    caught_up hostname sst est p'"
proof -
  let ?env = "NewProxier_env h net execer recorder roundRobin" and ?u = "updated p ips" and ?p = "p\<lparr>p_nodeIPs := ips\<rparr>"
  from assms(1) obtain bs be where b: "p_endpointsSynced p" "p_servicesSynced p" "wf_gomap (p_serviceMap p)"
    "ecm_Hostname (p_endpointsChanges p) = hostname" "map_of (p_serviceMap p) = service_view bs"
    "map_of (p_endpointsMap p) = endpoints_view hostname be" "service_pending bs sst (p_serviceChanges p)"
    "endpoints_pending hostname be est (ecm_Items (p_endpointsChanges p))" "valid_stores ips hostname bs be"
    "well_named service_nsn bs" "well_named endpoints_nsn be" "well_named service_nsn sst" "well_named endpoints_nsn est"
    unfolding tracking_def by (elim exE conjE) (rule that)
  have u: "wf_gomap (p_serviceMap ?u)" "map_of (p_serviceMap ?u) = service_view sst"
    "map_of (p_endpointsMap ?u) = endpoints_view hostname est" "p_nodeIPs ?u = ips"
    using UpdateServiceMap_wf [OF b(3)] UpdateServiceMap_view [OF b(7,10,12)] UpdateEndpointsMap_view [OF b(8,11,13)] b(5,6)
    by (simp_all add: updated_def)
  with assms(2) have v: "syncable ?u" "no_conflict ?u" unfolding valid_stores_def by blast+
  have "syncable ?p" using b(3,5,6,9) unfolding valid_stores_def by simp
  with pending_valid_infos [OF b(7,10,12) _ this _ _ v(1) u(1,2)] b(3,5)
  have items: "valid_infos (sc_Previous ch) \<and> valid_infos (sc_Current ch)" if "(n, ch) \<in> set (p_serviceChanges p)" for n ch
    using that by simp
  have "\<exists>p' w'. syncProxyRules ?env p w = Some (p', w') \<and> ok w' \<and> same_input p' ?u \<and> p_serviceChanges p' = [] \<and>
      p_endpointsChanges p' = (p_endpointsChanges p)\<lparr>ecm_Items := []\<rparr>"
    by (rule px.sync_returns [OF assms(3) b(1,2) _ v free]) (use ips items in \<open>simp_all add: NewProxier_env_def\<close>)
  then obtain p' w' where
    s: "syncProxyRules ?env p w = Some (p', w')" "ok w'" "same_input p' ?u" "p_serviceChanges p' = []"
      "p_endpointsChanges p' = (p_endpointsChanges p)\<lparr>ecm_Items := []\<rparr>" by blast
  with u b(1,2,4) syncProxyRules_flags(2,3) [OF s(1)] have "caught_up hostname sst est p'"
    by (simp add: caught_up_def settled_def same_input_def)
  with s(1,2) show ?thesis by blast
qed

text \<open>One step of any goroutine.\<close>

text \<open>A step that syncs, or that only records its event, keeps track of the stores.\<close>

lemma tracking_deliver:
  assumes "tracking ips hostname sst est q" "ok w" and "valid_stores ips hostname sst est"
    and ips: "\<And>w. ok w \<Longrightarrow> GetNodeIPs net (EnnIpvs h) w = Inr ips"
    and free: "ports_free ok (NewProxier_env h net execer recorder roundRobin)"
    and step: "r = map_option (put_state s)
      (if c then syncProxyRules (NewProxier_env h net execer recorder roundRobin) q w else Some (q, w))"
  shows "\<exists>s'. r = Some s' \<and> ok (ss_w s') \<and> tracking ips hostname sst est (ss_proxier s') \<and>
    (c \<longrightarrow> caught_up hostname sst est (ss_proxier s'))"
proof -
  from assms(1) have wn: "well_named service_nsn sst" "well_named endpoints_nsn est" by (auto simp: tracking_def)
  from sync_catches_up [OF assms(1,3,2) ips free] caught_up_tracking [OF _ assms(3) wn] show ?thesis
    unfolding step using assms(1,2) by (cases c) (fastforce simp: put_state_def)+
qed

lemma tracking_step:
  assumes "tracking ips hostname sst est (ss_proxier s)" "ok (ss_w s)" and "announces sst est [ev]"
    and valid: "valid_stores ips hostname (services_after sst [ev]) (endpoints_after est [ev])"
    and keeps: "\<And>V B. ipt_keeps os (\<lambda>w. ok w \<and> vs w = V \<and> bound w = B)"
    and ips: "\<And>w. ok w \<Longrightarrow> GetNodeIPs net (EnnIpvs h) w = Inr ips"
    and free: "ports_free ok (NewProxier_env h net execer recorder roundRobin)"
  shows "\<exists>s'. server_step (NewProxier_env h net execer recorder roundRobin) os ev s = Some s' \<and> ok (ss_w s') \<and>
    tracking ips hostname (services_after sst [ev]) (endpoints_after est [ev]) (ss_proxier s') \<and>
    (ev = Ev_Tick \<and> ss_loop s \<longrightarrow> caught_up hostname sst est (ss_proxier s'))"
proof -
  let ?env = "NewProxier_env h net execer recorder roundRobin" and ?s = "services_after sst [ev]"
    and ?e = "endpoints_after est [ev]"
  obtain p w l where s: "s = \<lparr>ss_proxier = p, ss_w = w, ss_loop = l\<rparr>" by (cases s) blast
  have p: "tracking ips hostname sst est p" "ok w" using assms(1,2) by (simp_all add: s)
  then have wn0: "well_named service_nsn sst" "well_named endpoints_nsn est" by (auto simp: tracking_def)
  have deliver: "\<exists>s'. r = Some s' \<and> ok (ss_w s') \<and> (c \<longrightarrow> caught_up hostname ?s ?e (ss_proxier s')) \<and>
      tracking ips hostname ?s ?e (ss_proxier s')"
    if "tracking ips hostname ?s ?e q" "ok w" "r = map_option (put_state s) (if c then syncProxyRules ?env q w else Some (q, w))"
    for q w r c
    using tracking_deliver [OF that(1,2) valid ips free that(3)] by blast
  show ?thesis
  proof (cases ev)
    case (Ev_Service n)
    obtain name old new where n: "notif_event service_nsn n = (name, old, new)" by (metis prod_cases3)
    have o: "old = sst name" using assms(3) Ev_Service n by (simp add: announces_def)
    have "server_step ?env os ev s = map_option (put_state s) (service_event ?env name (sst name) new p w)"
      using Ev_Service n o by (simp add: s notify_service_event)
    from deliver [OF _ p(2) this [unfolded service_event_def split_beta Let_def]] show ?thesis
      using tracking_service [OF p(1), of name new] store_after_well_named [OF wn0(1), of "[n]"] Ev_Service n by auto
  next
    case (Ev_Endpoints n)
    obtain name old new where n: "notif_event endpoints_nsn n = (name, old, new)" by (metis prod_cases3)
    have o: "old = est name" using assms(3) Ev_Endpoints n by (simp add: announces_def)
    have "server_step ?env os ev s = map_option (put_state s) (endpoints_event ?env name (est name) new p w)"
      using Ev_Endpoints n o by (simp add: s notify_endpoints_event)
    from deliver [OF _ p(2) this [unfolded endpoints_event_def split_beta Let_def]] show ?thesis
      using tracking_endpoints [OF p(1), of name new] store_after_well_named [OF wn0(2), of "[n]"] Ev_Endpoints n by auto
  next
    case Ev_ServicesSynced
    with deliver [OF _ p(2), of "setInitialized True (p\<lparr>p_servicesSynced := True\<rparr>)" _ True] show ?thesis
      using tracking_synced(1) [OF p(1)] tracking_input [OF p(1)]
      by (auto simp: s ServiceConfig_Run_proxier OnServiceSynced_def tracking_initialized)
  next
    case Ev_EndpointsSynced
    with deliver [OF _ p(2), of "p\<lparr>p_endpointsSynced := True\<rparr>" _ True] show ?thesis
      using tracking_synced(2) [OF p(1)] by (auto simp: s EndpointsConfig_Run_proxier OnEndpointsSynced_def)
  next
    case Ev_Tick
    obtain err w1 where "EnsureIPtablesMASQ os p w = Some (err, w1)" "ok w1"
      using Ensure_keeps [OF keeps, where w = w and p = p] p(2) by blast
    with deliver [of p w1 _ True] p Ev_Tick show ?thesis by (auto simp: s Sync_def)
  qed
qed

lemma tracking_steps:
  assumes "tracking ips hostname sst est (ss_proxier s)" "ok (ss_w s)" and "announces sst est es"
    and "\<forall>es' es''. es = es' @ es'' \<longrightarrow> valid_stores ips hostname (services_after sst es') (endpoints_after est es')"
    and keeps: "\<And>V B. ipt_keeps os (\<lambda>w. ok w \<and> vs w = V \<and> bound w = B)"
    and ips: "\<And>w. ok w \<Longrightarrow> GetNodeIPs net (EnnIpvs h) w = Inr ips"
    and free: "ports_free ok (NewProxier_env h net execer recorder roundRobin)"
  shows "\<exists>s'. foldM (server_step (NewProxier_env h net execer recorder roundRobin) os) es s = Some s' \<and> ok (ss_w s') \<and>
    tracking ips hostname (services_after sst es) (endpoints_after est es) (ss_proxier s')"
  using assms(1-4)
proof (induction es arbitrary: sst est s)
  case (Cons e es)
  let ?env = "NewProxier_env h net execer recorder roundRobin"
  from Cons.prems(3) have c: "announces sst est [e]" "announces (services_after sst [e]) (endpoints_after est [e]) es"
    using announced_Cons(3) by blast+
  from Cons.prems(4) [rule_format, of "[e]" es]
  have "valid_stores ips hostname (services_after sst [e]) (endpoints_after est [e])" by simp
  from tracking_step [OF Cons.prems(1,2) c(1) this keeps ips free] obtain s1 where
    s1: "server_step ?env os e s = Some s1" "ok (ss_w s1)"
    "tracking ips hostname (services_after sst [e]) (endpoints_after est [e]) (ss_proxier s1)" by blast
  have "\<forall>es' es''. es = es' @ es'' \<longrightarrow> valid_stores ips hostname
      (services_after (services_after sst [e]) es') (endpoints_after (endpoints_after est [e]) es')"
    using Cons.prems(4) [rule_format, of "e # _"] announced_Cons(1,2) by (metis append_Cons)
  from Cons.IH [OF s1(3,2) c(2) this] s1(1) show ?case
    unfolding announced_Cons(1) [of sst e es] announced_Cons(2) [of est e es] by simp
qed simp

text \<open>The first tick catches up; every later one makes the kernel right, whatever it was.\<close>

lemma tick_repairs:
  assumes "caught_up hostname sst est (ss_proxier s)" "ok (ss_w s)" "ss_loop s" and "valid_stores ips hostname sst est"
    and keeps: "\<And>V B. ipt_keeps os (\<lambda>w. ok w \<and> vs w = V \<and> bound w = B)"
    and ips: "\<And>w. ok w \<Longrightarrow> GetNodeIPs net (EnnIpvs h) w = Inr ips"
    and free: "ports_free ok (NewProxier_env h net execer recorder roundRobin)"
  shows "\<exists>s'. server_step (NewProxier_env h net execer recorder roundRobin) os Ev_Tick s = Some s' \<and> ss_loop s' \<and>
    caught_up hostname sst est (ss_proxier s') \<and> in_shape ok vs bound ((ss_proxier s')\<lparr>p_nodeIPs := ips\<rparr>) (ss_w s')"
proof -
  let ?env = "NewProxier_env h net execer recorder roundRobin" and ?p = "ss_proxier s"
  from assms(1) have c: "settled ?p ?p" "wf_gomap (p_serviceMap ?p)" "ecm_Hostname (p_endpointsChanges ?p) = hostname"
    "map_of (p_serviceMap ?p) = service_view sst" "map_of (p_endpointsMap ?p) = endpoints_view hostname est"
    by (simp_all add: caught_up_def)
  with assms(4) have v: "syncable (?p\<lparr>p_nodeIPs := ips\<rparr>)" "no_conflict (?p\<lparr>p_nodeIPs := ips\<rparr>)"
    unfolding valid_stores_def by simp_all
  from Sync_turn [OF keeps ips v free c(1) assms(2)] obtain p' w' where
    s: "Sync ?env os ?p (ss_w s) = Some (p', w')" "settled ?p p'" "in_shape ok vs bound (?p\<lparr>p_nodeIPs := ips\<rparr>) w'" by blast
  have "ecm_Hostname (p_endpointsChanges p') = hostname"
    using Sync_hostname [OF s(1)] c(3) by simp
  with s(2) c have "caught_up hostname sst est p'" by (simp add: caught_up_def settled_def)
  moreover have "in_shape ok vs bound (p'\<lparr>p_nodeIPs := ips\<rparr>) w'"
    using s(3) same_input_spec(1,2) [OF settled_input [OF s(2), of ips]] by (simp add: in_shape_def)
  ultimately show ?thesis using s(1) assms(3) by (simp add: put_state_def)
qed

lemma ticks_repair:
  assumes "tracking ips hostname sst est (ss_proxier s)" "ok (ss_w s)" "ss_loop s" and "valid_stores ips hostname sst est"
    and keeps: "\<And>V B. ipt_keeps os (\<lambda>w. ok w \<and> vs w = V \<and> bound w = B)"
    and ips: "\<And>w. ok w \<Longrightarrow> GetNodeIPs net (EnnIpvs h) w = Inr ips"
    and free: "ports_free ok (NewProxier_env h net execer recorder roundRobin)"
  shows "\<exists>s'. foldM (server_step (NewProxier_env h net execer recorder roundRobin) os) (replicate (Suc (Suc n)) Ev_Tick) s = Some s' \<and>
    caught_up hostname sst est (ss_proxier s') \<and> in_shape ok vs bound ((ss_proxier s')\<lparr>p_nodeIPs := ips\<rparr>) (ss_w s')"
proof -
  let ?env = "NewProxier_env h net execer recorder roundRobin"
  obtain s1 where s1: "server_step ?env os Ev_Tick s = Some s1" "ok (ss_w s1)" "caught_up hostname sst est (ss_proxier s1)"
    using tracking_step [OF assms(1,2) _ _ keeps ips free, of Ev_Tick] assms(3,4) by (auto simp: announces_def)
  have loop: "ss_loop s1" using server_step_loop [OF s1(1)] assms(3) by simp
  note turn = tick_repairs [OF _ _ _ assms(4) keeps ips free]
  have "\<exists>s'. foldM (server_step ?env os) (replicate (Suc n) Ev_Tick) s1 = Some s' \<and>
    caught_up hostname sst est (ss_proxier s') \<and> in_shape ok vs bound ((ss_proxier s')\<lparr>p_nodeIPs := ips\<rparr>) (ss_w s')"
    using s1(2,3) loop
  proof (induction n arbitrary: s1)
    case 0
    from turn [OF 0(2,1,3)] show ?case by auto
  next
    case (Suc n)
    from turn [OF Suc.prems(2,1,3)] obtain s2 where s2: "server_step ?env os Ev_Tick s1 = Some s2" "ss_loop s2"
      "caught_up hostname sst est (ss_proxier s2)" "in_shape ok vs bound ((ss_proxier s2)\<lparr>p_nodeIPs := ips\<rparr>) (ss_w s2)" by blast
    from s2(4) have "ok (ss_w s2)" by (simp add: in_shape_def)
    from Suc.IH [OF this s2(3,2)] s2(1) show ?case by simp
  qed
  with s1(1) show ?thesis by simp
qed

text \<open>The sync after the second signal, whatever the kernel tables hold.\<close>

lemma signal_tracking:
  assumes "starting K p0 a b sst est s" "a \<noteq> b" "ok (ss_w s)" and "p_serviceMap p0 = []" "p_endpointsMap p0 = []"
    and wn: "well_named service_nsn sst" "well_named endpoints_nsn est"
    and "valid_stores ips (p_hostname p0) Map.empty Map.empty" "valid_stores ips (p_hostname p0) sst est"
    and ips: "\<And>w. ok w \<Longrightarrow> GetNodeIPs net (EnnIpvs h) w = Inr ips"
    and free: "ports_free ok (NewProxier_env h net execer recorder roundRobin)"
  shows "\<exists>s'. server_step (NewProxier_env h net execer recorder roundRobin) os
      (if a then Ev_EndpointsSynced else Ev_ServicesSynced) s = Some s' \<and> ok (ss_w s') \<and>
    tracking ips (p_hostname p0) sst est (ss_proxier s')"
proof -
  let ?env = "NewProxier_env h net execer recorder roundRobin"
  from last_signal [OF assms(1,2), of ?env os] obtain q where
    q: "server_step ?env os (if a then Ev_EndpointsSynced else Ev_ServicesSynced) s =
      map_option (put_state s) (syncProxyRules ?env q (ss_w s))" "p_endpointsSynced q" "p_servicesSynced q"
    "p_serviceMap q = []" "p_endpointsMap q = []" "service_pending Map.empty sst (p_serviceChanges q)"
    "endpoints_pending (p_hostname p0) Map.empty est (ecm_Items (p_endpointsChanges q))"
    "ecm_Hostname (p_endpointsChanges q) = p_hostname p0"
    unfolding assms(4,5) by (elim exE conjE) (rule that)
  from q wn assms(8) empty_views have "tracking ips (p_hostname p0) sst est q"
    unfolding tracking_def by (intro exI [of _ Map.empty]) (simp add: well_named_def)
  from sync_catches_up [OF this assms(9,3) ips free] obtain p' w' where
    "syncProxyRules ?env q (ss_w s) = Some (p', w')" "ok w'" "caught_up (p_hostname p0) sst est p'" by blast
  with q(1) caught_up_tracking [OF _ assms(9) wn] show ?thesis by (simp add: put_state_def)
qed

end

section \<open>Splitting a run\<close>

lemma announced_append:
  "services_after sst (es @ es') = services_after (services_after sst es) es'"
  "endpoints_after est (es @ es') = endpoints_after (endpoints_after est es) es'"
  "announces sst est (es @ es') \<longleftrightarrow> announces sst est es \<and> announces (services_after sst es) (endpoints_after est es) es'"
proof (induction es arbitrary: sst est)
  case Nil
  {
    case 1
    show ?case by simp
  next
    case 2
    show ?case by simp
  next
    case 3
    show ?case by (simp add: announces_def)
  }
next
  case (Cons e es)
  {
    case 1
    show ?case
      using Cons.IH(1) unfolding append_Cons announced_Cons(1) [of _ e es] announced_Cons(1) [of _ e "es @ es'"] by simp
  next
    case 2
    show ?case
      using Cons.IH(2) unfolding append_Cons announced_Cons(2) [of _ e es] announced_Cons(2) [of _ e "es @ es'"] by simp
  next
    case 3
    show ?case
      using Cons.IH(3)
      unfolding append_Cons announced_Cons(1) [of _ e es] announced_Cons(2) [of _ e es]
        announced_Cons(3) [of _ _ e "es @ es'"] announced_Cons(3) [of _ _ e es]
      by simp
  }
qed

text \<open>Where the second of two signals first comes.\<close>

lemma second_signal:
  assumes "x \<in> set es" "y \<in> set es" "x \<noteq> y"
  obtains es1 z es2 where "es = es1 @ z # es2" "z \<in> {x, y}" "z \<notin> set es1" "{x, y} \<subseteq> insert z (set es1)"
proof -
  obtain ys zs where s: "es = ys @ x # zs" "x \<notin> set ys" using split_list_first [OF assms(1)] by blast
  show thesis
  proof (cases "y \<in> set ys")
    case True
    with s that show ?thesis by blast
  next
    case False
    with s(1) assms(2,3) have "y \<in> set zs" by auto
    then obtain us vs where t: "zs = us @ y # vs" "y \<notin> set us" using split_list_first by metis
    with s False assms(3) show ?thesis by (intro that [of "ys @ x # us" y vs]) auto
  qed
qed


section \<open>From the first event on\<close>

context proxy_os
begin

lemma startup_tracking:
  assumes "starting (\<lambda>w. ok w \<and> vs w = V \<and> bound w = B) p0 False False Map.empty Map.empty s"
    and p0: "p_serviceMap p0 = []" "p_endpointsMap p0 = []"
    and "announces Map.empty Map.empty es"
    and valid: "\<forall>es' es''. es = es' @ es'' \<longrightarrow>
      valid_stores ips (p_hostname p0) (services_after Map.empty es') (endpoints_after Map.empty es')"
    and "Ev_ServicesSynced \<in> set es" "Ev_EndpointsSynced \<in> set es"
    and keeps: "\<And>V B. ipt_keeps os (\<lambda>w. ok w \<and> vs w = V \<and> bound w = B)"
    and ips: "\<And>w. ok w \<Longrightarrow> GetNodeIPs net (EnnIpvs h) w = Inr ips"
    and free: "ports_free ok (NewProxier_env h net execer recorder roundRobin)"
  shows "\<exists>s'. foldM (server_step (NewProxier_env h net execer recorder roundRobin) os) es s = Some s' \<and> ok (ss_w s') \<and>
    tracking ips (p_hostname p0) (services_after Map.empty es) (endpoints_after Map.empty es) (ss_proxier s')"
proof -
  let ?env = "NewProxier_env h net execer recorder roundRobin"
  obtain es1 z es2 where es: "es = es1 @ z # es2" "z \<in> {Ev_ServicesSynced, Ev_EndpointsSynced}" "z \<notin> set es1"
      "{Ev_ServicesSynced, Ev_EndpointsSynced} \<subseteq> insert z (set es1)"
    using second_signal [OF assms(6,7)] by blast
  define a where "a = (Ev_ServicesSynced \<in> set es1)"
  define b where "b = (Ev_EndpointsSynced \<in> set es1)"
  have z: "a \<noteq> b" "z = (if a then Ev_EndpointsSynced else Ev_ServicesSynced)" using es(2-4) by (auto simp: a_def b_def)
  let ?ss = "services_after Map.empty es1" and ?ee = "endpoints_after Map.empty es1"
  have after: "services_after ?ss (z # es) = services_after ?ss es" "endpoints_after ?ee (z # es) = endpoints_after ?ee es"
    for es using es(2) by auto
  have ann: "announces Map.empty Map.empty es1" "announces ?ss ?ee es2"
    using assms(4) es(2) unfolding es(1) announced_append(3) by (auto simp: announces_def)
  have "\<not> (False \<or> Ev_ServicesSynced \<in> set es1) \<or> \<not> (False \<or> Ev_EndpointsSynced \<in> set es1)"
    using z(1) by (auto simp: a_def b_def)
  from starting_steps [OF assms(1) keeps ann(1) this, of ?env] obtain s1 where
    s1: "foldM (server_step ?env os) es1 s = Some s1" "starting (\<lambda>w. ok w \<and> vs w = V \<and> bound w = B) p0 a b ?ss ?ee s1"
    unfolding a_def b_def by auto
  have ok: "ok (ss_w s1)" using s1(2) by (simp add: starting_def)
  have v: "valid_stores ips (p_hostname p0) Map.empty Map.empty" "valid_stores ips (p_hostname p0) ?ss ?ee"
    using valid [rule_format, of "[]" es] valid [rule_format, of es1 "z # es2"] es(1) by simp_all
  from signal_tracking [OF s1(2) z(1) ok p0 announced_well_named v ips free, of os, folded z(2)] obtain s2 where
    s2: "server_step ?env os z s1 = Some s2" "ok (ss_w s2)" "tracking ips (p_hostname p0) ?ss ?ee (ss_proxier s2)" by blast
  have "\<forall>es' es''. es2 = es' @ es'' \<longrightarrow> valid_stores ips (p_hostname p0) (services_after ?ss es') (endpoints_after ?ee es')"
  proof (intro allI impI)
    fix es' es'' assume "es2 = es' @ es''"
    then show "valid_stores ips (p_hostname p0) (services_after ?ss es') (endpoints_after ?ee es')"
      using valid [rule_format, of "es1 @ z # es'" es''] es(1) unfolding announced_append after by simp
  qed
  from tracking_steps [OF s2(3,2) ann(2) this keeps ips free] obtain s3 where
    s3: "foldM (server_step ?env os) es2 s2 = Some s3" "ok (ss_w s3)"
      "tracking ips (p_hostname p0) (services_after ?ss es2) (endpoints_after ?ee es2) (ss_proxier s3)" by blast
  have "foldM (server_step ?env os) es s = Some s3" by (simp add: es(1) foldM_append s1(1) s2(1) s3(1))
  with s3(2,3) show ?thesis unfolding es(1) announced_append after by blast
qed

end

end
