(* ===== verification/Server_Invariant.thy ===== *)
theory Server_Invariant
  imports Server_Convergence
begin

text \<open>
  What holds in every state that the server can reach, whatever the informers announce and however the operating
  system answers: the data of the proxier is well-formed.  The invariants are instances of one interface,
  \<open>server_invariant\<close>, whose laws speak of the operations of the proxier and whose lemmas lift them to the states that
  the goroutines reach.
\<close>

section \<open>Reachable states\<close>

inductive server_reachable :: "'w penv \<Rightarrow> 'w ipt_os \<Rightarrow> 'w server_state \<Rightarrow> 'w server_state \<Rightarrow> bool"
  for env :: "'w penv" and os :: "'w ipt_os" and s0 :: "'w server_state" where
  initial: "server_reachable env os s0 s0"
| step: "server_reachable env os s0 s \<Longrightarrow> server_step env os ev s = Some s' \<Longrightarrow> server_reachable env os s0 s'"

lemma server_reachable_run:
  "foldM (server_step env os) es s = Some s' \<Longrightarrow> server_reachable env os s0 s \<Longrightarrow> server_reachable env os s0 s'"
  by (induction es arbitrary: s) (auto simp: bind_eq_Some_conv dest: server_reachable.step)

lemma server_reachable_iff:
  "server_reachable env os s0 s \<longleftrightarrow> (\<exists>es. foldM (server_step env os) es s0 = Some s)"
proof
  assume "server_reachable env os s0 s"
  then show "\<exists>es. foldM (server_step env os) es s0 = Some s"
  proof induction
    case initial
    have "foldM (server_step env os) [] s0 = Some s0" by simp
    then show ?case by blast
  next
    case (step s ev s')
    then obtain es where "foldM (server_step env os) es s0 = Some s" by blast
    with step.hyps(2) have "foldM (server_step env os) (es @ [ev]) s0 = Some s'" by (simp add: foldM_append)
    then show ?case by blast
  qed
qed (auto dest: server_reachable_run intro: server_reachable.initial)

text \<open>An assertion on the proxier and the world that every operation of the proxier keeps.\<close>

locale server_invariant =
  fixes env :: "'w penv" and os :: "'w ipt_os" and J :: "Proxier \<Rightarrow> 'w \<Rightarrow> bool"
  assumes sync_inv: "J p w \<Longrightarrow> syncProxyRules env p w = Some (p', w') \<Longrightarrow> J p' w'"
    and service_inv: "J p w \<Longrightarrow> J (p\<lparr>p_serviceChanges := fst (ServiceChangeMap_Update (p_serviceChanges p) n old new)\<rparr>) w"
    and endpoints_inv: "J p w \<Longrightarrow>
      J (p\<lparr>p_endpointsChanges := fst (EndpointsChangeMap_Update (p_endpointsChanges p) n old' new')\<rparr>) w"
    and services_synced_inv: "J p w \<Longrightarrow> J (setInitialized (p_endpointsSynced p) (p\<lparr>p_servicesSynced := True\<rparr>)) w"
    and endpoints_synced_inv: "J p w \<Longrightarrow> J (p\<lparr>p_endpointsSynced := True\<rparr>) w"
    and masq_inv: "J p w \<Longrightarrow> EnsureIPtablesMASQ os p w = Some (err, w') \<Longrightarrow> J p w'"
begin

lemma step_inv:
  assumes "server_step env os ev s = Some s'" and "J (ss_proxier s) (ss_w s)"
  shows "J (ss_proxier s') (ss_w s')"
proof (cases ev)
  case (Ev_Service n)
  obtain name old new where "notif_event service_nsn n = (name, old, new)" by (metis prod_cases3)
  with assms Ev_Service show ?thesis
    by (auto simp: notify_service_event service_event_def split_beta Let_def put_state_def
        intro: service_inv sync_inv split: if_splits)
next
  case (Ev_Endpoints n)
  obtain name old new where "notif_event endpoints_nsn n = (name, old, new)" by (metis prod_cases3)
  with assms Ev_Endpoints show ?thesis
    by (auto simp: notify_endpoints_event endpoints_event_def split_beta Let_def put_state_def
        intro: endpoints_inv sync_inv split: if_splits)
next
  case Ev_ServicesSynced
  with assms show ?thesis
    by (auto simp: ServiceConfig_Run_proxier OnServiceSynced_def put_state_def intro: sync_inv [OF services_synced_inv])
next
  case Ev_EndpointsSynced
  with assms show ?thesis
    by (auto simp: EndpointsConfig_Run_proxier OnEndpointsSynced_def put_state_def intro: sync_inv [OF endpoints_synced_inv])
next
  case Ev_Tick
  with assms show ?thesis
    by (auto simp: Sync_def put_state_def intro: sync_inv [OF masq_inv] split: if_splits option.splits)
qed

lemma reachable_inv:
  "server_reachable env os s0 s \<Longrightarrow> J (ss_proxier s0) (ss_w s0) \<Longrightarrow> J (ss_proxier s) (ss_w s)"
  by (induction rule: server_reachable.induct) (auto intro: step_inv)

end

section \<open>Typed maps\<close>

text \<open>A Go map, each key once, whose values satisfy \<open>P\<close>.\<close>

definition typed :: "('v \<Rightarrow> bool) \<Rightarrow> ('k, 'v) gomap \<Rightarrow> bool" where
  "typed P m \<longleftrightarrow> wf_gomap m \<and> list_all (\<lambda>(_, v). P v) m"

lemma typed_iff: "typed P m \<longleftrightarrow> wf_gomap m \<and> (\<forall>k v. map_of m k = Some v \<longrightarrow> P v)"
  by (auto simp: typed_def list_all_iff wf_gomap_mem)

lemma typed_Nil [simp]: "typed P []"
  by (simp add: typed_def)

lemma typed_put [intro]: "typed P m \<Longrightarrow> P v \<Longrightarrow> typed P (gm_put m k v)"
  by (auto simp: typed_iff split: if_splits)

lemma typed_del [intro]: "typed P m \<Longrightarrow> typed P (gm_del m k)"
  by (auto simp: typed_iff split: if_splits)

lemma typed_get: "typed P m \<Longrightarrow> gm_get m k = Some v \<Longrightarrow> P v"
  by (auto simp: typed_iff)

lemma typed_mem: "typed P m \<Longrightarrow> (k, v) \<in> set m \<Longrightarrow> P v"
  by (auto simp: typed_def list_all_iff)

text \<open>What the sources put into the maps: protocols in lower case, endpoints with an address and a port.\<close>

definition service_ok :: "ServiceInfo \<Rightarrow> bool" where
  "service_ok i \<longleftrightarrow> ToLower (si_Protocol i) = si_Protocol i \<and> \<not> si_OnlyNodeLocalEndpoints i \<and> si_healthCheckNodePort i = 0"

definition endpoints_ok :: "EndpointsInfo list \<Rightarrow> bool" where
  "endpoints_ok eps \<longleftrightarrow> eps \<noteq> [] \<and> list_all (\<lambda>e. ei_Ip e \<noteq> [] \<and> ei_Port e \<noteq> 0) eps"

text \<open>A pending change really changes something.\<close>

definition service_change_ok :: "ServiceChange \<Rightarrow> bool" where
  "service_change_ok ch \<longleftrightarrow> typed service_ok (range_map (sc_Previous ch)) \<and> typed service_ok (range_map (sc_Current ch)) \<and>
     \<not> DeepEqual_maps (sc_Previous ch) (sc_Current ch)"

definition endpoints_change_ok :: "EndpointsChange \<Rightarrow> bool" where
  "endpoints_change_ok ch \<longleftrightarrow> typed endpoints_ok (range_map (ec_Previous ch)) \<and>
     typed endpoints_ok (range_map (ec_Current ch)) \<and> \<not> DeepEqual_maps (ec_Previous ch) (ec_Current ch)"

definition wf_Proxier :: "Proxier \<Rightarrow> bool" where
  "wf_Proxier p \<longleftrightarrow> typed service_change_ok (p_serviceChanges p) \<and>
     typed endpoints_change_ok (ecm_Items (p_endpointsChanges p)) \<and> ecm_Hostname (p_endpointsChanges p) = p_hostname p \<and>
     typed service_ok (p_serviceMap p) \<and> typed endpoints_ok (p_endpointsMap p) \<and> wf_gomap (p_portsMap p) \<and>
     wf_gomap (p_kernelIpvsMap p) \<and> distinct (p_kernelClusterMap p) \<and>
     p_initialized p = (if p_servicesSynced p \<and> p_endpointsSynced p \<and> p_initialized p \<noteq> 0 then 1 else 0)"

lemma ToLower_idem: "ToLower (ToLower s) = ToLower s"
  by (auto simp: ToLower_def lower_char_def Let_def)

lemma service_map_typed: "typed service_ok (range_map (serviceToServiceMap s))"
proof -
  have "typed service_ok (add_service_ports x [])" for x
    unfolding add_service_ports_def Let_def
    by (rule fold_invariant [where P = "typed service_ok" and Q = "\<lambda>_. True"])
      (auto intro!: typed_put simp: service_ok_def NewServiceInfo_def ToLower_idem)
  then show ?thesis by (auto simp: serviceToServiceMap_def range_map_def split: option.splits)
qed

lemma endpoints_map_typed: "typed endpoints_ok (range_map (endpointsToEndpointsMap hostname e))"
proof -
  have slice: "list_all (\<lambda>e. ei_Ip e \<noteq> [] \<and> ei_Port e \<noteq> 0) (gm_slice m k)" if "typed endpoints_ok m" for m k
    using typed_get [OF that, of k] by (auto simp: gm_slice_def endpoints_ok_def split: option.splits)
  have addrs: "typed endpoints_ok (add_addresses hostname n p as m)" if "typed endpoints_ok m" "ep_Port p \<noteq> 0" for n p as m
    unfolding add_addresses_def
    by (rule fold_invariant [where P = "typed endpoints_ok" and Q = "\<lambda>_. True"])
      (use that slice in \<open>auto intro!: typed_put simp: endpoints_ok_def NewEndpointsInfo_def\<close>)
  have "typed endpoints_ok (add_subset hostname n ss m)" if "typed endpoints_ok m" for n ss m
    unfolding add_subset_def
    by (rule fold_invariant [where P = "typed endpoints_ok" and Q = "\<lambda>_. True"]) (use that addrs in auto)
  then have "typed endpoints_ok (fold (add_subset hostname n) sss [])" for n sss
    by (intro fold_invariant [where P = "typed endpoints_ok" and Q = "\<lambda>_. True"]) auto
  then show ?thesis by (auto simp: endpointsToEndpointsMap_def range_map_def split: option.splits)
qed

lemma service_changes_typed:
  assumes "typed service_change_ok items"
  shows "typed service_change_ok (fst (ServiceChangeMap_Update items n old new))"
proof -
  have "typed service_ok (range_map (sc_Previous ch))" if "gm_get items n = Some ch" for ch
    using typed_get [OF assms that] by (simp add: service_change_ok_def)
  then show ?thesis
    using assms service_map_typed
    by (auto simp: ServiceChangeMap_Update_def Let_def service_change_ok_def typed_iff split: option.splits if_splits)
qed

lemma endpoints_changes_typed:
  assumes "typed endpoints_change_ok (ecm_Items ecm)"
  shows "typed endpoints_change_ok (ecm_Items (fst (EndpointsChangeMap_Update ecm n old new)))"
proof -
  have "typed endpoints_ok (range_map (ec_Previous ch))" if "gm_get (ecm_Items ecm) n = Some ch" for ch
    using typed_get [OF assms that] by (simp add: endpoints_change_ok_def)
  then show ?thesis
    using assms endpoints_map_typed
    by (auto simp: EndpointsChangeMap_Update_def EndpointsChangeItems_Update_def Let_def endpoints_change_ok_def typed_iff
        split: option.splits if_splits)
qed

lemma UpdateServiceMap_typed:
  assumes "typed service_ok sm" and "typed service_change_ok items"
  shows "typed service_ok (fst (UpdateServiceMap sm items))"
proof -
  have merge: "typed service_ok (fst (ProxyServiceMap_merge m other))"
    if "typed service_ok m" "typed service_ok (range_map other)" for m other
    unfolding ProxyServiceMap_merge_def
    by (rule fold_invariant [where P = "\<lambda>s. typed service_ok (fst s)" and Q = "\<lambda>(_, i). service_ok i"])
      (use that typed_mem in \<open>auto split: prod.splits\<close>)
  have unmerge: "typed service_ok (fst (ProxyServiceMap_unmerge m other ex st))" if "typed service_ok m" for m other ex st
    unfolding ProxyServiceMap_unmerge_def
    by (rule fold_invariant [where P = "\<lambda>s. typed service_ok (fst s)" and Q = "\<lambda>_. True"])
      (use that in \<open>auto simp: unmerge_port_def split: prod.splits option.splits\<close>)
  have "typed service_ok (fst (apply_service_change ch s))" if "typed service_ok (fst s)" "service_change_ok ch" for ch s
    using that merge [of "fst s" "sc_Current ch"] unmerge
    by (auto simp: apply_service_change_def service_change_ok_def split: prod.splits)
  then have "typed service_ok (fst (fold (\<lambda>(_, ch). apply_service_change ch) items (sm, [])))"
    by (intro fold_invariant [where P = "\<lambda>s. typed service_ok (fst s)" and Q = "\<lambda>(_, ch). service_change_ok ch"])
      (use assms typed_mem in \<open>auto split: prod.splits\<close>)
  then show ?thesis by (simp add: UpdateServiceMap_parts)
qed

lemma UpdateEndpointsMap_typed:
  assumes "typed endpoints_ok em" and "typed endpoints_change_ok items"
  shows "typed endpoints_ok (fst (UpdateEndpointsMap em items))"
proof -
  have merge: "typed endpoints_ok (ProxyEndpointMap_merge m other)"
    if "typed endpoints_ok m" "typed endpoints_ok (range_map other)" for m other
    unfolding ProxyEndpointMap_merge_def
    by (rule fold_invariant [where P = "typed endpoints_ok" and Q = "\<lambda>(_, i). endpoints_ok i"])
      (use that typed_mem in \<open>auto split: prod.splits\<close>)
  have unmerge: "typed endpoints_ok (ProxyEndpointMap_unmerge m other)" if "typed endpoints_ok m" for m other
    unfolding ProxyEndpointMap_unmerge_def
    by (rule fold_invariant [where P = "typed endpoints_ok" and Q = "\<lambda>_. True"]) (use that in auto)
  have "typed endpoints_ok (fst (apply_endpoints_change ch s))" if "typed endpoints_ok (fst s)" "endpoints_change_ok ch" for ch s
    using that merge [OF unmerge, of "fst s" "ec_Current ch"]
    by (auto simp: apply_endpoints_change_def endpoints_change_ok_def split: prod.splits)
  then have "typed endpoints_ok (fst (fold (\<lambda>(_, ch). apply_endpoints_change ch) items (em, [], [])))"
    by (intro fold_invariant [where P = "\<lambda>s. typed endpoints_ok (fst s)" and Q = "\<lambda>(_, ch). endpoints_change_ok ch"])
      (use assms typed_mem in \<open>auto split: prod.splits\<close>)
  then show ?thesis by (simp add: UpdateEndpointsMap_def split_beta)
qed

text \<open>What was read from the kernel.\<close>

lemma BuildMaps_wf:
  assumes "wf_gomap (p_kernelIpvsMap p)" and "distinct (p_kernelClusterMap p)"
  shows "wf_gomap (p_kernelIpvsMap (BuildClusterMap I l (BuildIpvsMap I p w) w'))"
    and "distinct (p_kernelClusterMap (BuildClusterMap I l (BuildIpvsMap I p w) w'))"
proof -
  have e: "wf_gomap (build_ipvs_entry I w svc m)" if "wf_gomap m" for svc m
    using that by (auto simp: build_ipvs_entry_def Let_def split: sum.splits)
  have "wf_gomap (fold (build_ipvs_entry I w) svcs [])" for svcs
    by (rule fold_invariant [where P = wf_gomap and Q = "\<lambda>_. True"]) (auto intro: e)
  then show "wf_gomap (p_kernelIpvsMap (BuildClusterMap I l (BuildIpvsMap I p w) w'))"
    by (auto simp: BuildClusterMap_def BuildIpvsMap_def split: sum.splits)
  have "distinct (fold (\<lambda>addr. str_insert (IP_String (ad_IP addr))) addrs [])" for addrs
    by (rule fold_invariant [where P = distinct and Q = "\<lambda>_. True"]) auto
  with assms(2) show "distinct (p_kernelClusterMap (BuildClusterMap I l (BuildIpvsMap I p w) w'))"
    by (auto simp: BuildClusterMap_def BuildIpvsMap_def split: sum.splits)
qed

section \<open>The ports of a sync\<close>

text \<open>An assertion on the new ports map and the world that every call of a sync keeps.\<close>

locale port_invariant =
  fixes env :: "'w penv" and ports :: PortsMap and Q :: "PortsMap \<Rightarrow> 'w \<Rightarrow> bool"
  assumes add_service_Q: "Q r w \<Longrightarrow> i_AddIpvsService (pe_ipvs env) s w = Some (e, w') \<Longrightarrow> Q r w'"
    and del_service_Q: "Q r w \<Longrightarrow> Q r (snd (i_DeleteIpvsService (pe_ipvs env) s w))"
    and add_server_Q: "Q r w \<Longrightarrow> Q r (snd (i_AddIpvsServer (pe_ipvs env) s d w))"
    and del_server_Q: "Q r w \<Longrightarrow> Q r (snd (i_DeleteIpvsServer (pe_ipvs env) s d w))"
    and bind_Q: "Q r w \<Longrightarrow> Q r (snd (i_AddDummyClusterIp (pe_ipvs env) ip l w))"
    and unbind_Q: "Q r w \<Longrightarrow> Q r (snd (i_DeleteDummyClusterIp (pe_ipvs env) ip l w))"
    and exec_Q: "Q r w \<Longrightarrow> Q r (snd (x_CombinedOutput (pe_exec env) path args w))"
    and event_Q: "Q r w \<Longrightarrow> Q r (pe_Eventf env reason text w)"
    and held_Q: "Q r w \<Longrightarrow> gm_get ports lp = Some c \<Longrightarrow> Q (gm_put r lp c) w"
    and opened_Q: "Q r w \<Longrightarrow> gm_get ports lp = None \<Longrightarrow> pe_OpenLocalPort env lp w = (Inr c, w') \<Longrightarrow> Q (gm_put r lp c) w'"
    and refused_Q: "Q r w \<Longrightarrow> pe_OpenLocalPort env lp w = (Inl err, w') \<Longrightarrow> Q r w'"
begin

abbreviation good :: "'w sync_state \<Rightarrow> bool" where
  "good st \<equiv> Q (sy_ports st) (sy_w st)"

lemma exec_conntrack_Q: "Q r w \<Longrightarrow> Q r (snd (ExecConntrackTool (pe_exec env) ps w))"
proof -
  assume q: "Q r w"
  show ?thesis
  proof (cases "x_LookPath (pe_exec env) ''conntrack'' w")
    case (Inr path)
    obtain out e w' where "x_CombinedOutput (pe_exec env) path ps w = ((out, e), w')" by (metis prod.exhaust)
    with Inr exec_Q [OF q, of path ps] show ?thesis by (cases e) (simp_all add: ExecConntrackTool_def)
  qed (use q in \<open>simp add: ExecConntrackTool_def\<close>)
qed

lemma clear_conntrack_Q:
  assumes "Q r w"
  shows "Q r (snd (ClearUDPConntrackForIP (pe_exec env) ip w))"
    and "Q r (snd (ClearUDPConntrackForPeers (pe_exec env) origin dest w))"
proof -
  have "snd (ClearUDPConntrackForIP (pe_exec env) ip w) = snd (ExecConntrackTool (pe_exec env)
      (parametersWithFamily (IsIPv6String ip) [''-D'', ''--orig-dst'', ip, ''-p'', ''udp'']) w)"
    by (simp add: ClearUDPConntrackForIP_def split: prod.splits option.splits)
  then show "Q r (snd (ClearUDPConntrackForIP (pe_exec env) ip w))" using exec_conntrack_Q [OF assms] by simp
  have "snd (ClearUDPConntrackForPeers (pe_exec env) origin dest w) = snd (ExecConntrackTool (pe_exec env)
      (parametersWithFamily (IsIPv6String origin) [''-D'', ''--orig-dst'', origin, ''--dst-nat'', dest, ''-p'', ''udp'']) w)"
    by (simp add: ClearUDPConntrackForPeers_def split: prod.splits option.splits)
  then show "Q r (snd (ClearUDPConntrackForPeers (pe_exec env) origin dest w))" using exec_conntrack_Q [OF assms] by simp
qed

lemma clear_port_Q: "Q r w \<Longrightarrow> Q r (ClearUdpConntrackForPort (pe_exec env) n w)"
  using exec_conntrack_Q by (auto simp: ClearUdpConntrackForPort_def split: prod.splits)

lemma CreateServiceRule_Q: "CreateServiceRule (pe_ipvs env) b s w = Some (e, w') \<Longrightarrow> Q r w \<Longrightarrow> Q r w'"
  by (auto simp: CreateServiceRule_def intro: add_service_Q split: if_splits)

lemma CreateEndpointRule_Q: "Q r w \<Longrightarrow> Q r (CreateEndpointRule (pe_ipvs env) p s n ds w)"
  unfolding CreateEndpointRule_def Let_def
  by (intro fold_invariant [where P = "Q r" and Q = "\<lambda>_. True"]) (auto intro: add_server_Q del_server_Q)

lemma CheckUnusedRule_Q: "Q r w \<Longrightarrow> Q r (CheckUnusedRule (pe_ipvs env) active bound l w)"
proof -
  have "Q r (check_unused_service (pe_ipvs env) active svc w)" if "Q r w" for svc w
    using that del_service_Q by (auto simp: check_unused_service_def Let_def split: sum.splits)
  then show "Q r w \<Longrightarrow> ?thesis"
    unfolding CheckUnusedRule_def Let_def
    by (auto intro!: fold_invariant [where P = "Q r" and Q = "\<lambda>_. True"] intro: unbind_Q split: sum.splits)
qed

lemma open_port_good:
  assumes "good st" and "gm_get ports lp = None" and "pe_OpenLocalPort env lp (sy_w st) = (r, w1)"
  shows "case r of Inl err \<Rightarrow> Q (sy_ports st) w1 | Inr c \<Rightarrow> Q (gm_put (sy_ports st) lp c) w1"
  using assms opened_Q refused_Q by (cases r) auto

lemma hold_external_good:
  assumes "good st" and "p_portsMap p = ports" and "hold_external env p n i ip st = (b, st')"
  shows "good st'"
proof (cases "isLocalIP env ip (sy_w st) = Inr True")
  case True
  let ?lp = "external_port n i ip"
  show ?thesis
  proof (cases "gm_get ports ?lp")
    case None
    obtain r w1 where "pe_OpenLocalPort env ?lp (sy_w st) = (r, w1)" by fastforce
    with open_port_good [OF assms(1) None this] assms(2,3) True None show ?thesis
      by (cases r) (auto simp: hold_external_def intro: event_Q)
  next
    case (Some c)
    with held_Q [OF assms(1) Some] assms(2,3) True show ?thesis by (auto simp: hold_external_def)
  qed
next
  case False
  with assms(1,3) show ?thesis by (auto simp: hold_external_def split: sum.splits bool.splits)
qed

lemma hold_nodeport_good:
  assumes "good st" and "p_portsMap p = ports" and "hold_nodeport env p n i st = (b, st')"
  shows "good st'"
proof (cases "gm_get ports (node_port n i)")
  case None
  obtain r w1 where "pe_OpenLocalPort env (node_port n i) (sy_w st) = (r, w1)" by fastforce
  with open_port_good [OF assms(1) None this] assms(2,3) None show ?thesis
    by (cases r) (auto simp: hold_nodeport_def Let_def intro: clear_port_Q)
next
  case (Some c)
  with held_Q [OF assms(1) Some] assms(2,3) show ?thesis by (auto simp: hold_nodeport_def)
qed

lemma sync_vip_good:
  assumes "good st" and "sync_vip env p n s st = Some st'"
  shows "good st'"
proof -
  let ?k = "\<lparr>ak_ip = IP_String (s_ClusterIP s), ak_port = s_Port s, ak_protocol = s_Protocol s\<rparr>"
  obtain e w1 where c: "CreateServiceRule (pe_ipvs env) (gm_has (p_kernelIpvsMap p) ?k) s (sy_w st) = Some (e, w1)"
    using assms(2) by (auto simp: sync_vip_def Let_def split: option.splits)
  with CreateServiceRule_Q [OF c assms(1)] assms(2) CreateEndpointRule_Q show ?thesis
    by (cases e) (auto simp: sync_vip_def Let_def)
qed

lemma create_service_good: "good st \<Longrightarrow> create_service env s st = Some st' \<Longrightarrow> good st'"
  by (auto simp: create_service_def intro: CreateServiceRule_Q split: option.splits)

lemma sync_external_good:
  assumes "good st" and "p_portsMap p = ports" and "sync_external env p n i ip st = Some st'"
  shows "good st'"
  using assms by (auto simp: sync_external_def intro: hold_external_good sync_vip_good split: prod.splits bool.splits)

lemma add_external_good:
  assumes "good st" and "p_portsMap p = ports" and "add_external env p n i ip st = Some st'"
  shows "good st'"
  using assms by (auto simp: add_external_def intro: hold_external_good create_service_good split: prod.splits bool.splits)

lemma sync_nodeport_good:
  assumes "good st" and "p_portsMap p = ports" and "sync_nodeport env p n i st = Some st'"
  shows "good st'"
  using assms hold_nodeport_good [OF assms(1,2)]
  by (auto simp: sync_nodeport_def split: prod.splits bool.splits if_splits
      elim!: foldM_preserves [where I = good] intro: sync_vip_good)

lemma add_nodeport_good:
  assumes "good st" and "p_portsMap p = ports" and "add_nodeport env p n i st = Some st'"
  shows "good st'"
  using assms hold_nodeport_good [OF assms(1,2)]
  by (auto simp: add_nodeport_def split: prod.splits bool.splits if_splits
      elim!: foldM_preserves [where I = good] intro: create_service_good)

end

context port_invariant
begin

lemma bind_cluster_ip_good: "good st \<Longrightarrow> bind_cluster_ip env p l i st = (b, st') \<Longrightarrow> good st'"
  using bind_Q [of "sy_ports st" "sy_w st" "si_ClusterIP i" l]
  by (auto simp: bind_cluster_ip_def Let_def split: if_splits prod.splits option.splits)

lemma sync_service_good:
  assumes "good st" and "p_portsMap p = ports" and "sync_service env p l entry st = Some st'"
  shows "good st'"
proof -
  obtain n i where e: "entry = (n, i)" by (cases entry)
  obtain b st1 where b: "bind_cluster_ip env p l i st = (b, st1)" by (cases "bind_cluster_ip env p l i st")
  from bind_cluster_ip_good [OF assms(1) b] have 1: "good st1" .
  show ?thesis
  proof (cases b)
    case True
    with assms(3) b e obtain st2 st3 where
      s: "sync_vip env p n (ipvs_service env (si_ClusterIP i) (si_Port i) i) st1 = Some st2"
        "foldM (sync_external env p n i) (si_ExternalIPs i) st2 = Some st3" "sync_nodeport env p n i st3 = Some st'"
      by (auto simp: sync_service_def bind_eq_Some_conv)
    from foldM_preserves [OF s(2), of good] sync_vip_good [OF 1 s(1)] sync_external_good [OF _ assms(2)]
    have "good st3" by blast
    then show ?thesis using s(3) by (rule sync_nodeport_good [OF _ assms(2)])
  qed (use assms(3) b e 1 in \<open>simp add: sync_service_def\<close>)
qed

lemma sync_whole_rules_good:
  assumes "good st" and "p_portsMap p = ports" and "sync_whole_rules env p l st = Some st'"
  shows "good st'"
proof -
  from assms(3) obtain st1 where s: "foldM (sync_service env p l) (p_serviceMap p) st = Some st1"
    "st' = st1\<lparr>sy_w := CheckUnusedRule (pe_ipvs env) (sy_active st1) (sy_bind st1) l (sy_w st1)\<rparr>"
    by (auto simp: sync_whole_rules_def split: option.splits)
  from foldM_preserves [OF s(1), of good] assms(1) sync_service_good [OF _ assms(2)] have "good st1" by blast
  then show ?thesis by (simp add: s(2) CheckUnusedRule_Q)
qed

lemma add_current_good:
  assumes "good st" and "p_portsMap p = ports" and "add_current env p l entry st = Some st'"
  shows "good st'"
proof -
  obtain n i where e: "entry = (n, i)" by (cases entry)
  obtain r w1 where b: "i_AddDummyClusterIp (pe_ipvs env) (si_ClusterIP i) l (sy_w st) = (r, w1)" by fastforce
  from bind_Q [OF assms(1), of "si_ClusterIP i" l] b have 1: "Q (sy_ports st) w1" by simp
  show ?thesis
  proof (cases r)
    case None
    with assms(3) b e obtain st2 st3 where
      s: "create_service env (ipvs_service env (si_ClusterIP i) (si_Port i) i)
          (st\<lparr>sy_w := w1, sy_bind := str_insert (IP_String (si_ClusterIP i)) (sy_bind st)\<rparr>) = Some st2"
        "foldM (add_external env p n i) (si_ExternalIPs i) st2 = Some st3" "add_nodeport env p n i st3 = Some st'"
      by (auto simp: add_current_def bind_eq_Some_conv)
    from foldM_preserves [OF s(2), of good] create_service_good [OF _ s(1)] 1 add_external_good [OF _ assms(2)]
    have "good st3" by fastforce
    then show ?thesis using s(3) by (rule add_nodeport_good [OF _ assms(2)])
  qed (use assms(3) b e 1 in \<open>auto simp: add_current_def\<close>)
qed

lemma delete_previous_Q: "Q r w \<Longrightarrow> Q r (delete_previous env p i w)"
proof -
  have d: "Q r (deleteIpvsService env ip port i w)" if "Q r w" for ip port w
    using that by (simp add: deleteIpvsService_def del_service_Q)
  then have "Q r (fold (\<lambda>x. deleteIpvsService env (f x) port i) xs w)" if "Q r w" for f port and xs :: "'b list" and w
    by (intro fold_invariant [where P = "Q r" and Q = "\<lambda>_. True"]) (use that in auto)
  note this [of _ "\<lambda>x. x"] this
  with d show "Q r w \<Longrightarrow> ?thesis"
    unfolding delete_previous_def Let_def
    by (auto intro!: fold_invariant [where P = "Q r" and Q = "\<lambda>_. True"])
qed

lemma sync_service_change_good:
  assumes "good st" and "p_portsMap p = ports" and "sync_service_change env p l ch st = Some st'"
  shows "good st'"
proof (rule foldM_preserves [where I = good, OF assms(3) [unfolded sync_service_change_def]])
  show "good (st\<lparr>sy_w := fold (\<lambda>(_, i). delete_previous env p i) (range_map (sc_Previous ch)) (sy_w st)\<rparr>)"
    using assms(1) delete_previous_Q
    by (auto intro!: fold_invariant [where P = "Q (sy_ports st)" and Q = "\<lambda>_. True"])
qed (rule add_current_good [OF _ assms(2)])

lemma sync_endpoints_change_Q: "Q r w \<Longrightarrow> Q r (sync_endpoints_change env p ch w)"
proof -
  have s: "Q r (syncEndpointChange env p ip port i n w)" if "Q r w" for ip port i n w
    using that by (simp add: syncEndpointChange_def Let_def CreateEndpointRule_Q)
  have "Q r (sync_endpoints_of env p n w)" if "Q r w" for n w
    unfolding sync_endpoints_of_def Let_def using that
    by (auto intro!: fold_invariant [where P = "Q r" and Q = "\<lambda>_. True"] s split: option.splits)
  then show "Q r w \<Longrightarrow> ?thesis"
    unfolding sync_endpoints_change_def Let_def
    by (auto intro!: fold_invariant [where P = "Q r" and Q = "\<lambda>_. True"] split: prod.splits)
qed

lemma sync_phases_good:
  assumes "Q [] w" and "p_portsMap p = ports" and "sync_phases env l p w = Some (q, st)"
  shows "good st"
proof -
  let ?st0 = "\<lparr>sy_w = w, sy_ports = [], sy_active = [], sy_bind = []\<rparr>"
  from assms(3) obtain st1 r where
    1: "(if p_serviceChanges p = [] \<and> ecm_Items (p_endpointsChanges p) = []
         then sync_whole_rules env p l ?st0 else Some ?st0) = Some st1"
    and 2: "(if p_serviceChanges p \<noteq> [] then Option.bind (foldM (\<lambda>(_, ch). sync_service_change env p l ch) (p_serviceChanges p) st1)
         (\<lambda>st. Some (p\<lparr>p_serviceChanges := []\<rparr>, st)) else Some (p, st1)) = Some r"
    and 3: "(case r of (p2, st2) \<Rightarrow> Some (if ecm_Items (p_endpointsChanges p2) \<noteq> []
         then (p2\<lparr>p_endpointsChanges := (p_endpointsChanges p2)\<lparr>ecm_Items := []\<rparr>\<rparr>,
           st2\<lparr>sy_w := fold (\<lambda>(_, ch). sync_endpoints_change env p2 ch) (ecm_Items (p_endpointsChanges p2)) (sy_w st2)\<rparr>)
         else (p2, st2))) = Some (q, st)"
    unfolding sync_phases_def Let_def bind_eq_Some_conv length_0_conv length_greater_0_conv
    by (elim exE conjE) (rule that)
  obtain p2 st2 where r: "r = (p2, st2)" by (cases r)
  from 1 sync_whole_rules_good [OF _ assms(2), of ?st0 l st1] assms(1) have "good st1" by (auto split: if_splits)
  with 2 r have "good st2"
    by (auto simp: bind_eq_Some_conv split: if_splits
        elim!: foldM_preserves [where I = good] intro: sync_service_change_good [OF _ assms(2)])
  with 3 r show ?thesis
    by (auto intro!: fold_invariant [where P = "Q (sy_ports st2)" and Q = "\<lambda>_. True"] sync_endpoints_change_Q split: if_splits)
qed

end

section \<open>The data of the proxier is well-formed\<close>

interpretation wfports: port_invariant env ports "\<lambda>r w. wf_gomap r" for env :: "'w penv" and ports
  by unfold_locales simp_all

lemma wf_UpdateMaps:
  assumes "wf_Proxier p"
  shows "wf_Proxier (p\<lparr>p_serviceMap := fst (UpdateServiceMap (p_serviceMap p) (p_serviceChanges p)),
    p_endpointsMap := fst (UpdateEndpointsMap (p_endpointsMap p) (ecm_Items (p_endpointsChanges p)))\<rparr>)"
  using assms UpdateServiceMap_typed UpdateEndpointsMap_typed by (simp add: wf_Proxier_def)

lemma wf_BuildMaps:
  assumes "wf_Proxier p"
  shows "wf_Proxier ((BuildClusterMap I l (BuildIpvsMap I p w) w)\<lparr>p_nodeIPs := ips\<rparr>)"
proof -
  have "p_hostname (BuildClusterMap I l (BuildIpvsMap I p w) w) = p_hostname p"
    by (simp add: BuildClusterMap_def BuildIpvsMap_def split: sum.splits)
  with assms BuildMaps_wf [of p I l w w] show ?thesis by (simp add: wf_Proxier_def BuildMaps_frame)
qed

lemma wf_synced:
  assumes "wf_Proxier p" and "wf_gomap ports"
  shows "wf_Proxier (p\<lparr>p_serviceChanges := [], p_endpointsChanges := (p_endpointsChanges p)\<lparr>ecm_Items := []\<rparr>,
    p_portsMap := ports\<rparr>)"
  using assms by (simp add: wf_Proxier_def)

lemma syncProxyRules_wf:
  assumes "wf_Proxier p" and "syncProxyRules env p w = Some (p', w')"
  shows "wf_Proxier p'"
proof (cases "p_endpointsSynced p \<and> p_servicesSynced p")
  case True
  let ?p1 = "p\<lparr>p_serviceMap := fst (UpdateServiceMap (p_serviceMap p) (p_serviceChanges p)),
    p_endpointsMap := fst (UpdateEndpointsMap (p_endpointsMap p) (ecm_Items (p_endpointsChanges p)))\<rparr>"
  note 1 = wf_UpdateMaps [OF assms(1)]
  from True assms(2) obtain r w1 where l: "i_GetDummyLink (pe_ipvs env) w = Some (r, w1)"
    by (auto simp: syncProxyRules_def Let_def split_beta split: option.splits)
  show ?thesis
  proof (cases r)
    case (Inl err)
    with True assms(2) l 1 show ?thesis by (simp add: syncProxyRules_def Let_def split_beta)
  next
    case (Inr link)
    let ?p3 = "(BuildClusterMap (pe_ipvs env) link (BuildIpvsMap (pe_ipvs env) ?p1 w1) w1)
      \<lparr>p_nodeIPs := (case pe_GetNodeIPs env (pe_ipvs env) w1 of Inl err \<Rightarrow> [] | Inr ips \<Rightarrow> ips)\<rparr>"
    from True assms(2) l Inr obtain p4 st where
      s: "sync_phases env link ?p3 w1 = Some (p4, st)" "p' = p4\<lparr>p_portsMap := sy_ports st\<rparr>"
      by (auto simp: syncProxyRules_def Let_def split_beta bind_eq_Some_conv finish_sync_fst
          dest!: arg_cong [where f = fst and y = "(p', w')"])
    from wfports.sync_phases_good [OF _ refl s(1)] have "wf_gomap (sy_ports st)" by simp
    with wf_synced [OF wf_BuildMaps [OF 1]] sync_phases_frame(1) [OF s(1)] s(2) show ?thesis by simp
  qed
qed (use assms in \<open>auto simp: syncProxyRules_def\<close>)

interpretation wfp: server_invariant env os "\<lambda>p w. wf_Proxier p" for env :: "'w penv" and os
proof
  fix p n old new and old' new' :: "api_Endpoints option"
  assume wf: "wf_Proxier p"
  then show "wf_Proxier (p\<lparr>p_serviceChanges := fst (ServiceChangeMap_Update (p_serviceChanges p) n old new)\<rparr>)"
    by (simp add: wf_Proxier_def service_changes_typed)
  have "ecm_Hostname (fst (EndpointsChangeMap_Update ecm n old' new')) = ecm_Hostname ecm" for ecm
    by (simp add: EndpointsChangeMap_Update_def split_beta Let_def)
  with wf show "wf_Proxier (p\<lparr>p_endpointsChanges := fst (EndpointsChangeMap_Update (p_endpointsChanges p) n old' new')\<rparr>)"
    by (simp add: wf_Proxier_def endpoints_changes_typed)
  from wf show "wf_Proxier (setInitialized (p_endpointsSynced p) (p\<lparr>p_servicesSynced := True\<rparr>))"
    by (simp add: wf_Proxier_def setInitialized_def)
  from wf show "wf_Proxier (p\<lparr>p_endpointsSynced := True\<rparr>)"
    by (simp add: wf_Proxier_def split: if_splits)
qed (auto intro: syncProxyRules_wf)

lemma NewProxier_wf: "NewProxier fs net nodes_Get sched config hostname nodeIP w0 = Some (Inr p, w) \<Longrightarrow> wf_Proxier p"
  by (auto simp: NewProxier_def Let_def wf_Proxier_def NewServiceChangeMap_def NewEndpointsChangeMap_def
      split: if_splits prod.splits option.splits sum.splits)

text \<open>
  (C3) In every state that the server reaches, whatever is announced and however the system answers, the data of the
  proxier is well-formed: every map has each key once, services have lower-case protocols, endpoints an address and a
  port, each pending change changes something, and the initialized flag is 0 or 1 and set only when both caches are synced.
\<close>

theorem server_state_well_formed:
  assumes "NewEnnProxyServerDefault client fs net execer nodes_Get rr config w0 = Some (Inr s, w)"
    and "server_reachable env os \<lparr>ss_proxier = es_Proxier s, ss_w = w1, ss_loop = l\<rparr> st"
  shows "wf_Proxier (ss_proxier st)"
proof -
  from NewEnnProxyServerDefault_proxier [OF assms(1)] have "wf_Proxier (es_Proxier s)"
    by (elim exE) (rule NewProxier_wf)
  with wfp.reachable_inv [OF assms(2)] show ?thesis by simp
qed

theorem server_state_well_formed_witness:
  "\<exists>s st. NewEnnProxyServerDefault (\<lambda>_. True) ex_proc ref_netio ex_loaded ex_node_Get ''rr'' (NewKubeEnnProxyConfig ''rr'')
      ex_stale_world = Some (Inr s, ex_stale_world) \<and>
    foldM (server_step ref_env ex_quiet_ipt) [Ev_Service (Added (ex_service 0)), Ev_Tick, Ev_EndpointsSynced]
      \<lparr>ss_proxier = es_Proxier s, ss_w = ex_stale_world, ss_loop = True\<rparr> = Some st \<and>
    wf_Proxier (ss_proxier st)"
proof -
  let ?es = "[Ev_Service (Added (ex_service 0)), Ev_Tick, Ev_EndpointsSynced]"
  obtain s where s: "NewEnnProxyServerDefault (\<lambda>_. True) ex_proc ref_netio ex_loaded ex_node_Get ''rr'' (NewKubeEnnProxyConfig ''rr'')
    ex_stale_world = Some (Inr s, ex_stale_world)" using ex_server by blast
  let ?s = "\<lparr>ss_proxier = es_Proxier s, ss_w = ex_stale_world, ss_loop = True\<rparr>"
  from NewEnnProxyServerDefault_proxier [OF s] obtain c n w1 where
    "NewProxier ex_proc ref_netio ex_node_Get ''rr'' c (es_NodeRef s) n w1 = Some (Inr (es_Proxier s), ex_stale_world)" by blast
  from NewProxier_starting [OF this, of "\<lambda>_. True" ex_stale_world True]
  have start: "starting (\<lambda>_. True) (es_Proxier s) False False Map.empty Map.empty ?s" by simp
  have "\<exists>st. foldM (server_step ref_env ex_quiet_ipt) ?es ?s = Some st"
    using starting_steps [OF start, of ex_quiet_ipt ?es ref_env] by (auto simp: ipt_keeps_def ex_quiet_ipt_def announces_def)
  then obtain st where r: "foldM (server_step ref_env ex_quiet_ipt) ?es ?s = Some st" by blast
  from server_state_well_formed [OF s server_reachable_run [OF r server_reachable.initial]] r s show ?thesis by blast
qed

section \<open>When a sync panics\<close>

text \<open>Only two calls of a sync panic: listing the virtual services before one is added, and making the dummy link.\<close>

lemma foldM_total: "(\<And>x s. \<exists>s'. f x s = Some s') \<Longrightarrow> \<exists>s'. foldM f xs s = Some s'"
  using foldM_inv [of xs "\<lambda>_. True" f s] by simp

definition add_total :: "'w penv \<Rightarrow> bool" where
  "add_total env \<longleftrightarrow> (\<forall>s w. i_AddIpvsService (pe_ipvs env) s w \<noteq> None)"

lemma vip_total:
  assumes "add_total env"
  shows "\<exists>st'. sync_vip env p n s st = Some st'" and "\<exists>st'. create_service env s st = Some st'"
proof -
  have c: "\<exists>e w'. CreateServiceRule (pe_ipvs env) b s w = Some (e, w')" for b w
    using assms by (auto simp: add_total_def CreateServiceRule_def)
  then show "\<exists>st'. create_service env s st = Some st'" by (force simp: create_service_def split: option.splits)
  let ?b = "gm_has (p_kernelIpvsMap p) \<lparr>ak_ip = IP_String (s_ClusterIP s), ak_port = s_Port s, ak_protocol = s_Protocol s\<rparr>"
  obtain e w' where "CreateServiceRule (pe_ipvs env) ?b s (sy_w st) = Some (e, w')" using c by blast
  then show "\<exists>st'. sync_vip env p n s st = Some st'" by (cases e) (auto simp: sync_vip_def Let_def)
qed

lemma service_total:
  assumes "add_total env"
  shows "\<exists>st'. sync_service env p l entry st = Some st'" and "\<exists>st'. sync_service_change env p l ch st = Some st'"
proof -
  note v = vip_total [OF assms]
  have e: "\<exists>st'. sync_external env p n i ip st = Some st'" "\<exists>st'. add_external env p n i ip st = Some st'" for n i ip st
    using v by (auto simp: sync_external_def add_external_def split: prod.splits bool.splits)
  have n: "\<exists>st'. sync_nodeport env p n i st = Some st'" "\<exists>st'. add_nodeport env p n i st = Some st'" for n i st
    by (auto simp: sync_nodeport_def add_nodeport_def intro!: foldM_total v split: prod.splits bool.splits)
  have b: "\<exists>s'. Option.bind a (\<lambda>x. Option.bind (foldM f xs x) g) = Some s'"
    if a: "\<exists>s. a = Some s" and f: "\<And>y s. \<exists>s'. f y s = Some s'" and g: "\<And>x. \<exists>s'. g x = Some s'"
    for a :: "'s option" and f :: "'x \<Rightarrow> 's \<Rightarrow> 's option" and xs and g :: "'s \<Rightarrow> 's option"
  proof -
    obtain s where "a = Some s" using a by blast
    moreover have "\<exists>s'. foldM f xs s = Some s'" using f by (rule foldM_total)
    ultimately show ?thesis using g by auto
  qed
  show "\<exists>st'. sync_service env p l entry st = Some st'"
    by (auto simp: sync_service_def b [OF v(1) e(1) n(1)] split: prod.splits bool.splits)
  have "\<exists>st'. add_current env p l x st = Some st'" for x st
    by (auto simp: add_current_def b [OF v(2) e(2) n(2)] split: prod.splits option.splits)
  then show "\<exists>st'. sync_service_change env p l ch st = Some st'" unfolding sync_service_change_def by (rule foldM_total)
qed

lemma sync_total:
  assumes "add_total env" and "i_GetDummyLink (pe_ipvs env) w \<noteq> None"
  shows "\<exists>p' w'. syncProxyRules env p w = Some (p', w')"
proof -
  note s = service_total [OF assms(1)]
  have whole: "\<exists>st'. sync_whole_rules env q l st = Some st'" for q l st
  proof -
    have "\<exists>st'. foldM (sync_service env q l) (p_serviceMap q) st = Some st'" by (rule foldM_total [OF s(1)])
    then show ?thesis by (auto simp: sync_whole_rules_def)
  qed
  have changes: "\<exists>st'. foldM (\<lambda>(_, ch). sync_service_change env q l ch) items st = Some st'" for q l items st
    by (rule foldM_total) (auto simp: s(2))
  have phases: "\<exists>r st. sync_phases env l q w = Some (r, st)" for l q w
  proof -
    let ?st0 = "\<lparr>sy_w = w, sy_ports = [], sy_active = [], sy_bind = []\<rparr>"
    obtain st1 where "(if length (p_serviceChanges q) = 0 \<and> length (ecm_Items (p_endpointsChanges q)) = 0
        then sync_whole_rules env q l ?st0 else Some ?st0) = Some st1" using whole by fastforce
    moreover obtain st2 where "foldM (\<lambda>(_, ch). sync_service_change env q l ch) (p_serviceChanges q) st1 = Some st2"
      using changes by blast
    ultimately show ?thesis by (simp add: sync_phases_def Let_def)
  qed
  have "\<exists>p' w'. Option.bind (sync_phases env l q w) (\<lambda>(p4, st). Some (f p4 st)) = Some (p', w')"
    for l q w and f :: "Proxier \<Rightarrow> 'a sync_state \<Rightarrow> Proxier \<times> 'a"
  proof -
    obtain r st where "sync_phases env l q w = Some (r, st)" using phases by blast
    then show ?thesis by (cases "f r st") simp
  qed
  then show ?thesis
    using assms(2) by (auto simp: syncProxyRules_def Let_def split: sum.splits prod.splits)
qed

lemma server_run_total:
  assumes "\<And>w. \<exists>svcs. h_GetServices h w = Inr svcs"
    and "\<And>w. nl_LinkByName h ENN_DUMMY w = Inl IFACE_NOT_FOUND \<Longrightarrow> fst (nl_LinkAdd h ENN_DUMMY w) = None"
    and "ipt_keeps os (\<lambda>_. True)"
  shows "\<exists>st. server_until_signal (NewProxier_env h net execer recorder rr) os es s w = Some st"
proof -
  let ?env = "NewProxier_env h net execer recorder rr"
  have "AddIpvsService h svc w \<noteq> None" for svc w
    using assms(1) [of w] by (auto simp: AddIpvsService_def split: sum.splits prod.splits option.splits)
  then have add: "add_total ?env" by (auto simp: add_total_def NewProxier_env_def EnnIpvs_def)
  have "GetDummyLink h w \<noteq> None" for w
    using assms(2) [of w] by (auto simp: GetDummyLink_def AddDummyLink_def split: sum.splits prod.splits option.splits)
  then have sync: "\<exists>p' w'. syncProxyRules ?env p w = Some (p', w')" for p w
    using sync_total [OF add] by (simp add: NewProxier_env_def EnnIpvs_def)
  have masq: "\<exists>err w'. EnsureIPtablesMASQ os p w = Some (err, w')" for p w
    using Ensure_keeps [OF assms(3)] by simp
  have step: "\<exists>s'. server_step ?env os ev s = Some s'" for ev and s :: "'a server_state"
  proof (cases ev)
    case (Ev_Service n)
    obtain name old new where "notif_event service_nsn n = (name, old, new)" by (metis prod_cases3)
    with Ev_Service sync show ?thesis by (auto simp: notify_service_event service_event_def split_beta Let_def)
  next
    case (Ev_Endpoints n)
    obtain name old new where "notif_event endpoints_nsn n = (name, old, new)" by (metis prod_cases3)
    with Ev_Endpoints sync show ?thesis by (auto simp: notify_endpoints_event endpoints_event_def split_beta Let_def)
  next
    case Ev_Tick
    obtain err w' where "EnsureIPtablesMASQ os (ss_proxier s) (ss_w s) = Some (err, w')" using masq by blast
    with Ev_Tick sync show ?thesis by (auto simp: Sync_def)
  qed (use sync in \<open>simp_all add: ServiceConfig_Run_proxier EndpointsConfig_Run_proxier OnServiceSynced_def OnEndpointsSynced_def\<close>)
  obtain err w1 where "EnsureIPtablesMASQ os (es_Proxier s) (birthCry ?env w) = Some (err, w1)" using masq by blast
  with foldM_total [OF step] show ?thesis by (simp add: server_until_signal_def)
qed

text \<open>
  (C4) The server does not panic as long as the virtual services can be listed, a missing dummy link can be added and
  iptables can be started.  Everything else may fail at any time: reading and writing rules, binding addresses, opening ports,
  connection tracking, the masquerade rules.  For every sequence of events the run goes on.
\<close>

theorem server_never_panics:
  assumes "\<And>w. \<exists>svcs. h_GetServices h w = Inr svcs"
    and "\<And>w. nl_LinkByName h ENN_DUMMY w = Inl IFACE_NOT_FOUND \<Longrightarrow> fst (nl_LinkAdd h ENN_DUMMY w) = None"
    and "ipt_keeps os (\<lambda>_. True)"
  shows "\<exists>st. server_until_signal (NewProxier_env h net execer recorder rr) os es s w = Some st"
  using assms by (rule server_run_total)

text \<open>No port can be opened on this node.\<close>

definition ex_no_ports :: "kworld netio" where
  "ex_no_ports = ref_netio\<lparr>n_Listen := (\<lambda>_ w. (Inl ''bind: permission denied'', w)),
     n_ListenUDP := (\<lambda>_ w. (Inl ''bind: permission denied'', w))\<rparr>"

theorem server_never_panics_witness:
  "\<exists>s st. NewEnnProxyServerDefault (\<lambda>_. True) ex_proc ex_no_ports ex_loaded ex_node_Get ''rr'' (NewKubeEnnProxyConfig ''rr'')
      ex_stale_world = Some (Inr s, ex_stale_world) \<and>
    server_until_signal (NewProxier_env ref_libnet ex_no_ports ex_loaded ref_recorder ''rr'') ex_quiet_ipt
      [Ev_Service (Added (ex_service 30080)), Ev_EndpointsSynced, Ev_ServicesSynced, Ev_Tick, Ev_Tick] s ex_stale_world = Some st"
proof -
  obtain s where "NewEnnProxyServerDefault (\<lambda>_. True) ex_proc ex_no_ports ex_loaded ex_node_Get ''rr'' (NewKubeEnnProxyConfig ''rr'')
    ex_stale_world = Some (Inr s, ex_stale_world)"
    using ex_server_on [of ex_no_ports ex_stale_world] by (auto simp: ex_no_ports_def ref_netio_def)
  moreover have "\<exists>st. server_until_signal (NewProxier_env ref_libnet ex_no_ports ex_loaded ref_recorder ''rr'') ex_quiet_ipt
      [Ev_Service (Added (ex_service 30080)), Ev_EndpointsSynced, Ev_ServicesSynced, Ev_Tick, Ev_Tick] s ex_stale_world = Some st"
    by (rule server_never_panics) (auto simp: ref_libnet_def ipt_keeps_def ex_quiet_ipt_def split: if_splits)
  ultimately show ?thesis by blast
qed

end
