(* ===== verification/Port_Ledger.thy ===== *)
theory Port_Ledger
  imports Server_Invariant
begin

text \<open>
  The sockets that hold local ports open (src/pkg/proxy/util/ports.go and the ports map of
  src/pkg/proxy/ipvs/proxier.go).  In every state that the server reaches, the open sockets are exactly those of the ports
  map, besides the ones that were open before: none is leaked, and none is closed that is still held.
\<close>

section \<open>Ports and sockets\<close>

text \<open>
  \<open>socks\<close> is the table of open sockets with the addresses they are bound to.  During a sync the sockets of the old map
  \<open>held\<close> and of the new map \<open>new\<close> are open; a port in both maps has one socket.
\<close>

definition ledger ::
  "('w \<Rightarrow> socket \<rightharpoonup> 'a) \<Rightarrow> (LocalPort \<Rightarrow> 'a) \<Rightarrow> socket set \<Rightarrow> PortsMap \<Rightarrow> PortsMap \<Rightarrow> 'w \<Rightarrow> bool" where
  "ledger socks addr foreign held new w \<longleftrightarrow> wf_gomap held \<and> wf_gomap new \<and>
     (let M = map_of held ++ map_of new in map_of held \<subseteq>\<^sub>m M \<and> inj_on M (dom M) \<and>
      ran M \<inter> foreign = {} \<and> dom (socks w) = foreign \<union> ran M \<and> (\<forall>lp s. M lp = Some s \<longrightarrow> socks w s = Some (addr lp)))"

lemma inj_on_map_upd: "inj_on M (dom M) \<Longrightarrow> c \<notin> ran M \<Longrightarrow> inj_on (M(k \<mapsto> c)) (dom (M(k \<mapsto> c)))"
  by (auto simp: inj_on_def ran_def dom_def)

lemma ledger_socks: "socks w' = socks w \<Longrightarrow> ledger socks addr foreign held new w \<Longrightarrow> ledger socks addr foreign held new w'"
  by (simp add: ledger_def)

locale socket_env =
  fixes env :: "'w penv" and socks :: "'w \<Rightarrow> socket \<rightharpoonup> 'a" and addr :: "LocalPort \<Rightarrow> 'a"
  assumes opens: "pe_OpenLocalPort env lp w = (Inr c, w') \<Longrightarrow>
      socks w c = None \<and> addr lp \<notin> ran (socks w) \<and> socks w' = (socks w)(c \<mapsto> addr lp)"
    and refuses: "pe_OpenLocalPort env lp w = (Inl err, w') \<Longrightarrow> socks w' = socks w"
    and closes: "socks (pe_Close env c w) = (socks w)(c := None)"
    and add_service_socks: "i_AddIpvsService (pe_ipvs env) s w = Some (e, w') \<Longrightarrow> socks w' = socks w"
    and del_service_socks: "socks (snd (i_DeleteIpvsService (pe_ipvs env) s w)) = socks w"
    and add_server_socks: "socks (snd (i_AddIpvsServer (pe_ipvs env) s d w)) = socks w"
    and del_server_socks: "socks (snd (i_DeleteIpvsServer (pe_ipvs env) s d w)) = socks w"
    and dummy_link_socks: "i_GetDummyLink (pe_ipvs env) w = Some (l, w') \<Longrightarrow> socks w' = socks w"
    and bind_socks: "socks (snd (i_AddDummyClusterIp (pe_ipvs env) ip link w)) = socks w"
    and unbind_socks: "socks (snd (i_DeleteDummyClusterIp (pe_ipvs env) ip link w)) = socks w"
    and exec_socks: "socks (snd (x_CombinedOutput (pe_exec env) path args w)) = socks w"
    and event_socks: "socks (pe_Eventf env reason text w) = socks w"
begin

lemma held_ledger:
  assumes "ledger socks addr foreign held new w" and "gm_get held lp = Some c"
  shows "ledger socks addr foreign held (gm_put new lp c) w"
proof -
  from assms have "(map_of held ++ map_of new) lp = Some c" by (force simp: ledger_def Let_def map_le_def)
  then have "map_of held ++ map_of (gm_put new lp c) = map_of held ++ map_of new" by (auto simp: fun_eq_iff map_add_def)
  with assms show ?thesis by (simp add: ledger_def)
qed

lemma opened_ledger:
  assumes "ledger socks addr foreign held new w" and "gm_get held lp = None" and "pe_OpenLocalPort env lp w = (Inr c, w')"
  shows "ledger socks addr foreign held (gm_put new lp c) w'"
proof -
  let ?M = "map_of held ++ map_of new"
  have o: "socks w c = None" "addr lp \<notin> ran (socks w)" "socks w' = (socks w)(c \<mapsto> addr lp)" using opens [OF assms(3)] by auto
  from assms(1) have l: "map_of held \<subseteq>\<^sub>m ?M" "inj_on ?M (dom ?M)" "ran ?M \<inter> foreign = {}" "dom (socks w) = foreign \<union> ran ?M"
    "\<And>lp s. ?M lp = Some s \<Longrightarrow> socks w s = Some (addr lp)" by (simp_all add: ledger_def Let_def)
  have c: "c \<notin> foreign" "c \<notin> ran ?M" using l(4) o(1) by auto
  have m: "?M lp = None" using l(5) [of lp] o(2) by (cases "?M lp") (auto simp: ran_def)
  have upd: "map_of held ++ map_of (gm_put new lp c) = ?M(lp \<mapsto> c)" by simp
  have "inj_on (?M(lp \<mapsto> c)) (dom (?M(lp \<mapsto> c)))" using l(2) c(2) by (rule inj_on_map_upd)
  moreover have "map_of held \<subseteq>\<^sub>m ?M(lp \<mapsto> c)" using l(1) assms(2) by (auto simp: map_le_def dom_def)
  moreover have "ran (?M(lp \<mapsto> c)) = insert c (ran ?M)" using m by simp
  moreover have "socks w' s = Some (addr lp')" if "(?M(lp \<mapsto> c)) lp' = Some s" for lp' s
  proof (cases "lp' = lp")
    case False
    with that have m': "?M lp' = Some s" by simp
    with c(2) have "s \<noteq> c" using ranI by metis
    with l(5) [OF m'] o(3) show ?thesis by simp
  qed (use that o(3) in simp)
  ultimately show ?thesis
    using assms(1) l(3,4) c(1) o(3) unfolding ledger_def Let_def upd by auto
qed

end

sublocale socket_env \<subseteq> led: port_invariant env held "ledger socks addr foreign held" for foreign held
proof
  fix r w lp c w' err
  show "ledger socks addr foreign held (gm_put r lp c) w" if "ledger socks addr foreign held r w" "gm_get held lp = Some c"
    using that by (rule held_ledger)
  show "ledger socks addr foreign held (gm_put r lp c) w'"
    if "ledger socks addr foreign held r w" "gm_get held lp = None" "pe_OpenLocalPort env lp w = (Inr c, w')"
    using that by (rule opened_ledger)
qed (auto elim!: ledger_socks [rotated]
    simp: add_service_socks refuses del_service_socks add_server_socks del_server_socks bind_socks unbind_socks exec_socks event_socks)

section \<open>A sync keeps the ledger\<close>

context socket_env
begin

lemma close_ports_socks:
  "socks (close_ports env new held w) = (socks w) |` (- {c. \<exists>k. (k, c) \<in> set held \<and> gm_get new k = None})"
proof -
  have "socks (fold (\<lambda>(k, v) w. if gm_has new k then w else pe_Close env v w) held w) s =
      (if \<exists>k. (k, s) \<in> set held \<and> gm_get new k = None then None else socks w s)" for s
  proof (induction held arbitrary: w)
    case (Cons x held)
    obtain k v where "x = (k, v)" by (cases x)
    with Cons show ?case by (cases "gm_get new k") (auto simp: closes)
  qed simp
  then show ?thesis by (auto simp: close_ports_def fun_eq_iff restrict_map_def)
qed

lemma close_ports_ledger:
  assumes "ledger socks addr foreign held new w"
  shows "ledger socks addr foreign new [] (close_ports env new held w)"
proof -
  let ?M = "map_of held ++ map_of new" and ?C = "{c. \<exists>k. (k, c) \<in> set held \<and> gm_get new k = None}"
  from assms have l: "wf_gomap held" "wf_gomap new" "map_of held \<subseteq>\<^sub>m ?M" "inj_on ?M (dom ?M)" "ran ?M \<inter> foreign = {}"
    "dom (socks w) = foreign \<union> ran ?M" "\<And>lp s. ?M lp = Some s \<Longrightarrow> socks w s = Some (addr lp)"
    by (simp_all add: ledger_def Let_def)
  have C: "c \<in> ?C \<longleftrightarrow> (\<exists>k. ?M k = Some c \<and> gm_get new k = None)" for c
    using l(1) by (auto simp: wf_gomap_mem map_add_Some_iff)
  have new: "?M k = Some c" if "gm_get new k = Some c" for k c using that by simp
  have inj: "k = k'" if "?M k = Some c" "?M k' = Some c" for k k' c using l(4) that unfolding inj_on_def by (metis domI)
  have kept: "c \<notin> ?C" if "gm_get new k = Some c" for k c
    unfolding C using inj [OF new [OF that]] that by (metis option.distinct(1))
  have ran: "ran ?M - ?C = ran (map_of new)"
  proof
    show "ran (map_of new) \<subseteq> ran ?M - ?C"
    proof
      fix c assume "c \<in> ran (map_of new)"
      then obtain k where "gm_get new k = Some c" by (auto simp: ran_def)
      with new kept show "c \<in> ran ?M - ?C" using ranI [of ?M k c] by blast
    qed
    show "ran ?M - ?C \<subseteq> ran (map_of new)"       using l(1) by (auto simp: ran_def map_add_Some_iff wf_gomap_mem)
  qed
  have "dom (socks (close_ports env new held w)) = foreign \<union> ran ?M - ?C" by (auto simp: close_ports_socks l(6))
  also have "?C \<subseteq> ran ?M" by (rule subsetI, unfold C) (elim exE conjE, rule ranI)
  then have "foreign \<union> ran ?M - ?C = foreign \<union> ran (map_of new)" using ran l(5) by blast
  finally have d: "dom (socks (close_ports env new held w)) = foreign \<union> ran (map_of new)" .
  have "inj_on (map_of new) (dom (map_of new))"
    using inj new by (auto intro!: inj_onI)
  moreover have "ran (map_of new) \<inter> foreign = {}" using l(5) ran by blast
  moreover have "socks (close_ports env new held w) s = Some (addr lp)" if "gm_get new lp = Some s" for lp s
    using l(7) [OF new [OF that]] kept [OF that] by (simp add: close_ports_socks restrict_map_def)
  ultimately show ?thesis using l(2) d by (simp add: ledger_def)
qed

lemma finish_sync_ledger:
  assumes "ledger socks addr foreign (p_portsMap p) (sy_ports st) (sy_w st)" and "finish_sync env stale eps p st = (p', w')"
  shows "ledger socks addr foreign (p_portsMap p') [] w'"
proof -
  let ?L = "ledger socks addr foreign (sy_ports st) []" and ?p = "p\<lparr>p_portsMap := sy_ports st\<rparr>"

  have "?L (fold (\<lambda>ip w. snd (ClearUDPConntrackForIP (pe_exec env) ip w)) stale
      (close_ports env (sy_ports st) (p_portsMap p) (sy_w st)))"
    by (intro fold_invariant [where P = ?L and Q = "\<lambda>_. True"] close_ports_ledger assms(1) led.clear_conntrack_Q) auto
  then have "?L (deleteEndpointConnections env ?p eps
      (fold (\<lambda>ip w. snd (ClearUDPConntrackForIP (pe_exec env) ip w)) stale
        (close_ports env (sy_ports st) (p_portsMap p) (sy_w st))))"
    unfolding deleteEndpointConnections_def
    by (elim fold_invariant [where P = ?L and Q = "\<lambda>_. True", rotated]) (auto intro: led.clear_conntrack_Q split: option.splits)
  then show ?thesis using assms(2) by (auto simp: finish_sync_def Let_def)
qed

lemma sync_ledger:
  assumes "ledger socks addr foreign (p_portsMap p) [] w" and "syncProxyRules env p w = Some (p', w')"
  shows "ledger socks addr foreign (p_portsMap p') [] w'"
proof (cases "p_endpointsSynced p \<and> p_servicesSynced p")
  case True
  from True assms(2) obtain r w1 where l: "i_GetDummyLink (pe_ipvs env) w = Some (r, w1)"
    by (auto simp: syncProxyRules_def Let_def split_beta split: option.splits)
  have 1: "ledger socks addr foreign (p_portsMap p) [] w1" using dummy_link_socks [OF l] assms(1) by (rule ledger_socks)
  show ?thesis
  proof (cases r)
    case (Inl err)
    with True assms(2) l 1 show ?thesis by (auto simp: syncProxyRules_def Let_def split_beta)
  next
    case (Inr link)
    from True assms(2) l Inr obtain p3 p4 st stale eps where
      s: "sync_phases env link p3 w1 = Some (p4, st)" "finish_sync env stale eps p4 st = (p', w')" "p_portsMap p3 = p_portsMap p"
      by (auto simp: syncProxyRules_def Let_def split_beta bind_eq_Some_conv BuildMaps_frame)
    have "ledger socks addr foreign (p_portsMap p) (sy_ports st) (sy_w st)"
      using led.sync_phases_good [OF 1 s(3,1)] .
    moreover have "p_portsMap p4 = p_portsMap p" using sync_phases_frame(1) [OF s(1)] s(3) by simp
    ultimately show ?thesis using finish_sync_ledger [OF _ s(2)] by simp
  qed
qed (use assms in \<open>auto simp: syncProxyRules_def\<close>)

end

section \<open>The operating system\<close>

text \<open>
  What the packages net, netlink, exec and the event recorder document.  A listening socket is new, its address was free,
  and only closing it frees the address; nothing else opens or closes these sockets.  The UDP address is that of a
  literal IP and port, which resolves the same way at any time.
\<close>

definition port_address :: "(string \<Rightarrow> string) \<Rightarrow> LocalPort \<Rightarrow> string \<times> string" where
  "port_address resolve lp = (let addr = JoinHostPort (lp_Ip lp) (Itoa (lp_Port lp)) in
     if lp_Protocol lp = ''tcp'' then (''tcp'', addr) else (''udp'', resolve addr))"

locale socket_os =
  fixes h :: "'w libnet" and net :: "'w netio" and execer :: "'w execer" and recorder :: "string \<Rightarrow> string \<Rightarrow> 'w \<Rightarrow> 'w"
    and os :: "'w ipt_os" and socks :: "'w \<Rightarrow> socket \<rightharpoonup> string \<times> string" and resolve :: "string \<Rightarrow> string"
  assumes listen: "n_Listen net a w = (Inr c, w') \<Longrightarrow>
      socks w c = None \<and> (''tcp'', a) \<notin> ran (socks w) \<and> socks w' = (socks w)(c \<mapsto> (''tcp'', a))"
    and listen_error: "n_Listen net a w = (Inl e, w') \<Longrightarrow> socks w' = socks w"
    and listenUDP: "n_ListenUDP net a w = (Inr c, w') \<Longrightarrow>
      socks w c = None \<and> (''udp'', a) \<notin> ran (socks w) \<and> socks w' = (socks w)(c \<mapsto> (''udp'', a))"
    and listenUDP_error: "n_ListenUDP net a w = (Inl e, w') \<Longrightarrow> socks w' = socks w"
    and resolves: "n_ResolveUDPAddr net a w = Inr u \<Longrightarrow> u = resolve a"
    and net_closes: "socks (n_Close net c w) = (socks w)(c := None)"
    and NewService_socks: "socks (snd (h_NewService h s w)) = socks w"
    and DelService_socks: "socks (snd (h_DelService h s w)) = socks w"
    and NewDestination_socks: "socks (snd (h_NewDestination h s d w)) = socks w"
    and DelDestination_socks: "socks (snd (h_DelDestination h s d w)) = socks w"
    and LinkAdd_socks: "socks (snd (nl_LinkAdd h name w)) = socks w"
    and LinkSetUp_socks: "socks (snd (nl_LinkSetUp h link w)) = socks w"
    and AddrAdd_socks: "socks (snd (nl_AddrAdd h link ip w)) = socks w"
    and AddrDel_socks: "socks (snd (nl_AddrDel h link ip w)) = socks w"
    and execer_socks: "socks (snd (x_CombinedOutput execer path args w)) = socks w"
    and recorder_socks: "socks (recorder reason text w) = socks w"
    and iptables_socks: "ipt_keeps os (\<lambda>w. socks w = S)"

context socket_os
begin

lemma kept_world: "r = (e, w') \<Longrightarrow> socks (snd r) = socks w \<Longrightarrow> socks w' = socks w"
  by simp

lemmas keeps = kept_world [OF _ NewService_socks] kept_world [OF _ DelService_socks] kept_world [OF _ NewDestination_socks]
  kept_world [OF _ DelDestination_socks] kept_world [OF _ LinkAdd_socks] kept_world [OF _ AddrAdd_socks]

end

sublocale socket_os \<subseteq> penv: socket_env "NewProxier_env h net execer recorder rr" socks "port_address resolve" for rr
proof
  let ?env = "NewProxier_env h net execer recorder rr"

  fix w w' lp c
  show "socks w c = None \<and> port_address resolve lp \<notin> ran (socks w) \<and> socks w' = (socks w)(c \<mapsto> port_address resolve lp)"
    if "pe_OpenLocalPort ?env lp w = (Inr c, w')"
    using that listen listenUDP resolves
    by (auto simp: NewProxier_env_def openLocalPort_def port_address_def Let_def split: if_splits sum.splits)
  show "socks w' = socks w" if "pe_OpenLocalPort ?env lp w = (Inl err, w')" for err
    using that listen_error listenUDP_error
    by (auto simp: NewProxier_env_def openLocalPort_def Let_def split: if_splits sum.splits)
  show "socks w' = socks w" if "i_AddIpvsService (pe_ipvs ?env) s w = Some (e, w')" for s e
    using that
    by (auto simp: NewProxier_env_def EnnIpvs_def AddIpvsService_def intro: keeps
        split: sum.splits if_splits prod.splits option.splits)
  show "socks w' = socks w" if "i_GetDummyLink (pe_ipvs ?env) w = Some (l, w')" for l
    using that
    by (auto simp: NewProxier_env_def EnnIpvs_def GetDummyLink_def AddDummyLink_def intro: keeps
        split: sum.splits if_splits prod.splits option.splits)
qed (auto intro: keeps simp: NewProxier_env_def EnnIpvs_def DeleteIpvsService_def AddIpvsServer_def DeleteIpvsServer_def
    AddDummyClusterIp_def DeleteDummyClusterIp_def net_closes recorder_socks execer_socks AddrDel_socks
    split: sum.splits prod.splits option.splits)

sublocale socket_os \<subseteq> srv: server_invariant "NewProxier_env h net execer recorder rr" os
  "\<lambda>p w. ledger socks (port_address resolve) foreign (p_portsMap p) [] w" for rr foreign
proof
  let ?env = "NewProxier_env h net execer recorder rr" and ?L = "ledger socks (port_address resolve) foreign"
  fix p w p' w' err
  show "?L (p_portsMap p') [] w'" if "?L (p_portsMap p) [] w" "syncProxyRules ?env p w = Some (p', w')"
    using that by (rule penv.sync_ledger)
  show "?L (p_portsMap p) [] w'" if "?L (p_portsMap p) [] w" "EnsureIPtablesMASQ os p w = Some (err, w')"
  proof (rule ledger_socks [OF _ that(1)])
    from Ensure_keeps [OF iptables_socks refl, of p w] that(2) show "socks w' = socks w" by simp
  qed
qed (simp_all add: setInitialized_def)

context socket_os
begin

lemma run_ledger:
  assumes "env = NewProxier_env h net execer recorder rr" and "p_portsMap p = []"
    and "EnsureIPtablesMASQ os p (birthCry env w) = Some (err, w1)"
    and "server_reachable env os \<lparr>ss_proxier = p, ss_w = w1, ss_loop = l\<rparr> st"
  shows "ledger socks (port_address resolve) (dom (socks w)) (p_portsMap (ss_proxier st)) [] (ss_w st)"
proof -
  have "ledger socks (port_address resolve) (dom (socks w)) (p_portsMap p) [] (birthCry env w)"
    using recorder_socks by (simp add: ledger_def birthCry_def assms(1,2) NewProxier_env_def)
  from srv.masq_inv [OF this assms(3)] srv.reachable_inv [OF assms(4) [unfolded assms(1)]] show ?thesis by simp
qed

end

lemma NewProxier_ports: "NewProxier fs net nodes_Get sched config hostname nodeIP w0 = Some (Inr p, w) \<Longrightarrow> p_portsMap p = []"
  by (auto simp: NewProxier_def Let_def split: if_splits prod.splits option.splits sum.splits)

text \<open>
  (C2) The server holds exactly the sockets of its ports map.  \<open>w\<close> is the world in which the server was
  created; whatever is announced, and whichever calls fail, the sockets that are open in a reachable state are those
  of \<open>w\<close> and, besides them, exactly those of the ports map, one per local port and bound to its address.
\<close>

theorem server_sockets_exact:
  assumes "socket_os h net execer recorder os socks resolve"
    and "NewEnnProxyServerDefault client fs net execer nodes_Get rr config w0 = Some (Inr s, w)"
    and "env = NewProxier_env h net execer recorder rr"
    and "EnsureIPtablesMASQ os (es_Proxier s) (birthCry env w) = Some (err, w1)"
    and "server_reachable env os \<lparr>ss_proxier = es_Proxier s, ss_w = w1, ss_loop = l\<rparr> st"
    and "ports = map_of (p_portsMap (ss_proxier st))"
  shows "dom (socks (ss_w st)) = dom (socks w) \<union> ran ports \<and> ran ports \<inter> dom (socks w) = {} \<and> inj_on ports (dom ports) \<and>
    (\<forall>lp c. ports lp = Some c \<longrightarrow> socks (ss_w st) c = Some (port_address resolve lp))"
proof -
  from NewEnnProxyServerDefault_proxier [OF assms(2)] have "p_portsMap (es_Proxier s) = []"
    by (elim exE) (rule NewProxier_ports)
  from socket_os.run_ledger [OF assms(1,3) this assms(4,5)] show ?thesis by (simp add: ledger_def Let_def assms(6))
qed

section \<open>A system with a socket table\<close>

text \<open>Any IPVS kernel beside a table of sockets.\<close>

type_synonym socket_table = "(socket, string \<times> string) gomap"

definition beside :: "('a \<Rightarrow> 'e \<times> 'a) \<Rightarrow> 'a \<times> 't \<Rightarrow> 'e \<times> 'a \<times> 't" where
  "beside f w = (let (e, a) = f (fst w) in (e, a, snd w))"

lemma beside_snd [simp]: "snd (snd (beside f w)) = snd w"
  by (simp add: beside_def split_beta Let_def)

definition with_sockets :: "'a libnet \<Rightarrow> ('a \<times> socket_table) libnet" where
  "with_sockets h = \<lparr>h_GetService = (\<lambda>s w. h_GetService h s (fst w)), h_GetServices = (\<lambda>w. h_GetServices h (fst w)),
     h_GetDestinations = (\<lambda>s w. h_GetDestinations h s (fst w)), h_NewService = (\<lambda>s. beside (h_NewService h s)),
     h_DelService = (\<lambda>s. beside (h_DelService h s)), h_NewDestination = (\<lambda>s d. beside (h_NewDestination h s d)),
     h_DelDestination = (\<lambda>s d. beside (h_DelDestination h s d)), nl_LinkByName = (\<lambda>n w. nl_LinkByName h n (fst w)),
     nl_LinkAdd = (\<lambda>n. beside (nl_LinkAdd h n)), nl_LinkSetUp = (\<lambda>l. beside (nl_LinkSetUp h l)),
     nl_LinkDel = (\<lambda>l. beside (nl_LinkDel h l)), nl_AddrAdd = (\<lambda>l ip. beside (nl_AddrAdd h l ip)),
     nl_AddrDel = (\<lambda>l ip. beside (nl_AddrDel h l ip)), nl_AddrList = (\<lambda>l f w. nl_AddrList h l f (fst w)),
     nl_RouteListFiltered = (\<lambda>f r m w. nl_RouteListFiltered h f r m (fst w))\<rparr>"

definition table_listen :: "string \<Rightarrow> string \<Rightarrow> 'a \<times> socket_table \<Rightarrow> (go_error + socket) \<times> 'a \<times> socket_table" where
  "table_listen network a w = (let t = snd w; c = Suc (fold max (map fst t) 0) in
     if (network, a) \<in> snd ` set t then (Inl ''bind: address already in use'', w)
     else (Inr c, fst w, gm_put t c (network, a)))"

definition table_netio :: "('a \<times> socket_table) netio" where
  "table_netio = \<lparr>n_Listen = table_listen ''tcp'', n_ResolveUDPAddr = (\<lambda>a _. Inr a), n_ListenUDP = table_listen ''udp'',
     n_Close = (\<lambda>c w. (fst w, gm_del (snd w) c)), n_Interfaces = (\<lambda>_. Inr [''eth0'']),
     n_InterfaceAddrs = (\<lambda>_. Inr []), n_Hostname = (\<lambda>_. Inr ''node1'')\<rparr>"

lemma fold_max_fresh: "gm_get t (Suc (fold max (map fst t) 0)) = None"
proof -
  have "m \<le> fold max (map fst t) 0" if "m \<in> fst ` set t" for m
    using Max_ge [of "set (0 # map fst t)" m] that unfolding Max.set_eq_fold by simp
  then show ?thesis by (force simp: map_of_eq_None_iff)
qed

lemma table_listen_ok:
  assumes "table_listen network a w = (Inr c, w')"
  shows "gm_get (snd w) c = None" "(network, a) \<notin> ran (map_of (snd w))" "map_of (snd w') = (map_of (snd w))(c \<mapsto> (network, a))"
  using assms fold_max_fresh [of "snd w"]
  by (force simp: table_listen_def Let_def ran_def dest!: map_of_SomeD split: if_splits)+

interpretation table: socket_os "with_sockets h" table_netio ex_loaded "\<lambda>_ _ w. w" ex_quiet_ipt "\<lambda>w. map_of (snd w)" "\<lambda>a. a"
  for h :: "'a libnet"
proof
  fix a :: string and w w' :: "'a \<times> socket_table" and c e
  show "map_of (snd w) c = None \<and> (''tcp'', a) \<notin> ran (map_of (snd w)) \<and> map_of (snd w') = (map_of (snd w))(c \<mapsto> (''tcp'', a))"
    if "n_Listen table_netio a w = (Inr c, w')" using that table_listen_ok [of "''tcp''" a w c w'] by (simp add: table_netio_def)
  show "map_of (snd w) c = None \<and> (''udp'', a) \<notin> ran (map_of (snd w)) \<and> map_of (snd w') = (map_of (snd w))(c \<mapsto> (''udp'', a))"
    if "n_ListenUDP table_netio a w = (Inr c, w')" using that table_listen_ok [of "''udp''" a w c w'] by (simp add: table_netio_def)
  show "map_of (snd w') = map_of (snd w)" if "n_Listen table_netio a w = (Inl e, w')"
    using that by (auto simp: table_netio_def table_listen_def Let_def split: if_splits)
  show "map_of (snd w') = map_of (snd w)" if "n_ListenUDP table_netio a w = (Inl e, w')"
    using that by (auto simp: table_netio_def table_listen_def Let_def split: if_splits)
qed (simp_all add: table_netio_def with_sockets_def ipt_keeps_def ex_loaded_def ex_quiet_ipt_def)

text \<open>A service with a node port: the sync after the second signal opens the port.\<close>

definition ex_np :: api_Service where
  "ex_np = (ex_service 0)\<lparr>as_ClusterIP := dotted [10, 0, 0, 1],
     as_Ports := [\<lparr>sp_Name = ''http'', sp_Protocol = ''TCP'', sp_Port = 80, sp_NodePort = 30080\<rparr>]\<rparr>"

definition ex_table_world :: "kworld \<times> socket_table" where
  "ex_table_world = (\<lparr>kw_svcs = [], kw_addrs = [], kw_link = False\<rparr>, [(7, ''tcp'', ''127.0.0.1:10249'')])"

theorem server_sockets_exact_witness:
  "\<exists>s st. NewEnnProxyServerDefault (\<lambda>_. True) ex_proc table_netio ex_loaded ex_node_Get ''rr'' (NewKubeEnnProxyConfig ''rr'')
      ex_table_world = Some (Inr s, ex_table_world) \<and>
    server_until_signal (NewProxier_env (with_sockets ref_libnet) table_netio ex_loaded (\<lambda>_ _ w. w) ''rr'') ex_quiet_ipt
      [Ev_Service (Added ex_np), Ev_EndpointsSynced, Ev_ServicesSynced, Ev_Tick, Ev_Service (Deleted ex_np), Ev_Tick]
      s ex_table_world = Some st \<and>
    dom (map_of (snd (ss_w st))) = insert 7 (ran (map_of (p_portsMap (ss_proxier st))))"
proof -
  let ?env = "NewProxier_env (with_sockets ref_libnet) table_netio ex_loaded (\<lambda>_ _ w. w) ''rr''"
  let ?es = "[Ev_Service (Added ex_np), Ev_EndpointsSynced, Ev_ServicesSynced, Ev_Tick, Ev_Service (Deleted ex_np), Ev_Tick]"
  obtain s where s: "NewEnnProxyServerDefault (\<lambda>_. True) ex_proc table_netio ex_loaded ex_node_Get ''rr''
    (NewKubeEnnProxyConfig ''rr'') ex_table_world = Some (Inr s, ex_table_world)"
    using ex_server_on [of table_netio ex_table_world] by (auto simp: table_netio_def)
  have "\<exists>st. server_until_signal ?env ex_quiet_ipt ?es s ex_table_world = Some st"
    by (rule server_run_total)
      (auto simp: with_sockets_def ref_libnet_def beside_def ipt_keeps_def ex_quiet_ipt_def split: if_splits)
  then obtain st where st: "server_until_signal ?env ex_quiet_ipt ?es s ex_table_world = Some st" by blast
  then obtain err w1 where m: "EnsureIPtablesMASQ ex_quiet_ipt (es_Proxier s) (birthCry ?env ex_table_world) = Some (err, w1)"
    and run: "foldM (server_step ?env ex_quiet_ipt) ?es \<lparr>ss_proxier = es_Proxier s, ss_w = w1, ss_loop = (err = None)\<rparr> = Some st"
    unfolding server_until_signal_def by (auto split: option.splits)
  from server_sockets_exact [OF table.socket_os_axioms s refl m server_reachable_run [OF run server_reachable.initial] refl]
  have "dom (map_of (snd (ss_w st))) = insert 7 (ran (map_of (p_portsMap (ss_proxier st))))"
    by (auto simp: ex_table_world_def)
  with s st show ?thesis by blast
qed

end
