(* ===== verification/Options.thy ===== *)
theory Options
  imports Proxier_Setup
begin

text \<open>
  The command line flags of src/app/options/options.go.  \<^verbatim>\<open>AddFlags\<close> gives the package pflag, for every flag, its name,
  the field that it sets and the default, which is the value that the field has.  What pflag does with them is
  a sequence of assignments to these fields; the texts of the help are left out.
\<close>

section \<open>Flags\<close>

datatype flag_value = FString string | FBool bool | FDuration int | FInt32 int

text \<open>A pointer to a field is the pair of reading and writing it; a value of another kind is never written.\<close>

record flag =
  fl_Name :: string
  fl_Get :: "KubeEnnProxyConfig \<Rightarrow> flag_value"
  fl_Set :: "flag_value \<Rightarrow> KubeEnnProxyConfig \<Rightarrow> KubeEnnProxyConfig"

definition StringVar :: "string \<Rightarrow> (KubeEnnProxyConfig \<Rightarrow> string) \<Rightarrow> (string \<Rightarrow> KubeEnnProxyConfig \<Rightarrow> KubeEnnProxyConfig) \<Rightarrow> flag" where
  "StringVar name get put = \<lparr>fl_Name = name, fl_Get = FString \<circ> get,
     fl_Set = (\<lambda>v c. case v of FString x \<Rightarrow> put x c | _ \<Rightarrow> c)\<rparr>"

definition BoolVar :: "string \<Rightarrow> (KubeEnnProxyConfig \<Rightarrow> bool) \<Rightarrow> (bool \<Rightarrow> KubeEnnProxyConfig \<Rightarrow> KubeEnnProxyConfig) \<Rightarrow> flag" where
  "BoolVar name get put = \<lparr>fl_Name = name, fl_Get = FBool \<circ> get,
     fl_Set = (\<lambda>v c. case v of FBool x \<Rightarrow> put x c | _ \<Rightarrow> c)\<rparr>"

definition DurationVar :: "string \<Rightarrow> (KubeEnnProxyConfig \<Rightarrow> int) \<Rightarrow> (int \<Rightarrow> KubeEnnProxyConfig \<Rightarrow> KubeEnnProxyConfig) \<Rightarrow> flag" where
  "DurationVar name get put = \<lparr>fl_Name = name, fl_Get = FDuration \<circ> get,
     fl_Set = (\<lambda>v c. case v of FDuration x \<Rightarrow> put x c | _ \<Rightarrow> c)\<rparr>"

definition Int32Var :: "string \<Rightarrow> (KubeEnnProxyConfig \<Rightarrow> int) \<Rightarrow> (int \<Rightarrow> KubeEnnProxyConfig \<Rightarrow> KubeEnnProxyConfig) \<Rightarrow> flag" where
  "Int32Var name get put = \<lparr>fl_Name = name, fl_Get = FInt32 \<circ> get,
     fl_Set = (\<lambda>v c. case v of FInt32 x \<Rightarrow> put x c | _ \<Rightarrow> c)\<rparr>"

text \<open>Each flag of \<^verbatim>\<open>AddFlags\<close> with the field it is bound to.\<close>

definition AddFlags :: "flag list" where
  "AddFlags =
     [StringVar ''bind-address'' cf_BindAddress (\<lambda>x c. c\<lparr>cf_BindAddress := x\<rparr>),
      BoolVar ''logtostderr'' cf_GlogToStderr (\<lambda>x c. c\<lparr>cf_GlogToStderr := x\<rparr>),
      StringVar ''v'' cf_GlogV (\<lambda>x c. c\<lparr>cf_GlogV := x\<rparr>),
      StringVar ''log-dir'' cf_GlogDir (\<lambda>x c. c\<lparr>cf_GlogDir := x\<rparr>),
      StringVar ''master'' cf_Master (\<lambda>x c. c\<lparr>cf_Master := x\<rparr>),
      StringVar ''kubeconfig'' cf_Kubeconfig (\<lambda>x c. c\<lparr>cf_Kubeconfig := x\<rparr>),
      BoolVar ''cleanup-config'' cf_CleanupConfig (\<lambda>x c. c\<lparr>cf_CleanupConfig := x\<rparr>),
      DurationVar ''config-sync-period'' cf_ConfigSyncPeriod (\<lambda>x c. c\<lparr>cf_ConfigSyncPeriod := x\<rparr>),
      DurationVar ''iptable-sync-period'' cf_IPTablesSyncPeriod (\<lambda>x c. c\<lparr>cf_IPTablesSyncPeriod := x\<rparr>),
      DurationVar ''ipvs-sync-period'' cf_IpvsSyncPeriod (\<lambda>x c. c\<lparr>cf_IpvsSyncPeriod := x\<rparr>),
      DurationVar ''min-sync-period'' cf_MinSyncPeriod (\<lambda>x c. c\<lparr>cf_MinSyncPeriod := x\<rparr>),
      BoolVar ''masq-all'' cf_MasqueradeAll (\<lambda>x c. c\<lparr>cf_MasqueradeAll := x\<rparr>),
      Int32Var ''iptables-masquerade-bit'' cf_MasqueradeBit (\<lambda>x c. c\<lparr>cf_MasqueradeBit := x\<rparr>),
      StringVar ''cluser-CIDR'' cf_ClusterCIDR (\<lambda>x c. c\<lparr>cf_ClusterCIDR := x\<rparr>),
      StringVar ''hostname-override'' cf_HostnameOverride (\<lambda>x c. c\<lparr>cf_HostnameOverride := x\<rparr>),
      StringVar ''IPVS-scheduler'' cf_IpvsScheduler (\<lambda>x c. c\<lparr>cf_IpvsScheduler := x\<rparr>)]"

lemmas flag_defs = AddFlags_def StringVar_def BoolVar_def DurationVar_def Int32Var_def

text \<open>The assignments of a command line, in the order given; a name that no flag has is not assigned.\<close>

definition flag_of :: "string \<Rightarrow> flag option" where
  "flag_of name = List.find (\<lambda>f. fl_Name f = name) AddFlags"

definition set_flag :: "string \<times> flag_value \<Rightarrow> KubeEnnProxyConfig \<Rightarrow> KubeEnnProxyConfig" where
  "set_flag nv c = (case flag_of (fst nv) of Some f \<Rightarrow> fl_Set f (snd nv) c | None \<Rightarrow> c)"

definition set_flags :: "(string \<times> flag_value) list \<Rightarrow> KubeEnnProxyConfig \<Rightarrow> KubeEnnProxyConfig" where
  "set_flags nvs c = fold set_flag nvs c"

fun same_kind :: "flag_value \<Rightarrow> flag_value \<Rightarrow> bool" where
  "same_kind (FString _) (FString _) = True"
| "same_kind (FBool _) (FBool _) = True"
| "same_kind (FDuration _) (FDuration _) = True"
| "same_kind (FInt32 _) (FInt32 _) = True"
| "same_kind _ _ = False"

section \<open>Independence\<close>

lemma find_distinct: "distinct (map k xs) \<Longrightarrow> x \<in> set xs \<Longrightarrow> List.find (\<lambda>y. k y = k x) xs = Some x"
  by (induction xs) force+

lemma flag_names_distinct: "distinct (map fl_Name AddFlags)"
  by (simp add: flag_defs)

lemma fields_independent:
  assumes "f \<in> set AddFlags" "g \<in> set AddFlags" and "same_kind (fl_Get g c) v"
  shows "fl_Get f (fl_Set g v c) = (if fl_Name f = fl_Name g then v else fl_Get f c)"
proof -
  have "\<forall>g \<in> set AddFlags. \<forall>f \<in> set AddFlags. same_kind (fl_Get g c) v \<longrightarrow>
      fl_Get f (fl_Set g v c) = (if fl_Name f = fl_Name g then v else fl_Get f c)"
    by (cases v) (simp_all add: flag_defs)
  with assms show ?thesis by blast
qed

lemma kind_fixed: "f \<in> set AddFlags \<Longrightarrow> same_kind (fl_Get f c) (fl_Get f c')"
  by (auto simp: flag_defs)

lemma fields_complete:
  assumes "\<And>f. f \<in> set AddFlags \<Longrightarrow> fl_Get f c = fl_Get f c'"
  shows "c = c'"
proof -
  have "\<forall>f \<in> set AddFlags. fl_Get f c = fl_Get f c'" using assms by blast
  then show ?thesis by (cases c; cases c') (simp add: flag_defs)
qed



end
