(* ===== verification/Version_Util.thy ===== *)
theory Version_Util
  imports Node_Utils "HOL-Library.List_Lexorder" "HOL-Library.Char_ord"
begin

text \<open>
  src/pkg/util/version/version.go: parsing, printing and comparing version numbers.  The two
  regular expressions are deterministic scanners here; a Go uint is a 64-bit word.
\<close>

section \<open>Data and scanners\<close>

record Version =
  v_components :: "64 word list"
  v_semver :: bool
  v_preRelease :: string
  v_buildMetadata :: string

text \<open>The white space of a regular expression: tab, newline, form feed, return, space.\<close>

definition re_space :: "char \<Rightarrow> bool" where
  "re_space c \<longleftrightarrow> c \<in> {CHR 0x09, CHR 0x0A, CHR 0x0C, CHR 0x0D, CHR '' ''}"

text \<open>The longest run of digit groups separated by dots, and what follows it.\<close>

function num_prefix :: "string \<Rightarrow> string \<times> string" where
  "num_prefix s =
     (let d = takeWhile is_digit s; r = dropWhile is_digit s
      in case r of
           x # y # r' \<Rightarrow>
             if x = CHR ''.'' \<and> is_digit y
             then (let (n, e) = num_prefix (y # r') in (d @ x # n, e))
             else (d, r)
         | _ \<Rightarrow> (d, r))"
  by pat_completeness auto
termination
proof (relation "measure length")
  fix s d r x r1 y r'
  assume r: "r = dropWhile is_digit s" "r = x # r1" "r1 = y # r'"
  have "length (x # y # r') \<le> length s" using length_dropWhile_le r by metis
  then show "(y # r', s) \<in> measure length" by simp
qed simp

declare num_prefix.simps [simp del]

text \<open>
  \<^verbatim>\<open>versionMatchRE\<close>: white space, an optional v, the numbers, then anything without a newline.
\<close>

definition version_match :: "string \<Rightarrow> (string \<times> string) option" where
  "version_match str =
     (let s = dropWhile re_space str;
          s1 = (case s of c # r \<Rightarrow> if c = CHR ''v'' then r else s | [] \<Rightarrow> s);
          (numbers, extra) = num_prefix s1
      in if numbers = [] \<or> CHR 0x0A \<in> set extra then None else Some (numbers, extra))"

definition ident_char :: "char \<Rightarrow> bool" where
  "ident_char c \<longleftrightarrow> is_digit c \<or> CHR ''A'' \<le> c \<and> c \<le> CHR ''Z'' \<or> CHR ''a'' \<le> c \<and> c \<le> CHR ''z'' \<or> c = CHR ''-''"

text \<open>Dot separated identifiers, none of them empty.\<close>

definition idents_ok :: "string \<Rightarrow> bool" where
  "idents_ok s \<longleftrightarrow> list_all (\<lambda>w. w \<noteq> [] \<and> list_all ident_char w) (split_on CHR ''.'' s)"

text \<open>An optional part of \<^verbatim>\<open>extraMatchRE\<close> that starts with \<open>mark\<close>: the part and the rest.\<close>

definition extra_part :: "char \<Rightarrow> string \<Rightarrow> (string \<times> string) option" where
  "extra_part mark s =
     (case s of
        c # r \<Rightarrow>
          if c = mark then
            (let run = takeWhile (\<lambda>x. ident_char x \<or> x = CHR ''.'') r
             in if idents_ok run then Some (run, drop (length run) r) else None)
          else Some ([], s)
      | [] \<Rightarrow> Some ([], s))"

definition extra_match :: "string \<Rightarrow> (string \<times> string) option" where
  "extra_match extra = do {
     (pre, r1) \<leftarrow> extra_part CHR ''-'' extra;
     (build, r2) \<leftarrow> extra_part CHR ''+'' r1;
     if list_all re_space r2 then Some (pre, build) else None
   }"

section \<open>Parsing\<close>

text \<open>\<^verbatim>\<open>strconv.ParseUint\<close> with base 10 and 64 bits.\<close>

definition ParseUint :: "string \<Rightarrow> go_error + 64 word" where
  "ParseUint s =
     (if s = [] \<or> \<not> list_all is_digit s
      then Inl (''strconv.ParseUint: parsing '' @ Quote s @ '': invalid syntax'')
      else if digits_val s \<ge> 2 ^ 64
      then Inl (''strconv.ParseUint: parsing '' @ Quote s @ '': value out of range'')
      else Inr (of_nat (digits_val s)))"

definition zero_prefixed :: "string \<Rightarrow> bool" where
  "zero_prefixed cm \<longleftrightarrow> HasPrefix cm ''0'' \<and> cm \<noteq> ''0''"

text \<open>The component loop; the flag says whether the zero check applies to this component.\<close>

fun parse_components :: "bool \<Rightarrow> string \<Rightarrow> bool \<Rightarrow> string list \<Rightarrow> go_error + 64 word list" where
  "parse_components semver str chk [] = Inr []"
| "parse_components semver str chk (cm # cms) =
     (if chk \<and> zero_prefixed cm
      then Inl (''illegal zero-prefixed version component '' @ Quote cm @ '' in '' @ Quote str)
      else (case ParseUint cm of
              Inl err \<Rightarrow> Inl (''illegal non-numeric version component '' @ Quote cm @ '' in '' @ Quote str @
                              '': '' @ err)
            | Inr num \<Rightarrow>
                (case parse_components semver str semver cms of
                   Inl err \<Rightarrow> Inl err
                 | Inr nums \<Rightarrow> Inr (num # nums))))"

definition illegal_pre :: "string \<Rightarrow> bool" where
  "illegal_pre cm \<longleftrightarrow> (case ParseUint cm of Inl _ \<Rightarrow> False | Inr _ \<Rightarrow> zero_prefixed cm)"

definition version_parse :: "string \<Rightarrow> bool \<Rightarrow> go_error + Version" where
  "version_parse str semver =
     (case version_match str of
        None \<Rightarrow> Inl (''could not parse '' @ Quote str @ '' as version'')
      | Some (numbers, extra) \<Rightarrow>
          (let components = split_on CHR ''.'' numbers in
           if (semver \<and> length components \<noteq> 3) \<or> (\<not> semver \<and> length components < 2)
           then Inl (''illegal version string '' @ Quote str)
           else
             (case parse_components semver str True components of
                Inl err \<Rightarrow> Inl err
              | Inr nums \<Rightarrow>
                  if semver \<and> extra \<noteq> '''' then
                    (case extra_match extra of
                       None \<Rightarrow> Inl (''could not parse pre-release/metadata ('' @ extra @ '') in version '' @ Quote str)
                     | Some (pre, build) \<Rightarrow>
                         (case find illegal_pre (split_on CHR ''.'' pre) of
                            Some cm \<Rightarrow> Inl (''illegal zero-prefixed version component '' @ Quote cm @ '' in '' @ Quote str)
                          | None \<Rightarrow> Inr \<lparr>v_components = nums, v_semver = semver, v_preRelease = pre,
                                          v_buildMetadata = build\<rparr>))
                  else Inr \<lparr>v_components = nums, v_semver = semver, v_preRelease = '''', v_buildMetadata = ''''\<rparr>)))"

definition ParseGeneric :: "string \<Rightarrow> go_error + Version" where "ParseGeneric str = version_parse str False"

definition ParseSemantic :: "string \<Rightarrow> go_error + Version" where "ParseSemantic str = version_parse str True"

definition MustParseGeneric :: "string \<Rightarrow> Version option" where
  "MustParseGeneric str = (case ParseGeneric str of Inl _ \<Rightarrow> None | Inr v \<Rightarrow> Some v)"

definition MustParseSemantic :: "string \<Rightarrow> Version option" where
  "MustParseSemantic str = (case ParseSemantic str of Inl _ \<Rightarrow> None | Inr v \<Rightarrow> Some v)"

section \<open>Reading and printing\<close>

text \<open>Indexing out of range panics.\<close>

definition Major :: "Version \<Rightarrow> 64 word option" where
  "Major v = (if length (v_components v) > 0 then Some (v_components v ! 0) else None)"

definition Minor :: "Version \<Rightarrow> 64 word option" where
  "Minor v = (if length (v_components v) > 1 then Some (v_components v ! 1) else None)"

definition Patch :: "Version \<Rightarrow> 64 word" where
  "Patch v = (if length (v_components v) < 3 then 0 else v_components v ! 2)"

definition BuildMetadata :: "Version \<Rightarrow> string" where "BuildMetadata v = v_buildMetadata v"

definition PreRelease :: "Version \<Rightarrow> string" where "PreRelease v = v_preRelease v"

definition Components :: "Version \<Rightarrow> 64 word list" where "Components v = v_components v"

fun show_components :: "64 word list \<Rightarrow> string" where
  "show_components [] = ''''"
| "show_components [c] = show_nat (unat c)"
| "show_components (c # cs) = show_nat (unat c) @ ''.'' @ show_components cs"

definition Version_String :: "Version \<Rightarrow> string" where
  "Version_String v =
     show_components (v_components v) @
     (if v_preRelease v \<noteq> '''' then ''-'' @ v_preRelease v else '''') @
     (if v_buildMetadata v \<noteq> '''' then ''+'' @ v_buildMetadata v else '''')"

section \<open>Comparing\<close>

text \<open>The component loop: a result ends it, \<open>None\<close> means it ran to its end.\<close>

fun compare_components :: "64 word list \<Rightarrow> 64 word list \<Rightarrow> int option" where
  "compare_components [] os = None"
| "compare_components (v # vs) [] = (if v \<noteq> 0 then Some 1 else compare_components vs [])"
| "compare_components (v # vs) (x # os) =
     (if x < v then Some 1 else if x > v then Some (-1) else compare_components vs os)"

fun compare_pre :: "string list \<Rightarrow> string list \<Rightarrow> int" where
  "compare_pre [] os = 0"
| "compare_pre (v # vs) [] = 1"
| "compare_pre (v # vs) (x # os) =
     (case (ParseUint v, ParseUint x) of
        (Inr vNum, Inr oNum) \<Rightarrow>
          if oNum < vNum then 1 else if oNum > vNum then -1 else compare_pre vs os
      | _ \<Rightarrow> if x < v then 1 else if x > v then -1 else compare_pre vs os)"

definition compareInternal :: "Version \<Rightarrow> Version \<Rightarrow> int" where
  "compareInternal v other =
     (case compare_components (v_components v) (v_components other) of
        Some r \<Rightarrow> r
      | None \<Rightarrow>
          if \<not> v_semver v \<or> \<not> v_semver other then 0
          else if v_preRelease v = '''' \<and> v_preRelease other \<noteq> '''' then 1
          else if v_preRelease v \<noteq> '''' \<and> v_preRelease other = '''' then -1
          else if v_preRelease v = v_preRelease other then 0
          else compare_pre (split_on CHR ''.'' (v_preRelease v)) (split_on CHR ''.'' (v_preRelease other)))"

definition AtLeast :: "Version \<Rightarrow> Version \<Rightarrow> bool" where
  "AtLeast v minimum = (compareInternal v minimum \<noteq> -1)"

definition LessThan :: "Version \<Rightarrow> Version \<Rightarrow> bool" where
  "LessThan v other = (compareInternal v other = -1)"

definition Compare :: "Version \<Rightarrow> string \<Rightarrow> go_error + int" where
  "Compare v other =
     (case version_parse other (v_semver v) of Inl err \<Rightarrow> Inl err | Inr ov \<Rightarrow> Inr (compareInternal v ov))"

section \<open>Printing and scanning\<close>

lemma num_prefix_digits:
  assumes "e = [] \<or> \<not> is_digit (hd e)" and "\<not> (\<exists>y r. e = CHR ''.'' # y # r \<and> is_digit y)"
  shows "num_prefix (show_nat n @ e) = (show_nat n, e)"
  using assms
  by (subst num_prefix.simps) (auto simp: Let_def takeWhile_digits dropWhile_digits split: list.splits)

lemma show_nat_Cons: obtains c r where "show_nat n = c # r" "is_digit c"
  using show_nat_digits [of _ n] by (cases "show_nat n") auto

lemma num_prefix_components:
  assumes "cs \<noteq> []" and "e = [] \<or> \<not> is_digit (hd e) \<and> hd e \<noteq> CHR ''.''"
  shows "num_prefix (show_components cs @ e) = (show_components cs, e)"
  using assms(1)
proof (induction cs rule: show_components.induct)
  case (2 c)
  show ?case using assms(2) by (auto intro!: num_prefix_digits)
next
  case (3 c c' cs)
  let ?s = "show_components (c' # cs) @ e"
  obtain d r where d: "show_nat (unat c') = d # r" "is_digit d" by (rule show_nat_Cons)
  have "\<exists>r. ?s = d # r" using d by (cases cs) auto
  then obtain r' where s: "?s = d # r'" by blast
  have w: "takeWhile is_digit (show_nat (unat c) @ CHR ''.'' # ?s) = show_nat (unat c)"
    "dropWhile is_digit (show_nat (unat c) @ CHR ''.'' # ?s) = CHR ''.'' # ?s"
    by (simp_all add: takeWhile_digits dropWhile_digits)
  have ih: "num_prefix (d # r') = (show_components (c' # cs), e)" using 3 s by simp
  show ?case
    using w ih d(2) unfolding s
    by (subst num_prefix.simps) (simp add: Let_def s)
qed simp

lemma split_on_append: "sep \<notin> set u \<Longrightarrow> split_on sep (u @ sep # s) = u # split_on sep s"
  by (induction u) auto

lemma split_on_none: "sep \<notin> set u \<Longrightarrow> split_on sep u = [u]"
  by (induction u) auto

lemma dot_not_shown: "CHR ''.'' \<notin> set (show_nat n)"
  using show_nat_digits [of "CHR ''.''" n] by auto

lemma split_show_components:
  "cs \<noteq> [] \<Longrightarrow> split_on CHR ''.'' (show_components cs) = map (\<lambda>c. show_nat (unat c)) cs"
  by (induction cs rule: show_components.induct) (simp_all add: split_on_append split_on_none dot_not_shown)

lemma show_nat_small: "n < 10 \<Longrightarrow> show_nat n = [digit_char n]"
  by (simp add: show_nat.simps)

lemma show_nat_zero: "hd (show_nat n) = CHR ''0'' \<Longrightarrow> n = 0"
proof (induction n rule: less_induct)
  case (less n)
  show ?case
  proof (cases "n < 10")
    case True
    with less.prems digit_val_char [of n] show ?thesis
      by (auto simp: show_nat_small digit_val_def)
  next
    case False
    then have s: "show_nat n = show_nat (n div 10) @ [digit_char (n mod 10)]" by (subst show_nat.simps) simp
    then have "hd (show_nat (n div 10)) = CHR ''0''" using less.prems by simp
    from less.IH [OF _ this] False show ?thesis by simp
  qed
qed

lemma not_zero_prefixed: "\<not> zero_prefixed (show_nat n)"
proof
  assume z: "zero_prefixed (show_nat n)"
  then have "hd (show_nat n) = CHR ''0''"
    by (cases "show_nat n") (auto simp: zero_prefixed_def HasPrefix_def)
  then have "n = 0" by (rule show_nat_zero)
  with z show False by (simp add: zero_prefixed_def show_nat_small digit_chars)
qed

lemma ParseUint_show: "ParseUint (show_nat (unat (c :: 64 word))) = Inr c"
proof -
  have "unat c < 2 ^ 64" using unsigned_less [of c, where 'a = nat] by simp
  moreover have "list_all is_digit (show_nat (unat c))" by (simp add: list_all_iff show_nat_digits)
  ultimately show ?thesis by (simp add: ParseUint_def)
qed

lemma parse_components_show:
  "parse_components semver str chk (map (\<lambda>c. show_nat (unat c)) cs) = Inr cs"
  by (induction cs arbitrary: chk) (simp_all add: not_zero_prefixed ParseUint_show)

lemma version_match_show:
  assumes "cs \<noteq> []" and "e = [] \<or> hd e = CHR ''-'' \<or> hd e = CHR ''+''" and "CHR 0x0A \<notin> set e"
  shows "version_match (show_components cs @ e) = Some (show_components cs, e)"
proof -
  obtain d r where d: "show_components cs @ e = d # r" "is_digit d"
  proof -
    obtain c cs' where cs: "cs = c # cs'" using assms(1) by (cases cs) auto
    obtain x y where "show_nat (unat c) = x # y" "is_digit x" by (rule show_nat_Cons)
    then show ?thesis using that cs by (cases cs') auto
  qed
  have "\<not> re_space d" "d \<noteq> CHR ''v''" using d(2) by (auto simp: re_space_def is_digit_def)
  moreover have "num_prefix (show_components cs @ e) = (show_components cs, e)"
    using assms(1,2) by (intro num_prefix_components) (auto simp: is_digit_def)
  moreover have "show_components cs \<noteq> []" using assms(1) by (cases cs rule: show_components.cases) auto
  ultimately show ?thesis using assms(3) d(1) by (simp add: version_match_def)
qed

lemma idents_chars:
  assumes "idents_ok s" "c \<in> set s"
  shows "ident_char c \<or> c = CHR ''.''"
proof -
  have "set s \<subseteq> insert sep (\<Union>w \<in> set (split_on sep s). set w)" for sep s
    by (induction s) (auto split: list.splits, blast)
  with assms show ?thesis unfolding idents_ok_def list_all_iff by blast
qed

lemma idents_ne: "idents_ok s \<Longrightarrow> s \<noteq> []"
  by (auto simp: idents_ok_def)

lemma ident_char_special: "\<not> ident_char CHR ''+''" "\<not> ident_char CHR ''.''" "\<not> ident_char CHR 0x0A"
  by (simp_all add: ident_char_def is_digit_def less_eq_char_def)

lemma extra_part_result: "extra_part mark s = Some (run, r) \<Longrightarrow> run = [] \<or> idents_ok run"
  by (auto simp: extra_part_def Let_def split: list.splits if_splits)

lemma extra_match_result:
  "extra_match e = Some (pre, build) \<Longrightarrow> (pre = [] \<or> idents_ok pre) \<and> (build = [] \<or> idents_ok build)"
  by (auto simp: extra_match_def bind_eq_Some_conv split: if_splits dest!: extra_part_result)

text \<open>The printed extra part of a version.\<close>

definition show_extra :: "string \<Rightarrow> string \<Rightarrow> string" where
  "show_extra pre build =
     (if pre \<noteq> '''' then ''-'' @ pre else '''') @ (if build \<noteq> '''' then ''+'' @ build else '''')"

lemma extra_part_show:
  assumes "run = [] \<or> idents_ok run" and "r = [] \<or> hd r = CHR ''+'' \<and> mark \<noteq> CHR ''+''"
  shows "extra_part mark ((if run \<noteq> '''' then mark # run else '''') @ r) = Some (run, r)"
proof (cases "run = []")
  case True
  with assms(2) show ?thesis by (auto simp: extra_part_def split: list.splits)
next
  case False
  then have ok: "idents_ok run" using assms(1) by simp
  have all: "\<forall>x \<in> set run. ident_char x \<or> x = CHR ''.''" using idents_chars [OF ok] by blast
  have "takeWhile (\<lambda>x. ident_char x \<or> x = CHR ''.'') (run @ r) = run"
  proof (cases r)
    case Nil
    with all show ?thesis by simp
  next
    case (Cons y r')
    with assms(2) have "y = CHR ''+''" by simp
    with Cons all ident_char_special(1) show ?thesis by (simp add: takeWhile_append2)
  qed
  with False ok show ?thesis by (simp add: extra_part_def Let_def)
qed

lemma extra_match_show:
  assumes "pre = [] \<or> idents_ok pre" and "build = [] \<or> idents_ok build"
  shows "extra_match (show_extra pre build) = Some (pre, build)"
proof -
  let ?b = "if build \<noteq> '''' then CHR ''+'' # build else ''''"
  have "extra_part CHR ''-'' ((if pre \<noteq> '''' then CHR ''-'' # pre else '''') @ ?b) = Some (pre, ?b)"
    using assms(1) by (intro extra_part_show) auto
  moreover have "extra_part CHR ''+'' (?b @ []) = Some (build, [])"
    using assms(2) by (intro extra_part_show) auto
  ultimately show ?thesis by (simp add: extra_match_def show_extra_def split: if_splits)
qed

lemma show_extra_chars:
  assumes "pre = [] \<or> idents_ok pre" and "build = [] \<or> idents_ok build"
  shows "CHR 0x0A \<notin> set (show_extra pre build)"
  using assms idents_chars [of pre "CHR 0x0A"] idents_chars [of build "CHR 0x0A"] ident_char_special(3)
  by (auto simp: show_extra_def)

lemma version_parse_show:
  assumes "semver \<longrightarrow> length cs = 3" and "\<not> semver \<longrightarrow> length cs \<ge> 2"
    and "pre = [] \<or> idents_ok pre" and "build = [] \<or> idents_ok build"
    and "find illegal_pre (split_on CHR ''.'' pre) = None" and "\<not> semver \<longrightarrow> pre = [] \<and> build = []"
  shows "version_parse (show_components cs @ show_extra pre build) semver =
    Inr \<lparr>v_components = cs, v_semver = semver, v_preRelease = pre, v_buildMetadata = build\<rparr>"
proof -
  have ne: "cs \<noteq> []" using assms(1,2) by auto
  have h: "show_extra pre build = [] \<or> hd (show_extra pre build) = CHR ''-'' \<or> hd (show_extra pre build) = CHR ''+''"
    by (simp add: show_extra_def)
  have "show_extra pre build = [] \<longleftrightarrow> pre = [] \<and> build = []" by (auto simp: show_extra_def)
  then show ?thesis
    using version_match_show [OF ne h show_extra_chars [OF assms(3,4)]] assms extra_match_show [OF assms(3,4)]
    by (auto simp: version_parse_def Let_def split_show_components [OF ne] parse_components_show)
qed

lemma parse_components_length: "parse_components semver str chk cms = Inr cs \<Longrightarrow> length cs = length cms"
  by (induction cms arbitrary: chk cs) (auto split: if_splits sum.splits)

text \<open>What a successful parse returns.\<close>

lemma version_parse_result:
  assumes "version_parse str semver = Inr v"
  shows "v_semver v = semver" and "semver \<longrightarrow> length (v_components v) = 3"
    and "\<not> semver \<longrightarrow> length (v_components v) \<ge> 2"
    and "v_preRelease v = [] \<or> idents_ok (v_preRelease v)" and "v_buildMetadata v = [] \<or> idents_ok (v_buildMetadata v)"
    and "find illegal_pre (split_on CHR ''.'' (v_preRelease v)) = None"
    and "\<not> semver \<longrightarrow> v_preRelease v = [] \<and> v_buildMetadata v = []"
  using assms
  by (auto simp: version_parse_def Let_def illegal_pre_def ParseUint_def split: option.splits if_splits sum.splits
      dest!: parse_components_length) (drule extra_match_result, simp)+

lemma compare_components_lex:
  "length vs = length os \<Longrightarrow> compare_components vs os =
     (if vs = os then None else if vs < os then Some (-1) else Some 1)"
  by (induction vs os rule: list_induct2) auto

lemma compare_components_prefix: "compare_components vs (vs @ ws) = None"
  by (induction vs) auto

section \<open>Properties\<close>

text \<open>
  (C24) Versions survive printing: whatever a string was parsed to, as a generic or as a semantic
  version, parsing its printed form gives the same version back, numbers, pre-release and build
  metadata included.
\<close>

theorem version_print_parse:
  assumes "version_parse str semver = Inr v"
  shows "version_parse (Version_String v) semver = Inr v"
proof -
  note r = version_parse_result [OF assms]
  have "Version_String v = show_components (v_components v) @ show_extra (v_preRelease v) (v_buildMetadata v)"
    by (simp add: Version_String_def show_extra_def)
  moreover have "v = \<lparr>v_components = v_components v, v_semver = semver, v_preRelease = v_preRelease v,
      v_buildMetadata = v_buildMetadata v\<rparr>" using r(1) by simp
  ultimately show ?thesis using version_parse_show [OF r(2-7)] by simp
qed

lemma num_prefix_witness: "num_prefix ''1.4.11-rc.1'' = (''1.4.11'', ''-rc.1'')"
  by (simp add: num_prefix.simps is_digit_def)

theorem version_print_parse_witness:
  "version_parse (Version_String \<lparr>v_components = [1, 4, 11], v_semver = True, v_preRelease = ''rc.1'',
      v_buildMetadata = ''''\<rparr>) True =
    Inr \<lparr>v_components = [1, 4, 11], v_semver = True, v_preRelease = ''rc.1'', v_buildMetadata = ''''\<rparr>"
proof (rule version_print_parse)
  show "version_parse ''v1.4.11-rc.1'' True =
      Inr \<lparr>v_components = [1, 4, 11], v_semver = True, v_preRelease = ''rc.1'', v_buildMetadata = ''''\<rparr>"
    by (simp add: version_parse_def version_match_def re_space_def num_prefix_witness Let_def zero_prefixed_def
        HasPrefix_def ParseUint_def is_digit_def digits_val_def digit_val_def extra_match_def extra_part_def
        ident_char_def less_eq_char_def idents_ok_def illegal_pre_def)
qed

text \<open>
  (C25) Comparison is the lexicographic order of the numbers when both versions have the same
  number of them and the same pre-release: -1, 0 and 1 say exactly which is greater, so
  \<^verbatim>\<open>LessThan\<close> and \<^verbatim>\<open>AtLeast\<close> are opposite and asymmetric there.
\<close>

theorem compareInternal_lexicographic:
  assumes "length (v_components v) = length (v_components other)" and "v_preRelease v = v_preRelease other"
  shows "compareInternal v other =
      (if v_components v = v_components other then 0 else if v_components v < v_components other then -1 else 1)
    \<and> (LessThan v other \<longleftrightarrow> v_components v < v_components other)
    \<and> (AtLeast v other \<longleftrightarrow> v_components other \<le> v_components v)"
  using assms compare_components_lex [OF assms(1)]
  by (auto simp: compareInternal_def LessThan_def AtLeast_def)

theorem compareInternal_lexicographic_witness:
  "LessThan \<lparr>v_components = [1, 4, 9], v_semver = False, v_preRelease = '''', v_buildMetadata = ''''\<rparr>
     \<lparr>v_components = [1, 4, 11], v_semver = False, v_preRelease = '''', v_buildMetadata = ''''\<rparr>"
  using compareInternal_lexicographic
    [of "\<lparr>v_components = [1, 4, 9], v_semver = False, v_preRelease = '''', v_buildMetadata = ''''\<rparr>"
        "\<lparr>v_components = [1, 4, 11], v_semver = False, v_preRelease = '''', v_buildMetadata = ''''\<rparr>"]
  by simp



end
