(* ===== verification/Dbus.thy ===== *)
theory Dbus
  imports Prelude
begin

text \<open>
  src/pkg/util/dbus: the D-Bus interface, its implementation over the package godbus (dbus.go) and the fake that
  plays a bus in memory (fake_dbus.go).  The package godbus is a parameter.  Connections and channels are pointers: a
  connection of the fake is an index into a store, and a channel is a number.
\<close>

section \<open>Interfaces\<close>

text \<open>A D-Bus value is a string or something else.\<close>

datatype dbus_value = DString string | DOther

record dbus_signal =
  sg_Sender :: string
  sg_Path :: string
  sg_Name :: string
  sg_Body :: "dbus_value list"

type_synonym chan = nat

text \<open>
  The Go interfaces \<^verbatim>\<open>Interface\<close>, \<^verbatim>\<open>Connection\<close>, \<^verbatim>\<open>Object\<close> and \<^verbatim>\<open>Call\<close>.  A call of a nil object
  panics; \<open>di_Store call n\<close> is \<^verbatim>\<open>Store\<close> with \<open>n\<close> destinations.
\<close>

record ('c, 'o, 'k, 'w) dbus_Interface =
  di_SystemBus :: "'w \<Rightarrow> (go_error + 'c) \<times> 'w"
  di_SessionBus :: "'w \<Rightarrow> (go_error + 'c) \<times> 'w"
  di_BusObject :: "'c \<Rightarrow> 'w \<Rightarrow> 'o"
  di_Object :: "'c \<Rightarrow> string \<Rightarrow> string \<Rightarrow> 'w \<Rightarrow> 'o"
  di_Signal :: "'c \<Rightarrow> chan \<Rightarrow> 'w \<Rightarrow> 'w"
  di_Call :: "'o \<Rightarrow> string \<Rightarrow> nat \<Rightarrow> dbus_value list \<Rightarrow> 'w \<Rightarrow> ('k \<times> 'w) option"
  di_Store :: "'k \<Rightarrow> nat \<Rightarrow> go_error + dbus_value list"

text \<open>What dbus.go uses of godbus.\<close>

record ('c, 'o, 'k, 'w) godbus =
  gd_SystemBus :: "'w \<Rightarrow> (go_error + 'c) \<times> 'w"
  gd_SessionBus :: "'w \<Rightarrow> (go_error + 'c) \<times> 'w"
  gd_BusObject :: "'c \<Rightarrow> 'w \<Rightarrow> 'o"
  gd_Object :: "'c \<Rightarrow> string \<Rightarrow> string \<Rightarrow> 'w \<Rightarrow> 'o"
  gd_Signal :: "'c \<Rightarrow> chan \<Rightarrow> 'w \<Rightarrow> 'w"
  gd_Call :: "'o \<Rightarrow> string \<Rightarrow> nat \<Rightarrow> dbus_value list \<Rightarrow> 'w \<Rightarrow> 'k \<times> 'w"
  gd_Call_Store :: "'k \<Rightarrow> nat \<Rightarrow> go_error + dbus_value list"

section \<open>The implementation\<close>

datatype 'c connImpl = connImpl (ci_conn: 'c)
datatype 'o objectImpl = objectImpl (oi_object: 'o)
datatype 'k callImpl = callImpl (ca_call: 'k)

record 'c dbusImpl =
  im_systemBus :: "'c connImpl option"
  im_sessionBus :: "'c connImpl option"

definition dbus_New :: "'c dbusImpl" where
  "dbus_New = \<lparr>im_systemBus = None, im_sessionBus = None\<rparr>"

definition SystemBus ::
  "('c, 'o, 'k, 'w) godbus \<Rightarrow> 'c dbusImpl \<times> 'w \<Rightarrow> (go_error + 'c connImpl) \<times> 'c dbusImpl \<times> 'w" where
  "SystemBus g s =
     (let (db, w) = s in
      case im_systemBus db of
        Some bus \<Rightarrow> (Inr bus, db, w)
      | None \<Rightarrow>
          (case gd_SystemBus g w of
             (Inl err, w1) \<Rightarrow> (Inl err, db, w1)
           | (Inr bus, w1) \<Rightarrow> (Inr (connImpl bus), db\<lparr>im_systemBus := Some (connImpl bus)\<rparr>, w1)))"

definition SessionBus ::
  "('c, 'o, 'k, 'w) godbus \<Rightarrow> 'c dbusImpl \<times> 'w \<Rightarrow> (go_error + 'c connImpl) \<times> 'c dbusImpl \<times> 'w" where
  "SessionBus g s =
     (let (db, w) = s in
      case im_sessionBus db of
        Some bus \<Rightarrow> (Inr bus, db, w)
      | None \<Rightarrow>
          (case gd_SessionBus g w of
             (Inl err, w1) \<Rightarrow> (Inl err, db, w1)
           | (Inr bus, w1) \<Rightarrow> (Inr (connImpl bus), db\<lparr>im_sessionBus := Some (connImpl bus)\<rparr>, w1)))"

definition connImpl_BusObject :: "('c, 'o, 'k, 'w) godbus \<Rightarrow> 'c connImpl \<Rightarrow> 'w \<Rightarrow> 'o objectImpl" where
  "connImpl_BusObject g conn w = objectImpl (gd_BusObject g (ci_conn conn) w)"

definition connImpl_Object :: "('c, 'o, 'k, 'w) godbus \<Rightarrow> 'c connImpl \<Rightarrow> string \<Rightarrow> string \<Rightarrow> 'w \<Rightarrow> 'o objectImpl" where
  "connImpl_Object g conn name path w = objectImpl (gd_Object g (ci_conn conn) name path w)"

definition connImpl_Signal :: "('c, 'o, 'k, 'w) godbus \<Rightarrow> 'c connImpl \<Rightarrow> chan \<Rightarrow> 'w \<Rightarrow> 'w" where
  "connImpl_Signal g conn ch w = gd_Signal g (ci_conn conn) ch w"

definition objectImpl_Call ::
  "('c, 'o, 'k, 'w) godbus \<Rightarrow> 'o objectImpl \<Rightarrow> string \<Rightarrow> nat \<Rightarrow> dbus_value list \<Rightarrow> 'w \<Rightarrow> 'k callImpl \<times> 'w" where
  "objectImpl_Call g obj m flags args w =
     (let (call, w1) = gd_Call g (oi_object obj) m flags args w in (callImpl call, w1))"

definition callImpl_Store :: "('c, 'o, 'k, 'w) godbus \<Rightarrow> 'k callImpl \<Rightarrow> nat \<Rightarrow> go_error + dbus_value list" where
  "callImpl_Store g call n = gd_Call_Store g (ca_call call) n"

text \<open>The methods of dbusImpl as a value of the interface; its fields live beside the rest of the world.\<close>

definition dbusImpl_Interface ::
  "('c, 'o, 'k, 'w) godbus \<Rightarrow> ('c connImpl, 'o objectImpl, 'k callImpl, 'c dbusImpl \<times> 'w) dbus_Interface" where
  "dbusImpl_Interface g =
     \<lparr>di_SystemBus = SystemBus g, di_SessionBus = SessionBus g,
      di_BusObject = (\<lambda>conn (_, w). connImpl_BusObject g conn w),
      di_Object = (\<lambda>conn name path (_, w). connImpl_Object g conn name path w),
      di_Signal = (\<lambda>conn ch (db, w). (db, connImpl_Signal g conn ch w)),
      di_Call = (\<lambda>obj m flags args (db, w). let (call, w1) = objectImpl_Call g obj m flags args w in Some (call, db, w1)),
      di_Store = callImpl_Store g\<rparr>"

section \<open>The fake\<close>

record fakeObject =
  fo_handler :: nat

record DBusFakeConnection =
  fc_busObject :: "fakeObject option"
  fc_objects :: "(string, fakeObject) gomap"
  fc_signalHandlers :: "chan list"

text \<open>
  The connections, the buffered channels with their capacity, and the state of the test code.  A handler
  is a function of the test code: handlers are numbered, and \<open>fake_handlers\<close> runs them.
\<close>

record 'x fake_world =
  fw_conns :: "nat \<Rightarrow> DBusFakeConnection"
  fw_queue :: "chan \<Rightarrow> dbus_signal list"
  fw_capacity :: "chan \<Rightarrow> nat"
  fw_test :: 'x

type_synonym 'x fake_handlers =
  "nat \<Rightarrow> string \<Rightarrow> dbus_value list \<Rightarrow> 'x fake_world \<Rightarrow> (dbus_value list \<times> go_error option) \<times> 'x fake_world"

record DBusFake =
  df_systemBus :: "nat option"
  df_sessionBus :: "nat option"

record fakeCall =
  fk_ret :: "dbus_value list"
  fk_err :: "go_error option"

definition NewFake :: "nat option \<Rightarrow> nat option \<Rightarrow> DBusFake" where
  "NewFake systemBus sessionBus = \<lparr>df_systemBus = systemBus, df_sessionBus = sessionBus\<rparr>"

definition NewFakeConnection :: DBusFakeConnection where
  "NewFakeConnection = \<lparr>fc_busObject = None, fc_objects = [], fc_signalHandlers = []\<rparr>"

definition fake_SystemBus :: "DBusFake \<Rightarrow> go_error + nat" where
  "fake_SystemBus db = (case df_systemBus db of Some c \<Rightarrow> Inr c | None \<Rightarrow> Inl ''DBus is not running'')"

definition fake_SessionBus :: "DBusFake \<Rightarrow> go_error + nat" where
  "fake_SessionBus db = (case df_sessionBus db of Some c \<Rightarrow> Inr c | None \<Rightarrow> Inl ''DBus is not running'')"

definition fake_BusObject :: "DBusFakeConnection \<Rightarrow> fakeObject option" where
  "fake_BusObject conn = fc_busObject conn"

definition fake_Object :: "DBusFakeConnection \<Rightarrow> string \<Rightarrow> string \<Rightarrow> fakeObject option" where
  "fake_Object conn name path = gm_get (fc_objects conn) (name @ path)"

text \<open>The loop that looks for the channel and cuts it out.\<close>

fun cut_handler :: "chan \<Rightarrow> chan list \<Rightarrow> chan list option" where
  "cut_handler ch [] = None"
| "cut_handler ch (h # hs) = (if h = ch then Some hs else map_option (Cons h) (cut_handler ch hs))"

definition fake_Signal :: "DBusFakeConnection \<Rightarrow> chan \<Rightarrow> DBusFakeConnection" where
  "fake_Signal conn ch =
     (case cut_handler ch (fc_signalHandlers conn) of
        Some hs \<Rightarrow> conn\<lparr>fc_signalHandlers := hs\<rparr>
      | None \<Rightarrow> conn\<lparr>fc_signalHandlers := fc_signalHandlers conn @ [ch]\<rparr>)"

definition SetBusObject :: "nat \<Rightarrow> DBusFakeConnection \<Rightarrow> DBusFakeConnection" where
  "SetBusObject handler conn = conn\<lparr>fc_busObject := Some \<lparr>fo_handler = handler\<rparr>\<rparr>"

definition AddObject :: "string \<Rightarrow> string \<Rightarrow> nat \<Rightarrow> DBusFakeConnection \<Rightarrow> DBusFakeConnection" where
  "AddObject name path handler conn = conn\<lparr>fc_objects := gm_put (fc_objects conn) (name @ path) \<lparr>fo_handler = handler\<rparr>\<rparr>"

text \<open>Sending to a full channel waits; \<open>None\<close> is the sender that waits.\<close>

definition chan_send :: "dbus_signal \<Rightarrow> chan \<Rightarrow> 'x fake_world \<Rightarrow> 'x fake_world option" where
  "chan_send sig ch w =
     (if length (fw_queue w ch) < fw_capacity w ch
      then Some (w\<lparr>fw_queue := (fw_queue w)(ch := fw_queue w ch @ [sig])\<rparr>) else None)"

definition EmitSignal ::
  "nat \<Rightarrow> string \<Rightarrow> string \<Rightarrow> string \<Rightarrow> string \<Rightarrow> dbus_value list \<Rightarrow> 'x fake_world \<Rightarrow> 'x fake_world option" where
  "EmitSignal conn name path iface signal args w =
     (let sig = \<lparr>sg_Sender = name, sg_Path = path, sg_Name = iface @ ''.'' @ signal, sg_Body = args\<rparr>
      in foldM (chan_send sig) (fc_signalHandlers (fw_conns w conn)) w)"

definition fakeObject_Call ::
  "'x fake_handlers \<Rightarrow> fakeObject option \<Rightarrow> string \<Rightarrow> nat \<Rightarrow> dbus_value list \<Rightarrow> 'x fake_world \<Rightarrow> (fakeCall \<times> 'x fake_world) option" where
  "fakeObject_Call handlers obj m flags args w =
     (case obj of
        None \<Rightarrow> None
      | Some ob \<Rightarrow> (let ((ret, err), w1) = handlers (fo_handler ob) m args w in Some (\<lparr>fk_ret = ret, fk_err = err\<rparr>, w1)))"

text \<open>\<^verbatim>\<open>godbus.Store\<close> is the parameter \<open>store\<close>.\<close>

definition fakeCall_Store :: "(dbus_value list \<Rightarrow> nat \<Rightarrow> go_error + dbus_value list) \<Rightarrow> fakeCall \<Rightarrow> nat \<Rightarrow> go_error + dbus_value list" where
  "fakeCall_Store store call n = (case fk_err call of Some err \<Rightarrow> Inl err | None \<Rightarrow> store (fk_ret call) n)"

definition DBusFake_Interface ::
  "(dbus_value list \<Rightarrow> nat \<Rightarrow> go_error + dbus_value list) \<Rightarrow> 'x fake_handlers \<Rightarrow> DBusFake \<Rightarrow>
   (nat, fakeObject option, fakeCall, 'x fake_world) dbus_Interface" where
  "DBusFake_Interface store handlers db =
     \<lparr>di_SystemBus = (\<lambda>w. (fake_SystemBus db, w)), di_SessionBus = (\<lambda>w. (fake_SessionBus db, w)),
      di_BusObject = (\<lambda>c w. fake_BusObject (fw_conns w c)),
      di_Object = (\<lambda>c name path w. fake_Object (fw_conns w c) name path),
      di_Signal = (\<lambda>c ch w. w\<lparr>fw_conns := (fw_conns w)(c := fake_Signal (fw_conns w c) ch)\<rparr>),
      di_Call = fakeObject_Call handlers, di_Store = fakeCall_Store store\<rparr>"

section \<open>What a bus promises\<close>

text \<open>
  \<open>reg c w\<close> are the channels that receive the signals of the connection \<open>c\<close>: \<^verbatim>\<open>Signal\<close> registers or unregisters
  a channel.  Connecting again gives the same connection, and neither connecting nor calling a method
  changes who is registered.
\<close>

definition toggle :: "'a \<Rightarrow> 'a set \<Rightarrow> 'a set" where
  "toggle x A = (if x \<in> A then A - {x} else insert x A)"

lemma toggle_toggle [simp]: "toggle x (toggle x A) = A"
  by (auto simp: toggle_def)

locale dbus_bus =
  fixes I :: "('c, 'o, 'k, 'w) dbus_Interface" and ok :: "'w \<Rightarrow> bool" and reg :: "'c \<Rightarrow> 'w \<Rightarrow> chan set"
  assumes system_bus: "ok w \<Longrightarrow> di_SystemBus I w = (r, w') \<Longrightarrow> ok w' \<and> reg c w' = reg c w"
    and system_bus_again: "ok w \<Longrightarrow> di_SystemBus I w = (Inr c, w') \<Longrightarrow> di_SystemBus I w' = (Inr c, w')"
    and signal: "ok w \<Longrightarrow> ok (di_Signal I c ch w) \<and> reg c (di_Signal I c ch w) = toggle ch (reg c w)"
    and signal_other: "ok w \<Longrightarrow> d \<noteq> c \<Longrightarrow> reg d (di_Signal I c ch w) = reg d w"
    and call: "ok w \<Longrightarrow> di_Call I ob m flags args w = Some (k, w') \<Longrightarrow> ok w' \<and> reg c w' = reg c w"
begin

lemma signal_twice: "ok w \<Longrightarrow> reg d (di_Signal I c ch (di_Signal I c ch w)) = reg d w"
  using signal signal_other by (cases "d = c") simp_all

end

section \<open>The fake is a bus\<close>

lemma cut_handler_None: "cut_handler ch hs = None \<longleftrightarrow> ch \<notin> set hs"
  by (induction hs) auto

lemma cut_handler_Some: "cut_handler ch hs = Some hs' \<Longrightarrow> ch \<in> set hs \<and> hs' = remove1 ch hs"
  by (induction hs arbitrary: hs') auto

lemma fake_Signal_handlers:
  "fc_signalHandlers (fake_Signal conn ch) =
     (if ch \<in> set (fc_signalHandlers conn) then remove1 ch (fc_signalHandlers conn) else fc_signalHandlers conn @ [ch])"
  using cut_handler_None [of ch "fc_signalHandlers conn"] cut_handler_Some [of ch "fc_signalHandlers conn"]
  by (auto simp: fake_Signal_def split: option.splits)

text \<open>Each channel is registered once.\<close>

definition fake_ok :: "'x fake_world \<Rightarrow> bool" where
  "fake_ok w \<longleftrightarrow> (\<forall>c. distinct (fc_signalHandlers (fw_conns w c)))"

definition fake_reg :: "nat \<Rightarrow> 'x fake_world \<Rightarrow> chan set" where
  "fake_reg c w = set (fc_signalHandlers (fw_conns w c))"

lemma fake_Signal_ok: "distinct (fc_signalHandlers conn) \<Longrightarrow> distinct (fc_signalHandlers (fake_Signal conn ch))"
  and fake_Signal_toggle: "distinct (fc_signalHandlers conn) \<Longrightarrow>
    set (fc_signalHandlers (fake_Signal conn ch)) = toggle ch (set (fc_signalHandlers conn))"
  by (auto simp: fake_Signal_handlers toggle_def distinct_remove1)

text \<open>The test code answers calls and may emit signals; it leaves the registrations alone.\<close>

locale fake_bus =
  fixes store :: "dbus_value list \<Rightarrow> nat \<Rightarrow> go_error + dbus_value list" and handlers :: "'x fake_handlers" and db :: DBusFake
  assumes handlers_conns: "handlers n m args w = (r, w') \<Longrightarrow> fw_conns w' = fw_conns w"

sublocale fake_bus \<subseteq> dbus_bus "DBusFake_Interface store handlers db" fake_ok fake_reg
proof
  fix w w' :: "'x fake_world" and c ch ob m flags args k
  assume ok: "fake_ok w"
  show "fake_ok (di_Signal (DBusFake_Interface store handlers db) c ch w) \<and>
      fake_reg c (di_Signal (DBusFake_Interface store handlers db) c ch w) = toggle ch (fake_reg c w)"
    using ok by (simp add: DBusFake_Interface_def fake_ok_def fake_reg_def fake_Signal_ok fake_Signal_toggle)
  assume "di_Call (DBusFake_Interface store handlers db) ob m flags args w = Some (k, w')"
  then show "fake_ok w' \<and> fake_reg c w' = fake_reg c w"
    using ok by (auto simp: DBusFake_Interface_def fakeObject_Call_def Let_def fake_ok_def fake_reg_def
        dest: handlers_conns split: option.splits prod.splits)
qed (auto simp: DBusFake_Interface_def fake_reg_def)

section \<open>The implementation is a bus\<close>

text \<open>What is relied on of godbus.\<close>

locale godbus_bus =
  fixes g :: "('c, 'o, 'k, 'w) godbus" and ok :: "'w \<Rightarrow> bool" and reg :: "'c \<Rightarrow> 'w \<Rightarrow> chan set"
  assumes g_connect: "ok w \<Longrightarrow> gd_SystemBus g w = (r, w') \<Longrightarrow> ok w' \<and> reg c w' = reg c w"
    and g_signal: "ok w \<Longrightarrow> ok (gd_Signal g c ch w) \<and> reg c (gd_Signal g c ch w) = toggle ch (reg c w)"
    and g_signal_other: "ok w \<Longrightarrow> d \<noteq> c \<Longrightarrow> reg d (gd_Signal g c ch w) = reg d w"
    and g_call: "ok w \<Longrightarrow> gd_Call g ob m flags args w = (k, w') \<Longrightarrow> ok w' \<and> reg c w' = reg c w"

lemmas dbusImpl_defs = dbusImpl_Interface_def SystemBus_def connImpl_Signal_def objectImpl_Call_def

sublocale godbus_bus \<subseteq> dbus_bus "dbusImpl_Interface g" "\<lambda>s. ok (snd s)" "\<lambda>c s. reg (ci_conn c) (snd s)"
proof
  fix s s' :: "'c dbusImpl \<times> 'w" and r and c d :: "'c connImpl" and ch ob m flags args k
  assume ok: "ok (snd s)"
  obtain db w where s: "s = (db, w)" by (cases s)
  show "ok (snd s') \<and> reg (ci_conn c) (snd s') = reg (ci_conn c) (snd s)" if "di_SystemBus (dbusImpl_Interface g) s = (r, s')"
    using that ok g_connect [of w] by (auto simp: dbusImpl_defs s Let_def split: option.splits prod.splits sum.splits)
  show "di_SystemBus (dbusImpl_Interface g) s' = (Inr c, s')" if "di_SystemBus (dbusImpl_Interface g) s = (Inr c, s')"
    using that by (auto simp: dbusImpl_defs s Let_def split: option.splits prod.splits sum.splits)
  show "ok (snd s') \<and> reg (ci_conn c) (snd s') = reg (ci_conn c) (snd s)"
    if "di_Call (dbusImpl_Interface g) ob m flags args s = Some (k, s')"
    using that ok g_call [of w] by (auto simp: dbusImpl_defs s Let_def split: prod.splits)
  show "reg (ci_conn d) (snd (di_Signal (dbusImpl_Interface g) c ch s)) = reg (ci_conn d) (snd s)" if "d \<noteq> c"
    using that ok g_signal_other [of w] by (cases c; cases d) (simp add: dbusImpl_defs s)
qed (auto simp: dbusImpl_defs g_signal split: prod.splits)

text \<open>Test code that only answers, and godbus played by the fake.\<close>

definition answering :: "(string \<Rightarrow> dbus_value list \<times> go_error option) \<Rightarrow> 'x fake_handlers" where
  "answering answer n m args w = (answer m, w)"

definition fake_godbus ::
  "(dbus_value list \<Rightarrow> nat \<Rightarrow> go_error + dbus_value list) \<Rightarrow> (string \<Rightarrow> dbus_value list \<times> go_error option) \<Rightarrow> DBusFake \<Rightarrow>
   (nat, fakeObject option, fakeCall, 'x fake_world) godbus" where
  "fake_godbus store answer db =
     \<lparr>gd_SystemBus = (\<lambda>w. (fake_SystemBus db, w)), gd_SessionBus = (\<lambda>w. (fake_SessionBus db, w)),
      gd_BusObject = (\<lambda>c w. fake_BusObject (fw_conns w c)),
      gd_Object = (\<lambda>c name path w. fake_Object (fw_conns w c) name path),
      gd_Signal = (\<lambda>c ch w. w\<lparr>fw_conns := (fw_conns w)(c := fake_Signal (fw_conns w c) ch)\<rparr>),
      gd_Call = (\<lambda>ob m flags args w. (\<lparr>fk_ret = fst (answer m), fk_err = snd (answer m)\<rparr>, w)),
      gd_Call_Store = fakeCall_Store store\<rparr>"

interpretation answering: fake_bus store "answering answer" db for store answer db
  by unfold_locales (simp add: answering_def)

interpretation fake_godbus: godbus_bus "fake_godbus store answer db" fake_ok fake_reg for store answer db
  by unfold_locales
    (auto simp: fake_godbus_def fake_ok_def fake_reg_def fake_Signal_ok fake_Signal_toggle)

section \<open>Signals on the fake\<close>

text \<open>A signal reaches every registered channel once and no other; it waits when one of them is full.\<close>

lemma chan_send_Some:
  "chan_send sig ch w = Some w' \<longleftrightarrow>
     length (fw_queue w ch) < fw_capacity w ch \<and> w' = w\<lparr>fw_queue := (fw_queue w)(ch := fw_queue w ch @ [sig])\<rparr>"
  by (auto simp: chan_send_def)

lemma send_all:
  assumes "distinct chs"
  shows "foldM (chan_send sig) chs w =
    (if \<forall>ch \<in> set chs. length (fw_queue w ch) < fw_capacity w ch
     then Some (w\<lparr>fw_queue := (\<lambda>ch. if ch \<in> set chs then fw_queue w ch @ [sig] else fw_queue w ch)\<rparr>) else None)"
  using assms
proof (induction chs arbitrary: w)
  case (Cons ch chs)
  show ?case
  proof (cases "length (fw_queue w ch) < fw_capacity w ch")
    case True
    let ?w = "w\<lparr>fw_queue := (fw_queue w)(ch := fw_queue w ch @ [sig])\<rparr>"
    from True have s: "chan_send sig ch w = Some ?w" by (simp add: chan_send_def)
    have "(\<forall>c \<in> set chs. length (fw_queue ?w c) < fw_capacity ?w c) \<longleftrightarrow> (\<forall>c \<in> set chs. length (fw_queue w c) < fw_capacity w c)"
      using Cons.prems by auto
    moreover have "(\<lambda>c. if c \<in> set chs then fw_queue ?w c @ [sig] else fw_queue ?w c) =
        (\<lambda>c. if c \<in> set (ch # chs) then fw_queue w c @ [sig] else fw_queue w c)"
      using Cons.prems by (auto simp: fun_eq_iff)
    ultimately show ?thesis using Cons.IH [of ?w] Cons.prems True s by simp
  qed (simp add: chan_send_def)
qed simp

text \<open>
  \<^verbatim>\<open>EmitSignal\<close> of the fake.  The signal is appended to the queue of every registered channel, once, and to no
  other queue; when one of these channels is full the sender waits.
\<close>

theorem EmitSignal_delivers:
  assumes "fake_ok w"
  shows "EmitSignal c name path iface signal args w =
    (if \<exists>ch \<in> fake_reg c w. length (fw_queue w ch) \<ge> fw_capacity w ch then None
     else Some (w\<lparr>fw_queue := (\<lambda>ch. if ch \<in> fake_reg c w
       then fw_queue w ch @ [\<lparr>sg_Sender = name, sg_Path = path, sg_Name = iface @ ''.'' @ signal, sg_Body = args\<rparr>]
       else fw_queue w ch)\<rparr>))"
  using assms by (auto simp: EmitSignal_def Let_def send_all fake_ok_def fake_reg_def not_le cong: if_cong)

section \<open>One connection per bus\<close>

text \<open>Calls of \<^verbatim>\<open>SystemBus\<close> (true) and \<^verbatim>\<open>SessionBus\<close> (false), and their results.\<close>

fun bus_calls ::
  "('c, 'o, 'k, 'w) godbus \<Rightarrow> bool list \<Rightarrow> 'c dbusImpl \<times> 'w \<Rightarrow> (go_error + 'c connImpl) list" where
  "bus_calls g [] s = []"
| "bus_calls g (b # bs) s = (let (r, s1) = (if b then SystemBus g s else SessionBus g s) in r # bus_calls g bs s1)"

definition cached :: "bool \<Rightarrow> 'c dbusImpl \<Rightarrow> 'c connImpl option" where
  "cached b db = (if b then im_systemBus db else im_sessionBus db)"

lemma bus_step:
  assumes "(if b then SystemBus g s else SessionBus g s) = (r, s1)"
  shows "cached b (fst s1) = (case r of Inl e \<Rightarrow> None | Inr c \<Rightarrow> Some c)" and "cached (\<not> b) (fst s1) = cached (\<not> b) (fst s)"
    and "cached b (fst s) = Some c \<Longrightarrow> r = Inr c"
  using assms
  by (auto simp: SystemBus_def SessionBus_def cached_def Let_def split: prod.splits option.splits sum.splits if_splits)

lemma bus_calls_length [simp]: "length (bus_calls g bs s) = length bs"
  by (induction bs arbitrary: s) (auto split: prod.splits)

lemma bus_calls_cached:
  assumes "cached b (fst s) = Some c" and "j < length bs" and "bs ! j = b"
  shows "bus_calls g bs s ! j = Inr c"
  using assms
proof (induction bs arbitrary: s j)
  case (Cons b' bs)
  obtain r s1 where s1: "(if b' then SystemBus g s else SessionBus g s) = (r, s1)" by (metis surj_pair)
  note st = bus_step [OF s1]
  show ?case
  proof (cases j)
    case 0
    with Cons.prems s1 st(3) show ?thesis by (simp add: Let_def split_beta)
  next
    case (Suc i)
    have "cached b (fst s1) = Some c"
      using Cons.prems(1) st by (cases "b = b'") (auto split: sum.splits)
    from Cons.IH [OF this, of i] Cons.prems Suc s1 show ?thesis by (simp add: split_beta)
  qed
qed simp

text \<open>
  Whatever the sequence of calls and whatever godbus answers: once a call has returned a connection to a bus, every
  later call for that bus returns the same one; an error is not remembered.
\<close>

theorem bus_connection_reused:
  assumes "i < j" and "j < length bs" and "bs ! i = bs ! j" and "bus_calls g bs (dbus_New, w) ! i = Inr c"
  shows "bus_calls g bs (dbus_New, w) ! j = Inr c"
proof -
  have "bus_calls g bs s ! j = Inr c" if "bus_calls g bs s ! i = Inr c" for s
    using that assms(1-3)
  proof (induction bs arbitrary: s i j)
    case (Cons b bs)
    obtain r s1 where s1: "(if b then SystemBus g s else SessionBus g s) = (r, s1)" by (metis surj_pair)
    obtain j' where j: "j = Suc j'" using Cons.prems(2) by (cases j) simp_all
    show ?case
    proof (cases i)
      case 0
      with Cons.prems(1) s1 have "r = Inr c" by (simp add: Let_def)
      with bus_step(1) [OF s1] have "cached b (fst s1) = Some c" by simp
      from bus_calls_cached [OF this, of j' bs g] Cons.prems 0 j s1 show ?thesis by (simp add: Let_def)
    next
      case (Suc i')
      with Cons.IH [of s1 i' j'] Cons.prems j s1 show ?thesis by (simp add: Let_def)
    qed
  qed simp
  with assms(4) show ?thesis by blast
qed

text \<open>A bus that cannot be reached at first and then gives a new connection at every try.\<close>

definition ex_godbus :: "(nat, unit, unit, nat) godbus" where
  "ex_godbus = \<lparr>gd_SystemBus = (\<lambda>n. (if n = 0 then Inl ''no such file or directory'' else Inr n, Suc n)),
     gd_SessionBus = (\<lambda>n. (Inr n, Suc n)), gd_BusObject = (\<lambda>_ _. ()), gd_Object = (\<lambda>_ _ _ _. ()), gd_Signal = (\<lambda>_ _ n. n),
     gd_Call = (\<lambda>_ _ _ _ n. ((), n)), gd_Call_Store = (\<lambda>_ _. Inr [])\<rparr>"

theorem bus_connection_reused_witness:
  "bus_calls ex_godbus [True, True, False, True] (dbus_New, 0) ! 0 = Inl ''no such file or directory'' \<and>
   bus_calls ex_godbus [True, True, False, True] (dbus_New, 0) ! 3 = Inr (connImpl 1)"
proof -
  have r: "bus_calls ex_godbus [True, True, False, True] (dbus_New, 0) ! 0 = Inl ''no such file or directory''"
    "bus_calls ex_godbus [True, True, False, True] (dbus_New, 0) ! 1 = Inr (connImpl 1)"
    by (simp_all add: ex_godbus_def SystemBus_def SessionBus_def dbus_New_def)
  then show ?thesis using bus_connection_reused [of 1 3 "[True, True, False, True]" ex_godbus 0 "connImpl 1"] by simp
qed

text \<open>Two channels are registered, a third one is not.\<close>

definition ex_fake :: "nat list fake_world" where
  "ex_fake = \<lparr>fw_conns = (\<lambda>_. \<lparr>fc_busObject = Some \<lparr>fo_handler = 0\<rparr>,
       fc_objects = [(''org.fedoraproject.FirewallD1/org/fedoraproject/FirewallD1'', \<lparr>fo_handler = 1\<rparr>)],
       fc_signalHandlers = [4, 5]\<rparr>), fw_queue = (\<lambda>_. []), fw_capacity = (\<lambda>_. 10), fw_test = []\<rparr>"

theorem EmitSignal_delivers_witness:
  "\<exists>w. EmitSignal 0 ''a'' ''/b'' ''c'' ''Reloaded'' [] ex_fake = Some w \<and> map sg_Name (fw_queue w 4) = [''c.Reloaded''] \<and>
    fw_queue w 5 = fw_queue w 4 \<and> fw_queue w 6 = []"
proof -
  have "fake_ok ex_fake" by (simp add: fake_ok_def ex_fake_def)
  from EmitSignal_delivers [OF this, of 0 "''a''" "''/b''" "''c''" "''Reloaded''" "[]"] show ?thesis
    by (simp add: fake_reg_def ex_fake_def)
qed

end
