(* ===== verification/Iptables_Runner.thy ===== *)
theory Iptables_Runner
  imports Version_Util Dbus
begin

text \<open>
  src/pkg/util/iptables/iptables.go and iptables_linux.go: the runner that manages rules and chains through
  the iptables commands, with its version checks, the locks around iptables-restore and the reaction
  to FirewallD.  Running commands, files and sockets are parameters; D-Bus is the interface of the theory Dbus.
  The mutex makes every operation atomic; \<open>None\<close> is a panic.
\<close>

section \<open>Environment\<close>

text \<open>An error of a command: an exit error (did it exit, the status, the text) or any other.\<close>

datatype exec_error = ExitError bool int string | ExecError string

fun exec_error_String :: "exec_error \<Rightarrow> string" where
  "exec_error_String (ExitError exited status msg) = msg"
| "exec_error_String (ExecError msg) = msg"

text \<open>\<open>xe_CombinedOutput cmd args stdin\<close>; \<^verbatim>\<open>Run\<close> with both outputs sent to a buffer gives the same.\<close>

type_synonym 'w command_exec =
  "string \<Rightarrow> string list \<Rightarrow> string option \<Rightarrow> 'w \<Rightarrow> (string \<times> exec_error option) \<times> 'w"

record 'w lock_os =
  lk_OpenFile :: "string \<Rightarrow> 'w \<Rightarrow> (go_error + nat) \<times> 'w"
  lk_Flock :: "nat \<Rightarrow> 'w \<Rightarrow> go_error option \<times> 'w"
  lk_ListenUnix :: "string \<Rightarrow> 'w \<Rightarrow> (go_error + nat) \<times> 'w"
  lk_CloseFile :: "nat \<Rightarrow> 'w \<Rightarrow> go_error option \<times> 'w"
  lk_CloseListener :: "nat \<Rightarrow> 'w \<Rightarrow> go_error option \<times> 'w"


section \<open>Data\<close>

datatype RulePosition = Prepend | Append

definition position_op :: "RulePosition \<Rightarrow> string" where
  "position_op p = (case p of Prepend \<Rightarrow> ''-I'' | Append \<Rightarrow> ''-A'')"

datatype ipt_protocol = ProtocolIpv4 | ProtocolIpv6

definition cmdIPTablesSave :: string where "cmdIPTablesSave = ''iptables-save''"
definition cmdIPTablesRestore :: string where "cmdIPTablesRestore = ''iptables-restore''"
definition cmdIPTables :: string where "cmdIPTables = ''iptables''"
definition cmdIp6tables :: string where "cmdIp6tables = ''ip6tables''"
definition MinCheckVersion :: string where "MinCheckVersion = ''1.4.11''"
definition MinWaitVersion :: string where "MinWaitVersion = ''1.4.20''"
definition MinWait2Version :: string where "MinWait2Version = ''1.4.22''"
definition LockfilePath16x :: string where "LockfilePath16x = ''/run/xtables.lock''"

record 'w runner =
  ru_protocol :: ipt_protocol
  ru_hasCheck :: bool
  ru_waitFlag :: "string list"
  ru_restoreWaitFlag :: "string list"
  ru_lockfilePath :: string
  ru_reloadFuncs :: "('w \<Rightarrow> 'w) list"
  ru_signal :: "chan option"

section \<open>Versions\<close>

text \<open>The leftmost match of a v followed by at least two dotted numbers.\<close>

fun dotted_version :: "string \<Rightarrow> string option" where
  "dotted_version [] = None"
| "dotted_version (c # s) =
     (if c = CHR ''v'' \<and> takeWhile is_digit s \<noteq> [] \<and> CHR ''.'' \<in> set (fst (num_prefix s))
      then Some (fst (num_prefix s)) else dotted_version s)"

definition version_of_output :: "string \<times> exec_error option \<Rightarrow> exec_error + string" where
  "version_of_output r =
     (case r of
        (out, Some err) \<Rightarrow> Inl err
      | (out, None) \<Rightarrow>
          (case dotted_version out of
             None \<Rightarrow> Inl (ExecError (''no iptables version found in string: '' @ out))
           | Some v \<Rightarrow> Inr v))"

definition getIPTablesVersionString :: "'w command_exec \<Rightarrow> 'w \<Rightarrow> (exec_error + string) \<times> 'w" where
  "getIPTablesVersionString exec w =
     (let (r, w1) = exec cmdIPTables [''--version''] None w in (version_of_output r, w1))"

definition getIPTablesRestoreVersionString :: "'w command_exec \<Rightarrow> 'w \<Rightarrow> (exec_error + string) \<times> 'w" where
  "getIPTablesRestoreVersionString exec w =
     (let (r, w1) = exec cmdIPTablesRestore [''--version''] (Some '''') w in (version_of_output r, w1))"

definition getIPTablesHasCheckCommand :: "string \<Rightarrow> bool" where
  "getIPTablesHasCheckCommand vstring =
     (case ParseGeneric MinCheckVersion of
        Inl err \<Rightarrow> True
      | Inr minVersion \<Rightarrow>
          (case ParseGeneric vstring of
             Inl err \<Rightarrow> True
           | Inr version \<Rightarrow> AtLeast version minVersion))"

definition getIPTablesWaitFlag :: "string \<Rightarrow> string list" where
  "getIPTablesWaitFlag vstring =
     (case ParseGeneric vstring of
        Inl err \<Rightarrow> []
      | Inr version \<Rightarrow>
          (case ParseGeneric MinWaitVersion of
             Inl err \<Rightarrow> []
           | Inr minVersion \<Rightarrow>
               if LessThan version minVersion then []
               else (case ParseGeneric MinWait2Version of
                       Inl err \<Rightarrow> []
                     | Inr minVersion2 \<Rightarrow> if LessThan version minVersion2 then [''-w''] else [''-w2''])))"

definition getIPTablesRestoreWaitFlag :: "'w command_exec \<Rightarrow> 'w \<Rightarrow> string list \<times> 'w" where
  "getIPTablesRestoreWaitFlag exec w =
     (case getIPTablesRestoreVersionString exec w of
        (Inl err, w1) \<Rightarrow> ([], w1)
      | (Inr vstring, w1) \<Rightarrow>
          (if vstring = '''' then []
           else (case ParseGeneric vstring of Inl err \<Rightarrow> [] | Inr _ \<Rightarrow> [''--wait=2'']), w1))"

section \<open>Creation and FirewallD\<close>

definition firewalldName :: string where "firewalldName = ''org.fedoraproject.FirewallD1''"
definition firewalldPath :: string where "firewalldPath = ''/org/fedoraproject/FirewallD1''"
definition firewalldInterface :: string where "firewalldInterface = ''org.fedoraproject.FirewallD1''"

definition sq :: "string \<Rightarrow> string" where "sq s = [CHR 0x27] @ s @ [CHR 0x27]"

definition reloaded_rule :: string where
  "reloaded_rule = ''type='' @ sq ''signal'' @ '',sender='' @ sq firewalldName @ '',path='' @ sq firewalldPath @
     '',interface='' @ sq firewalldInterface @ '',member='' @ sq ''Reloaded''"

definition owner_rule :: string where
  "owner_rule = ''type='' @ sq ''signal'' @ '',interface='' @ sq ''org.freedesktop.DBus'' @ '',member='' @
     sq ''NameOwnerChanged'' @ '',path='' @ sq ''/org/freedesktop/DBus'' @ '',sender='' @ sq ''org.freedesktop.DBus'' @
     '',arg0='' @ sq firewalldName"

text \<open>
  \<open>ch\<close> is the channel that \<^verbatim>\<open>make\<close> returns.  With the runner comes the connection on which the goroutine
  \<^verbatim>\<open>dbusSignalHandler\<close> was started, if it was.
\<close>

definition connectToFirewallD ::
  "('c, 'o, 'k, 'w) dbus_Interface \<Rightarrow> chan \<Rightarrow> 'w runner \<Rightarrow> 'w \<Rightarrow> (('w runner \<times> 'c option) \<times> 'w) option" where
  "connectToFirewallD dbus ch runner w =
     (case di_SystemBus dbus w of
        (Inl err, w1) \<Rightarrow> Some ((runner, None), w1)
      | (Inr bus, w1) \<Rightarrow>
          do {
            (_, w2) \<leftarrow> di_Call dbus (di_BusObject dbus bus w1) ''org.freedesktop.DBus.AddMatch'' 0 [DString reloaded_rule] w1;
            (_, w3) \<leftarrow> di_Call dbus (di_BusObject dbus bus w2) ''org.freedesktop.DBus.AddMatch'' 0 [DString owner_rule] w2;
            Some ((runner\<lparr>ru_signal := Some ch\<rparr>, Some bus), di_Signal dbus bus ch w3)
          })"

definition newInternal ::
  "'w command_exec \<Rightarrow> ('c, 'o, 'k, 'w) dbus_Interface \<Rightarrow> chan \<Rightarrow> ipt_protocol \<Rightarrow> string \<Rightarrow> 'w \<Rightarrow>
   (('w runner \<times> 'c option) \<times> 'w) option" where
  "newInternal exec dbus ch protocol lockfilePath w =
     (let (r, w1) = getIPTablesVersionString exec w;
          vstring = (case r of Inl err \<Rightarrow> MinCheckVersion | Inr v \<Rightarrow> v);
          (restoreWait, w2) = getIPTablesRestoreWaitFlag exec w1
      in connectToFirewallD dbus ch
           \<lparr>ru_protocol = protocol, ru_hasCheck = getIPTablesHasCheckCommand vstring,
            ru_waitFlag = getIPTablesWaitFlag vstring, ru_restoreWaitFlag = restoreWait,
            ru_lockfilePath = (if lockfilePath = '''' then LockfilePath16x else lockfilePath),
            ru_reloadFuncs = [], ru_signal = None\<rparr> w2)"

definition runner_New ::
  "'w command_exec \<Rightarrow> ('c, 'o, 'k, 'w) dbus_Interface \<Rightarrow> chan \<Rightarrow> ipt_protocol \<Rightarrow> 'w \<Rightarrow> (('w runner \<times> 'c option) \<times> 'w) option" where
  "runner_New exec dbus ch protocol = newInternal exec dbus ch protocol ''''"

definition GetVersion :: "'w command_exec \<Rightarrow> 'w \<Rightarrow> (exec_error + string) \<times> 'w" where
  "GetVersion exec w = getIPTablesVersionString exec w"

definition AddReloadFunc :: "('w \<Rightarrow> 'w) \<Rightarrow> 'w runner \<Rightarrow> 'w runner" where
  "AddReloadFunc reloadFunc runner = runner\<lparr>ru_reloadFuncs := ru_reloadFuncs runner @ [reloadFunc]\<rparr>"

definition reload :: "'w runner \<Rightarrow> 'w \<Rightarrow> 'w" where
  "reload runner w = fold (\<lambda>f w. f w) (ru_reloadFuncs runner) w"

text \<open>A type assertion \<^verbatim>\<open>s.Body[i].(string)\<close>.\<close>

definition body_string :: "dbus_value list \<Rightarrow> nat \<Rightarrow> string option" where
  "body_string body i =
     (if i < length body then (case body ! i of DString s \<Rightarrow> Some s | DOther \<Rightarrow> None) else None)"

definition handle_signal ::
  "('c, 'o, 'k, 'w) dbus_Interface \<Rightarrow> 'o \<Rightarrow> 'w runner \<Rightarrow> dbus_signal \<Rightarrow> 'w \<Rightarrow> 'w option" where
  "handle_signal dbus firewalld runner s w =
     (if sg_Name s = ''org.freedesktop.DBus.NameOwnerChanged'' then
        (case (body_string (sg_Body s) 0, body_string (sg_Body s) 2) of
           (Some name, Some new_owner) \<Rightarrow>
             (if name \<noteq> firewalldName \<or> length new_owner = 0 then Some w
              else (case di_Call dbus firewalld (firewalldInterface @ ''.getDefaultZone'') 0 [] w of
                      None \<Rightarrow> None
                    | Some (_, w1) \<Rightarrow> Some (reload runner w1)))
         | _ \<Rightarrow> None)
      else if sg_Name s = firewalldInterface @ ''.Reloaded'' then Some (reload runner w)
      else Some w)"

text \<open>The loop over the signals that are received; a nil signal asks it to stop.\<close>

fun signal_loop ::
  "('c, 'o, 'k, 'w) dbus_Interface \<Rightarrow> 'c \<Rightarrow> 'o \<Rightarrow> chan \<Rightarrow> 'w runner \<Rightarrow> dbus_signal option list \<Rightarrow> 'w \<Rightarrow> 'w option" where
  "signal_loop dbus bus firewalld ch runner [] w = Some w"
| "signal_loop dbus bus firewalld ch runner (None # ss) w = Some (di_Signal dbus bus ch w)"
| "signal_loop dbus bus firewalld ch runner (Some s # ss) w =
     Option.bind (handle_signal dbus firewalld runner s w) (signal_loop dbus bus firewalld ch runner ss)"

definition dbusSignalHandler ::
  "('c, 'o, 'k, 'w) dbus_Interface \<Rightarrow> 'c \<Rightarrow> chan \<Rightarrow> 'w runner \<Rightarrow> dbus_signal option list \<Rightarrow> 'w \<Rightarrow> 'w option" where
  "dbusSignalHandler dbus bus ch runner ss w =
     signal_loop dbus bus (di_Object dbus bus firewalldName firewalldPath w) ch runner ss w"

text \<open>\<^verbatim>\<open>Destroy\<close> sends nil to the handler, if there is one.\<close>

definition Destroy :: "'w runner \<Rightarrow> dbus_signal option list \<Rightarrow> dbus_signal option list" where
  "Destroy runner queue = (if ru_signal runner \<noteq> None then queue @ [None] else queue)"

section \<open>Running iptables\<close>

definition IsIpv6 :: "'w runner \<Rightarrow> bool" where "IsIpv6 runner \<longleftrightarrow> ru_protocol runner = ProtocolIpv6"

definition iptablesCommand :: "'w runner \<Rightarrow> string" where
  "iptablesCommand runner = (if IsIpv6 runner then cmdIp6tables else cmdIPTables)"

definition runner_run ::
  "'w command_exec \<Rightarrow> 'w runner \<Rightarrow> string \<Rightarrow> string list \<Rightarrow> 'w \<Rightarrow> (string \<times> exec_error option) \<times> 'w" where
  "runner_run exec runner op args w = exec (iptablesCommand runner) (ru_waitFlag runner @ [op] @ args) None w"

definition makeFullArgs :: "string \<Rightarrow> string \<Rightarrow> string list \<Rightarrow> string list" where
  "makeFullArgs table chain args = [chain, ''-t'', table] @ args"

definition exited_1 :: "exec_error \<Rightarrow> bool" where
  "exited_1 err = (case err of ExitError exited status _ \<Rightarrow> exited \<and> status = 1 | ExecError _ \<Rightarrow> False)"

definition wrap_error :: "string \<Rightarrow> exec_error \<Rightarrow> string \<Rightarrow> go_error" where
  "wrap_error what err out = what @ '': '' @ exec_error_String err @ '': '' @ out"

definition EnsureChain ::
  "'w command_exec \<Rightarrow> 'w runner \<Rightarrow> string \<Rightarrow> string \<Rightarrow> 'w \<Rightarrow> (bool \<times> go_error option) \<times> 'w" where
  "EnsureChain exec runner table chain w =
     (case runner_run exec runner ''-N'' (makeFullArgs table chain []) w of
        ((out, Some err), w1) \<Rightarrow>
          ((if exited_1 err then (True, None)
            else (False, Some (wrap_error (''error creating chain '' @ Quote chain) err out))), w1)
      | ((out, None), w1) \<Rightarrow> ((False, None), w1))"

definition FlushChain :: "'w command_exec \<Rightarrow> 'w runner \<Rightarrow> string \<Rightarrow> string \<Rightarrow> 'w \<Rightarrow> go_error option \<times> 'w" where
  "FlushChain exec runner table chain w =
     (case runner_run exec runner ''-F'' (makeFullArgs table chain []) w of
        ((out, Some err), w1) \<Rightarrow> (Some (wrap_error (''error flushing chain '' @ Quote chain) err out), w1)
      | ((out, None), w1) \<Rightarrow> (None, w1))"

definition runner_DeleteChain :: "'w command_exec \<Rightarrow> 'w runner \<Rightarrow> string \<Rightarrow> string \<Rightarrow> 'w \<Rightarrow> go_error option \<times> 'w" where
  "runner_DeleteChain exec runner table chain w =
     (case runner_run exec runner ''-X'' (makeFullArgs table chain []) w of
        ((out, Some err), w1) \<Rightarrow> (Some (wrap_error (''error deleting chain '' @ Quote chain) err out), w1)
      | ((out, None), w1) \<Rightarrow> (None, w1))"

section \<open>Checking a rule\<close>

text \<open>Every match of 0x, zeros and a digit loses its zeros.\<close>

function trimhex :: "string \<Rightarrow> string" where
  "trimhex s =
     (case s of
        c # d # r \<Rightarrow>
          (if c = CHR ''0'' \<and> d = CHR ''x'' then
             (let zs = takeWhile (\<lambda>x. x = CHR ''0'') r; e = dropWhile (\<lambda>x. x = CHR ''0'') r in
              if zs \<noteq> [] \<and> e \<noteq> [] \<and> is_digit (hd e) then ''0x'' @ [hd e] @ trimhex (tl e)
              else if length zs \<ge> 2 then ''0x0'' @ trimhex e
              else c # trimhex (d # r))
           else c # trimhex (d # r))
      | _ \<Rightarrow> s)"
  by pat_completeness auto
termination
proof (relation "measure length")
  have le: "length (dropWhile P r) \<le> length (r :: string)" for P r by (rule length_dropWhile_le)
  show "(tl e, s) \<in> measure length" "(e, s) \<in> measure length"
    if "s = c # l" "l = d # r" "e = dropWhile (\<lambda>x. x = CHR ''0'') r" for s l r e :: string and c d
    using that le [of "\<lambda>x. x = CHR ''0''" r] by simp_all
qed auto

declare trimhex.simps [simp del]

definition dquote :: string where "dquote = [CHR 0x22]"

definition rule_words :: "string list \<Rightarrow> string list" where
  "rule_words args = concat (map (\<lambda>a. Fields (trimhex (Trim a dquote))) args)"

definition line_matches :: "string \<Rightarrow> string list \<Rightarrow> string \<Rightarrow> bool" where
  "line_matches chain argsCopy line =
     (let fields = Fields line in
      if \<not> HasPrefix line (''-A '' @ chain) \<or> length fields \<noteq> length argsCopy + 2 then False
      else set argsCopy \<subseteq> set (map (\<lambda>f. trimhex (Trim f dquote)) fields))"

definition checkRuleWithoutCheck ::
  "'w command_exec \<Rightarrow> string \<Rightarrow> string \<Rightarrow> string list \<Rightarrow> 'w \<Rightarrow> (bool \<times> go_error option) \<times> 'w" where
  "checkRuleWithoutCheck exec table chain args w =
     (case exec cmdIPTablesSave [''-t'', table] None w of
        ((out, Some err), w1) \<Rightarrow> ((False, Some (''error checking rule: '' @ exec_error_String err)), w1)
      | ((out, None), w1) \<Rightarrow>
          ((list_ex (line_matches chain (rule_words args)) (split_on CHR 0x0A out), None), w1))"

definition checkRuleUsingCheck ::
  "'w command_exec \<Rightarrow> 'w runner \<Rightarrow> string list \<Rightarrow> 'w \<Rightarrow> (bool \<times> go_error option) \<times> 'w" where
  "checkRuleUsingCheck exec runner args w =
     (case runner_run exec runner ''-C'' args w of
        ((out, None), w1) \<Rightarrow> ((True, None), w1)
      | ((out, Some err), w1) \<Rightarrow>
          ((False, if exited_1 err then None else Some (wrap_error ''error checking rule'' err out)), w1))"

definition checkRule ::
  "'w command_exec \<Rightarrow> 'w runner \<Rightarrow> string \<Rightarrow> string \<Rightarrow> string list \<Rightarrow> 'w \<Rightarrow> (bool \<times> go_error option) \<times> 'w" where
  "checkRule exec runner table chain args w =
     (if ru_hasCheck runner then checkRuleUsingCheck exec runner (makeFullArgs table chain args) w
      else checkRuleWithoutCheck exec table chain args w)"

definition EnsureRule ::
  "'w command_exec \<Rightarrow> 'w runner \<Rightarrow> RulePosition \<Rightarrow> string \<Rightarrow> string \<Rightarrow> string list \<Rightarrow> 'w \<Rightarrow> (bool \<times> go_error option) \<times> 'w"
  where
  "EnsureRule exec runner position table chain args w =
     (case checkRule exec runner table chain args w of
        ((_, Some err), w1) \<Rightarrow> ((False, Some err), w1)
      | ((True, None), w1) \<Rightarrow> ((True, None), w1)
      | ((False, None), w1) \<Rightarrow>
          (case runner_run exec runner (position_op position) (makeFullArgs table chain args) w1 of
             ((out, Some err), w2) \<Rightarrow> ((False, Some (wrap_error ''error appending rule'' err out)), w2)
           | ((out, None), w2) \<Rightarrow> ((False, None), w2)))"

definition DeleteRule ::
  "'w command_exec \<Rightarrow> 'w runner \<Rightarrow> string \<Rightarrow> string \<Rightarrow> string list \<Rightarrow> 'w \<Rightarrow> go_error option \<times> 'w" where
  "DeleteRule exec runner table chain args w =
     (case checkRule exec runner table chain args w of
        ((_, Some err), w1) \<Rightarrow> (Some err, w1)
      | ((False, None), w1) \<Rightarrow> (None, w1)
      | ((True, None), w1) \<Rightarrow>
          (case runner_run exec runner ''-D'' (makeFullArgs table chain args) w1 of
             ((out, Some err), w2) \<Rightarrow> (Some (wrap_error ''error deleting rule'' err out), w2)
           | ((out, None), w2) \<Rightarrow> (None, w2)))"

text \<open>\<^verbatim>\<open>SaveInto\<close> appends what the command prints to the buffer, also when it fails.\<close>

definition SaveInto :: "'w command_exec \<Rightarrow> string \<Rightarrow> string \<Rightarrow> 'w \<Rightarrow> (exec_error option \<times> string) \<times> 'w" where
  "SaveInto exec table buffer w =
     (let ((out, err), w1) = exec cmdIPTablesSave [''-t'', table] None w in ((err, buffer @ out), w1))"

definition IsNotFoundError :: "go_error \<Rightarrow> bool" where
  "IsNotFoundError es =
     (if Contains es ''No such file or directory'' then True
      else if Contains es ''No chain/target/match by that name'' then True
      else False)"

section \<open>The locks of iptables-restore\<close>

record locker =
  lo_lock16 :: "nat option"
  lo_lock14 :: "nat option"

text \<open>The errors of both closes; \<open>[]\<close> is the nil aggregate.\<close>

definition locker_Close :: "'w lock_os \<Rightarrow> locker \<Rightarrow> 'w \<Rightarrow> go_error list \<times> 'w" where
  "locker_Close os l w =
     (let (errs, w1) = (case lo_lock16 l of
            None \<Rightarrow> ([], w)
          | Some f \<Rightarrow> (case lk_CloseFile os f w of (Some err, w') \<Rightarrow> ([err], w') | (None, w') \<Rightarrow> ([], w')))
      in case lo_lock14 l of
           None \<Rightarrow> (errs, w1)
         | Some s \<Rightarrow> (case lk_CloseListener os s w1 of (Some err, w') \<Rightarrow> (errs @ [err], w') | (None, w') \<Rightarrow> (errs, w')))"

text \<open>
  \<^verbatim>\<open>wait.PollImmediate\<close> tries a condition at once and then once per interval until the time is up; \<open>n\<close> is how
  often it tries again.
\<close>

fun PollImmediate :: "nat \<Rightarrow> ('w \<Rightarrow> 'a option \<times> 'w) \<Rightarrow> 'w \<Rightarrow> 'a option \<times> 'w" where
  "PollImmediate n cond w =
     (case cond w of
        (Some a, w1) \<Rightarrow> (Some a, w1)
      | (None, w1) \<Rightarrow> (case n of 0 \<Rightarrow> (None, w1) | Suc m \<Rightarrow> PollImmediate m cond w1))"

declare PollImmediate.simps [simp del]

definition grabIptablesFileLock :: "'w lock_os \<Rightarrow> nat \<Rightarrow> 'w \<Rightarrow> go_error option \<times> 'w" where
  "grabIptablesFileLock os f w = lk_Flock os f w"

definition poll_timeout :: go_error where "poll_timeout = ''timed out waiting for the condition''"

definition grabIptablesLocks :: "'w lock_os \<Rightarrow> nat \<Rightarrow> string \<Rightarrow> 'w \<Rightarrow> (go_error + locker) \<times> 'w" where
  "grabIptablesLocks os tries lockfilePath w =
     (let fail = (\<lambda>l msg w. (Inl msg, snd (locker_Close os l w))) in
      case lk_OpenFile os lockfilePath w of
        (Inl err, w1) \<Rightarrow>
          fail \<lparr>lo_lock16 = None, lo_lock14 = None\<rparr> (''failed to open iptables lock '' @ lockfilePath @ '': '' @ err) w1
      | (Inr f, w1) \<Rightarrow>
          (case PollImmediate tries (\<lambda>w. case grabIptablesFileLock os f w of
                   (Some err, w') \<Rightarrow> (None, w') | (None, w') \<Rightarrow> (Some (), w')) w1 of
             (None, w2) \<Rightarrow>
               fail \<lparr>lo_lock16 = Some f, lo_lock14 = None\<rparr> (''failed to acquire new iptables lock: '' @ poll_timeout) w2
           | (Some _, w2) \<Rightarrow>
               (case PollImmediate tries (\<lambda>w. case lk_ListenUnix os ''@xtables'' w of
                        (Inl err, w') \<Rightarrow> (None, w') | (Inr s, w') \<Rightarrow> (Some s, w')) w2 of
                  (None, w3) \<Rightarrow>
                    fail \<lparr>lo_lock16 = Some f, lo_lock14 = None\<rparr> (''failed to acquire old iptables lock: '' @ poll_timeout) w3
                | (Some s, w3) \<Rightarrow> (Inr \<lparr>lo_lock16 = Some f, lo_lock14 = Some s\<rparr>, w3))))"

definition run_restore ::
  "'w command_exec \<Rightarrow> 'w runner \<Rightarrow> string list \<Rightarrow> string \<Rightarrow> 'w \<Rightarrow> go_error option \<times> 'w" where
  "run_restore exec runner args data w =
     (case exec cmdIPTablesRestore (ru_restoreWaitFlag runner @ args) (Some data) w of
        ((b, Some err), w1) \<Rightarrow> (Some (exec_error_String err @ '' ('' @ b @ '')''), w1)
      | ((b, None), w1) \<Rightarrow> (None, w1))"

definition restoreInternal ::
  "'w command_exec \<Rightarrow> 'w lock_os \<Rightarrow> nat \<Rightarrow> 'w runner \<Rightarrow> string list \<Rightarrow> string \<Rightarrow> bool \<Rightarrow> bool \<Rightarrow> 'w \<Rightarrow> go_error option \<times> 'w"
  where
  "restoreInternal exec os tries runner args data flush counters w =
     (let args1 = args @ (if \<not> flush then [''--noflush''] else []) @ (if counters then [''--counters''] else []) in
      if length (ru_restoreWaitFlag runner) = 0 then
        (case grabIptablesLocks os tries (ru_lockfilePath runner) w of
           (Inl err, w1) \<Rightarrow> (Some err, w1)
         | (Inr l, w1) \<Rightarrow>
             (let (err, w2) = run_restore exec runner args1 data w1 in (err, snd (locker_Close os l w2))))
      else run_restore exec runner args1 data w)"

definition Restore where
  "Restore exec os tries runner table data flush counters w =
     restoreInternal exec os tries runner [''-T'', table] data flush counters w"

definition RestoreAll where
  "RestoreAll exec os tries runner data flush counters w =
     restoreInternal exec os tries runner [] data flush counters w"

text \<open>The stubs of iptables_unsupported.go for platforms without these locks.\<close>

definition unsupported_grabIptablesLocks :: "string \<Rightarrow> go_error + locker" where
  "unsupported_grabIptablesLocks lockfilePath = Inl ''iptables unsupported on this platform''"

definition unsupported_grabIptablesFileLock :: "nat \<Rightarrow> go_error option" where
  "unsupported_grabIptablesFileLock f = Some ''iptables unsupported on this platform''"

section \<open>What the locks promise\<close>

text \<open>
  \<open>held w\<close> are the open lock files and listeners of this process.  Every command but a close leaves them alone.
\<close>

datatype handle = File nat | Listener nat

locale lock_laws =
  fixes os :: "'w lock_os" and held :: "'w \<Rightarrow> handle set"
  assumes open_adds: "lk_OpenFile os p w = (Inr f, w') \<Longrightarrow> File f \<notin> held w \<and> held w' = insert (File f) (held w)"
    and open_fails: "lk_OpenFile os p w = (Inl e, w') \<Longrightarrow> held w' = held w"
    and flock_keeps: "lk_Flock os f w = (r, w') \<Longrightarrow> held w' = held w"
    and listen_adds: "lk_ListenUnix os a w = (Inr s, w') \<Longrightarrow> Listener s \<notin> held w \<and> held w' = insert (Listener s) (held w)"
    and listen_fails: "lk_ListenUnix os a w = (Inl e, w') \<Longrightarrow> held w' = held w"
    and close_file: "lk_CloseFile os f w = (r, w') \<Longrightarrow> held w' = held w - {File f}"
    and close_listener: "lk_CloseListener os s w = (r, w') \<Longrightarrow> held w' = held w - {Listener s}"
begin

lemma poll_flock:
  assumes "PollImmediate n (\<lambda>w. case grabIptablesFileLock os f w of
      (Some err, w') \<Rightarrow> (None, w') | (None, w') \<Rightarrow> (Some (), w')) w = (r, w')"
  shows "held w' = held w"
  using assms
proof (induction n arbitrary: w)
  case 0
  then show ?case using flock_keeps [of f w]
    by (subst (asm) PollImmediate.simps) (auto simp: grabIptablesFileLock_def split: prod.splits option.splits)
next
  case (Suc n)
  then show ?case using flock_keeps [of f w]
    by (subst (asm) (2) PollImmediate.simps) (auto simp: grabIptablesFileLock_def split: prod.splits option.splits)
qed

lemma poll_listen:
  assumes "PollImmediate n (\<lambda>w. case lk_ListenUnix os a w of
      (Inl err, w') \<Rightarrow> (None, w') | (Inr s, w') \<Rightarrow> (Some s, w')) w = (r, w')"
  shows "case r of None \<Rightarrow> held w' = held w | Some s \<Rightarrow> Listener s \<notin> held w \<and> held w' = insert (Listener s) (held w)"
  using assms
proof (induction n arbitrary: w)
  case 0
  then show ?case using listen_adds [of a w] listen_fails [of a w]
    by (subst (asm) PollImmediate.simps) (auto split: prod.splits option.splits sum.splits)
next
  case (Suc n)
  then show ?case using listen_adds [of a w] listen_fails [of a w]
    by (subst (asm) (2) PollImmediate.simps) (fastforce split: prod.splits option.splits sum.splits)
qed

lemma locker_Close_held:
  "held (snd (locker_Close os l w)) = held w - (File ` set_option (lo_lock16 l) \<union> Listener ` set_option (lo_lock14 l))"
proof -
  have f: "held (snd (lk_CloseFile os f w)) = held w - {File f}" for f w
    using close_file [of f w] by (metis prod.collapse)
  have s: "held (snd (lk_CloseListener os s w)) = held w - {Listener s}" for s w
    using close_listener [of s w] by (metis prod.collapse)
  show ?thesis
    by (auto simp: locker_Close_def Let_def split: option.splits prod.splits)
      (use f s in \<open>metis Diff_iff insertI1 singletonD snd_conv\<close>)+
qed

lemma grab_locks:
  assumes "grabIptablesLocks os tries p w = (r, w')"
  shows "case r of
      Inl _ \<Rightarrow> held w' = held w
    | Inr l \<Rightarrow> \<exists>f s. l = \<lparr>lo_lock16 = Some f, lo_lock14 = Some s\<rparr> \<and> File f \<notin> held w \<and> Listener s \<notin> held w \<and>
        held w' = held w \<union> {File f, Listener s}"
proof (cases "lk_OpenFile os p w")
  case (Pair o1 w1)
  show ?thesis
  proof (cases o1)
    case (Inl e)
    with Pair assms open_fails [of p w] locker_Close_held show ?thesis
      by (auto simp: grabIptablesLocks_def Let_def)
  next
    case (Inr f)
    have o: "File f \<notin> held w" "held w1 = insert (File f) (held w)" using open_adds Pair Inr by blast+
    obtain r2 w2 where p2: "PollImmediate tries (\<lambda>w. case grabIptablesFileLock os f w of
        (Some err, w') \<Rightarrow> (None, w') | (None, w') \<Rightarrow> (Some (), w')) w1 = (r2, w2)" by fastforce
    obtain r3 w3 where p3: "PollImmediate tries (\<lambda>w. case lk_ListenUnix os ''@xtables'' w of
        (Inl err, w') \<Rightarrow> (None, w') | (Inr s, w') \<Rightarrow> (Some s, w')) w2 = (r3, w3)" by fastforce
    from poll_flock [OF p2] poll_listen [OF p3] o assms Pair Inr p2 p3 locker_Close_held show ?thesis
      by (auto simp: grabIptablesLocks_def Let_def split: option.splits)
  qed
qed

end

section \<open>What the iptables command promises\<close>

text \<open>
  \<open>chains w\<close> are the chains with their rules; \<open>valid\<close> are the rules the command accepts.  The laws speak of one
  command with its wait flags.
\<close>

locale iptables_cmd =
  fixes exec :: "'w command_exec" and cmd :: string and flags :: "string list"
    and chains :: "'w \<Rightarrow> (string \<times> string) \<rightharpoonup> string list list" and valid :: "string list \<Rightarrow> bool"
  assumes check: "chains w (t, c) = Some rs \<Longrightarrow> valid args \<Longrightarrow>
      \<exists>out w' msg. exec cmd (flags @ [''-C''] @ makeFullArgs t c args) None w =
        ((out, if args \<in> set rs then None else Some (ExitError True 1 msg)), w') \<and> chains w' = chains w"
    and add: "chains w (t, c) = Some rs \<Longrightarrow> valid args \<Longrightarrow>
      \<exists>out w'. exec cmd (flags @ [position_op pos] @ makeFullArgs t c args) None w = ((out, None), w') \<and>
        chains w' = (chains w)((t, c) \<mapsto> (case pos of Prepend \<Rightarrow> args # rs | Append \<Rightarrow> rs @ [args]))"
    and del: "chains w (t, c) = Some rs \<Longrightarrow> args \<in> set rs \<Longrightarrow>
      \<exists>out w'. exec cmd (flags @ [''-D''] @ makeFullArgs t c args) None w = ((out, None), w') \<and>
        chains w' = (chains w)((t, c) \<mapsto> remove1 args rs)"
    and new_chain: "chains w (t, c) = None \<Longrightarrow>
      \<exists>out w'. exec cmd (flags @ [''-N''] @ makeFullArgs t c []) None w = ((out, None), w') \<and>
        chains w' = (chains w)((t, c) \<mapsto> [])"
    and old_chain: "chains w (t, c) \<noteq> None \<Longrightarrow>
      \<exists>out w' msg. exec cmd (flags @ [''-N''] @ makeFullArgs t c []) None w = ((out, Some (ExitError True 1 msg)), w') \<and>
        chains w' = chains w"
begin

lemma checkRule_does:
  assumes "ru_hasCheck r" "iptablesCommand r = cmd" "ru_waitFlag r = flags" "chains w (t, c) = Some rs" "valid args"
  shows "\<exists>w'. checkRule exec r t c args w = ((args \<in> set rs, None), w') \<and> chains w' = chains w"
  using check [OF assms(4,5)] assms(1-3)
  by (auto simp: checkRule_def checkRuleUsingCheck_def runner_run_def exited_1_def split: if_splits)

lemma EnsureRule_does:
  assumes "ru_hasCheck r" "iptablesCommand r = cmd" "ru_waitFlag r = flags" "chains w (t, c) = Some rs" "valid args"
  shows "\<exists>w'. EnsureRule exec r pos t c args w = ((args \<in> set rs, None), w') \<and>
    chains w' = (if args \<in> set rs then chains w
      else (chains w)((t, c) \<mapsto> (case pos of Prepend \<Rightarrow> args # rs | Append \<Rightarrow> rs @ [args])))"
proof -
  obtain w1 where c: "checkRule exec r t c args w = ((args \<in> set rs, None), w1)" "chains w1 = chains w"
    using checkRule_does [OF assms] by blast
  from add [of w1 t c rs args pos] c assms(4,5) obtain out w2 where
    "exec cmd (flags @ [position_op pos] @ makeFullArgs t c args) None w1 = ((out, None), w2)"
    "chains w2 = (chains w)((t, c) \<mapsto> (case pos of Prepend \<Rightarrow> args # rs | Append \<Rightarrow> rs @ [args]))" by auto
  with c assms(2,3) show ?thesis
    by (cases "args \<in> set rs") (auto simp: EnsureRule_def runner_run_def)
qed

lemma DeleteRule_does:
  assumes "ru_hasCheck r" "iptablesCommand r = cmd" "ru_waitFlag r = flags" "chains w (t, c) = Some rs" "valid args"
  shows "\<exists>w'. DeleteRule exec r t c args w = (None, w') \<and>
    chains w' = (if args \<in> set rs then (chains w)((t, c) \<mapsto> remove1 args rs) else chains w)"
proof -
  obtain w1 where c: "checkRule exec r t c args w = ((args \<in> set rs, None), w1)" "chains w1 = chains w"
    using checkRule_does [OF assms] by blast
  then have "chains w1 (t, c) = Some rs" using assms(4) by simp
  from del [OF this] c(2) have "args \<in> set rs \<longrightarrow> (\<exists>out w2. exec cmd (flags @ [''-D''] @ makeFullArgs t c args) None w1 =
      ((out, None), w2) \<and> chains w2 = (chains w)((t, c) \<mapsto> remove1 args rs))" by metis
  with c assms(2,3) show ?thesis
    by (cases "args \<in> set rs") (auto simp: DeleteRule_def runner_run_def)
qed

lemma EnsureChain_does:
  assumes "iptablesCommand r = cmd" "ru_waitFlag r = flags"
  shows "\<exists>w'. EnsureChain exec r t c w = ((chains w (t, c) \<noteq> None, None), w') \<and>
    chains w' = (chains w)((t, c) := Some (case chains w (t, c) of None \<Rightarrow> [] | Some rs \<Rightarrow> rs))"
proof (cases "chains w (t, c)")
  case None
  from new_chain [OF this] None assms show ?thesis by (auto simp: EnsureChain_def runner_run_def)
next
  case (Some rs)
  then have "(chains w)((t, c) := Some rs) = chains w" by auto
  with old_chain [of w t c] Some assms show ?thesis
    by (auto simp: EnsureChain_def runner_run_def exited_1_def)
qed

end

section \<open>A reference command with locks\<close>

record rule_world =
  rw_chains :: "(string \<times> string, string list list) gomap"
  rw_held :: "handle list"

fun handle_num :: "handle \<Rightarrow> nat" where
  "handle_num (File n) = n"
| "handle_num (Listener n) = n"

definition fresh_num :: "rule_world \<Rightarrow> nat" where
  "fresh_num w = Suc (sum_list (map handle_num (rw_held w)))"

lemma fresh_handle: "File (fresh_num w) \<notin> set (rw_held w)" "Listener (fresh_num w) \<notin> set (rw_held w)"
proof -
  have "handle_num h < fresh_num w" if "h \<in> set (rw_held w)" for h
    using that member_le_sum_list [of "handle_num h" "map handle_num (rw_held w)"] by (simp add: fresh_num_def)
  then show "File (fresh_num w) \<notin> set (rw_held w)" "Listener (fresh_num w) \<notin> set (rw_held w)" by fastforce+
qed

definition ref_lock_os :: "rule_world lock_os" where
  "ref_lock_os = \<lparr>lk_OpenFile = (\<lambda>_ w. (Inr (fresh_num w), w\<lparr>rw_held := File (fresh_num w) # rw_held w\<rparr>)),
     lk_Flock = (\<lambda>_ w. (None, w)),
     lk_ListenUnix = (\<lambda>_ w. (Inr (fresh_num w), w\<lparr>rw_held := Listener (fresh_num w) # rw_held w\<rparr>)),
     lk_CloseFile = (\<lambda>f w. (None, w\<lparr>rw_held := filter (\<lambda>h. h \<noteq> File f) (rw_held w)\<rparr>)),
     lk_CloseListener = (\<lambda>s w. (None, w\<lparr>rw_held := filter (\<lambda>h. h \<noteq> Listener s) (rw_held w)\<rparr>))\<rparr>"

interpretation rl: lock_laws ref_lock_os "\<lambda>w. set (rw_held w)"
  by unfold_locales (auto simp: ref_lock_os_def fresh_handle)

definition ref_op :: "string \<Rightarrow> string list \<Rightarrow> string list list \<Rightarrow> string list list option" where
  "ref_op op args rs =
     (if op = ''-A'' then Some (rs @ [args])
      else if op = ''-I'' then Some (args # rs)
      else if op = ''-D'' \<and> args \<in> set rs then Some (remove1 args rs)
      else if op = ''-C'' \<and> args \<in> set rs then Some rs
      else None)"

definition ref_ipt_exec :: "rule_world command_exec" where
  "ref_ipt_exec cmd args stdin w =
     (let failed = (('''', Some (ExitError True 1 ''exit status 1'')), w) in
      case args of
        op # c # dt # t # rest \<Rightarrow>
          (case gm_get (rw_chains w) (t, c) of
             None \<Rightarrow> if op = ''-N'' then (('''', None), w\<lparr>rw_chains := gm_put (rw_chains w) (t, c) []\<rparr>) else failed
           | Some rs \<Rightarrow>
               (case ref_op op rest rs of
                  None \<Rightarrow> failed
                | Some rs' \<Rightarrow> (('''', None), w\<lparr>rw_chains := gm_put (rw_chains w) (t, c) rs'\<rparr>)))
      | _ \<Rightarrow> failed)"

interpretation rc: iptables_cmd ref_ipt_exec cmdIPTables "[]" "\<lambda>w. map_of (rw_chains w)" "\<lambda>_. True"
  by unfold_locales
    (auto simp: ref_ipt_exec_def makeFullArgs_def ref_op_def position_op_def Let_def split: RulePosition.splits)

section \<open>Properties\<close>

text \<open>
  (C35) Rules through the runner, on a tool with the check flag.  Ensuring a rule reports whether it was
  there, adds it at the asked end of the chain only when it was not, and touches no other chain; ensuring it again
  finds it and changes nothing; and deleting a rule that was added restores the chains.
\<close>

theorem ensure_rule_roundtrip:
  assumes "iptables_cmd exec (iptablesCommand r) (ru_waitFlag r) tables valid" and "ru_hasCheck r"
    and "tables w (t, c) = Some rs" and "valid args"
  shows "\<exists>w1 w2. EnsureRule exec r pos t c args w = ((args \<in> set rs, None), w1) \<and>
    tables w1 = (if args \<in> set rs then tables w
      else (tables w)((t, c) \<mapsto> (case pos of Prepend \<Rightarrow> args # rs | Append \<Rightarrow> rs @ [args]))) \<and>
    EnsureRule exec r pos' t c args w1 = ((True, None), w2) \<and> tables w2 = tables w1 \<and>
    (args \<notin> set rs \<longrightarrow> (\<exists>w3. DeleteRule exec r t c args w1 = (None, w3) \<and> tables w3 = tables w))"
proof -
  let ?rs = "if args \<in> set rs then rs else case pos of Prepend \<Rightarrow> args # rs | Append \<Rightarrow> rs @ [args]"
  obtain w1 where 1: "EnsureRule exec r pos t c args w = ((args \<in> set rs, None), w1)"
    "tables w1 = (if args \<in> set rs then tables w
      else (tables w)((t, c) \<mapsto> (case pos of Prepend \<Rightarrow> args # rs | Append \<Rightarrow> rs @ [args])))"
    using iptables_cmd.EnsureRule_does [OF assms(1,2) refl refl assms(3,4)] by blast
  then have rs: "tables w1 (t, c) = Some ?rs" using assms(3) by simp
  have mem: "args \<in> set ?rs" by (simp split: RulePosition.splits)
  obtain w2 where 2: "EnsureRule exec r pos' t c args w1 = ((True, None), w2)" "tables w2 = tables w1"
    using iptables_cmd.EnsureRule_does [OF assms(1,2) refl refl rs assms(4), of pos'] mem by auto
  have "\<exists>w3. DeleteRule exec r t c args w1 = (None, w3) \<and> tables w3 = tables w" if n: "args \<notin> set rs"
  proof -
    have "remove1 args ?rs = rs" using n by (simp add: remove1_append split: RulePosition.splits)
    with iptables_cmd.DeleteRule_does [OF assms(1,2) refl refl rs assms(4)] mem obtain w3 where
      "DeleteRule exec r t c args w1 = (None, w3)" "tables w3 = (tables w1)((t, c) \<mapsto> rs)" by auto
    moreover have "(tables w1)((t, c) \<mapsto> rs) = tables w" using 1(2) n assms(3) by (auto simp: fun_eq_iff)
    ultimately show ?thesis by auto
  qed
  with 1 2 show ?thesis by blast
qed

definition ex_runner :: "'w runner" where
  "ex_runner = \<lparr>ru_protocol = ProtocolIpv4, ru_hasCheck = True, ru_waitFlag = [], ru_restoreWaitFlag = [],
     ru_lockfilePath = LockfilePath16x, ru_reloadFuncs = [], ru_signal = None\<rparr>"

definition ex_rules :: rule_world where
  "ex_rules = \<lparr>rw_chains = [((''nat'', ''POSTROUTING''), [[''-j'', ''ACCEPT'']])], rw_held = []\<rparr>"

theorem ensure_rule_roundtrip_witness:
  "\<exists>w1. EnsureRule ref_ipt_exec ex_runner Prepend ''nat'' ''POSTROUTING'' [''-j'', ''MASQUERADE''] ex_rules = ((False, None), w1) \<and>
    map_of (rw_chains w1) (''nat'', ''POSTROUTING'') = Some [[''-j'', ''MASQUERADE''], [''-j'', ''ACCEPT'']] \<and>
    (\<exists>w3. DeleteRule ref_ipt_exec ex_runner ''nat'' ''POSTROUTING'' [''-j'', ''MASQUERADE''] w1 = (None, w3) \<and>
      map_of (rw_chains w3) = map_of (rw_chains ex_rules))"
proof -
  have cmd: "iptables_cmd ref_ipt_exec (iptablesCommand ex_runner) (ru_waitFlag ex_runner) (\<lambda>w. map_of (rw_chains w)) (\<lambda>_. True)"
    using rc.iptables_cmd_axioms by (simp add: ex_runner_def iptablesCommand_def IsIpv6_def)
  have "map_of (rw_chains ex_rules) (''nat'', ''POSTROUTING'') = Some [[''-j'', ''ACCEPT'']]" by (simp add: ex_rules_def)
  from ensure_rule_roundtrip [where tables = "\<lambda>w. map_of (rw_chains w)" and w = ex_rules and r = ex_runner
      and valid = "\<lambda>_. True" and exec = ref_ipt_exec and args = "[''-j'', ''MASQUERADE'']" and pos = Prepend
      and pos' = Append, OF cmd _ this]
  show ?thesis by (auto simp: ex_runner_def)
qed



text \<open>
  Without the check flag a rule counts as present when it stands in another chain whose name begins with the
  name of the asked one, and a negation may stand anywhere.
\<close>

lemma prefix_chain_counts: "line_matches ''KUBE'' [''-j'', ''ACCEPT''] ''-A KUBE-OTHER -j ACCEPT''"
proof -
  have f: "Fields ''-A KUBE-OTHER -j ACCEPT'' = [''-A'', ''KUBE-OTHER'', ''-j'', ''ACCEPT'']"
    by (simp add: Fields.simps is_space_def)
  have t: "trimhex ''-A'' = ''-A''" "trimhex ''KUBE-OTHER'' = ''KUBE-OTHER''" "trimhex ''-j'' = ''-j''"
    "trimhex ''ACCEPT'' = ''ACCEPT''" by (simp_all add: trimhex.simps)
  show ?thesis by (simp add: line_matches_def f t Trim_def dquote_def HasPrefix_def)
qed

end
