(* ===== verification/Firewalld.thy ===== *)
theory Firewalld
  imports Iptables_Runner
begin

text \<open>
  The reaction of the iptables runner to FirewallD (\<^verbatim>\<open>connectToFirewallD\<close>, \<^verbatim>\<open>dbusSignalHandler\<close>, \<^verbatim>\<open>Destroy\<close> of
  src/pkg/util/iptables/iptables.go) on any D-Bus connection that keeps the contract of the theory Dbus, and on the
  fake bus with the signals it emits.
\<close>

section \<open>Signals\<close>

text \<open>The signals after which the rules have to be written again: FirewallD was reloaded, or it has started.\<close>

definition resyncs :: "dbus_signal \<Rightarrow> bool" where
  "resyncs s \<longleftrightarrow> sg_Name s = firewalldInterface @ ''.Reloaded'' \<or>
     (sg_Name s = ''org.freedesktop.DBus.NameOwnerChanged'' \<and> body_string (sg_Body s) 0 = Some firewalldName \<and>
      body_string (sg_Body s) 2 \<noteq> Some [])"

text \<open>The bus sends the name, the old owner and the new owner as strings.\<close>

definition owner_strings :: "dbus_signal \<Rightarrow> bool" where
  "owner_strings s \<longleftrightarrow> (sg_Name s = ''org.freedesktop.DBus.NameOwnerChanged'' \<longrightarrow>
     body_string (sg_Body s) 0 \<noteq> None \<and> body_string (sg_Body s) 2 \<noteq> None)"

text \<open>\<open>log\<close> records which reload functions ran; nothing else writes it, and FirewallD can be called.\<close>

definition logs_reloads ::
  "('c, 'o, 'k, 'w) dbus_Interface \<Rightarrow> ('w \<Rightarrow> bool) \<Rightarrow> ('c \<Rightarrow> 'w \<Rightarrow> chan set) \<Rightarrow> ('w \<Rightarrow> nat list) \<Rightarrow> 'c \<Rightarrow> 'o \<Rightarrow> ('w \<Rightarrow> 'w) list \<Rightarrow> bool" where
  "logs_reloads dbus ok reg log bus firewalld fs \<longleftrightarrow>
     (\<forall>i < length fs. \<forall>w. ok w \<longrightarrow> ok ((fs ! i) w) \<and> reg bus ((fs ! i) w) = reg bus w \<and> log ((fs ! i) w) = log w @ [i]) \<and>
     (\<forall>m w. ok w \<longrightarrow> (\<exists>k w'. di_Call dbus firewalld m 0 [] w = Some (k, w') \<and> log w' = log w)) \<and>
     (\<forall>ch w. ok w \<longrightarrow> log (di_Signal dbus bus ch w) = log w)"

context dbus_bus
begin

lemma reload_logs:
  assumes "logs_reloads I ok reg log bus firewalld (ru_reloadFuncs runner)" and "ok w"
  shows "ok (reload runner w) \<and> reg bus (reload runner w) = reg bus w \<and>
    log (reload runner w) = log w @ [0..<length (ru_reloadFuncs runner)]"
proof -
  let ?fs = "ru_reloadFuncs runner"
  have "ok (fold (\<lambda>f w. f w) (take n ?fs) w) \<and> reg bus (fold (\<lambda>f w. f w) (take n ?fs) w) = reg bus w \<and>
    log (fold (\<lambda>f w. f w) (take n ?fs) w) = log w @ [0..<n]" if "n \<le> length ?fs" for n
    using that
  proof (induction n)
    case (Suc n)
    then have "take (Suc n) ?fs = take n ?fs @ [?fs ! n]" by (simp add: take_Suc_conv_app_nth)
    with Suc assms(1) show ?case by (simp add: logs_reloads_def)
  qed (use assms(2) in simp)
  from this [of "length ?fs"] show ?thesis by (simp add: reload_def)
qed

lemma handle_signal_logs:
  assumes "logs_reloads I ok reg log bus firewalld (ru_reloadFuncs runner)" and "ok w" and "owner_strings s"
  shows "\<exists>w'. handle_signal I firewalld runner s w = Some w' \<and> ok w' \<and> reg bus w' = reg bus w \<and>
    log w' = log w @ (if resyncs s then [0..<length (ru_reloadFuncs runner)] else [])"
proof -
  note reloaded = reload_logs [OF assms(1)]
  have r: "firewalldInterface @ ''.Reloaded'' \<noteq> ''org.freedesktop.DBus.NameOwnerChanged''" by (simp add: firewalldInterface_def)
  show ?thesis
  proof (cases "sg_Name s = ''org.freedesktop.DBus.NameOwnerChanged''")
    case True
    with assms(3) obtain name new_owner where b: "body_string (sg_Body s) 0 = Some name" "body_string (sg_Body s) 2 = Some new_owner"
      by (auto simp: owner_strings_def)
    from assms(1,2) obtain k w1 where
      c: "di_Call I firewalld (firewalldInterface @ ''.getDefaultZone'') 0 [] w = Some (k, w1)" "log w1 = log w"
      unfolding logs_reloads_def by blast
    note kept = call [OF assms(2) c(1)]
    from True b c kept r reloaded [of w1] assms(2) show ?thesis
      by (cases "name \<noteq> firewalldName \<or> new_owner = []") (auto simp: handle_signal_def resyncs_def)
  qed (use assms(2) reloaded [of w] in \<open>auto simp: handle_signal_def resyncs_def\<close>)
qed

lemma signal_loop_logs:
  assumes "logs_reloads I ok reg log bus firewalld (ru_reloadFuncs runner)" and "ok w" and "\<forall>s \<in> set ss. owner_strings s"
  shows "\<exists>w'. signal_loop I bus firewalld ch runner (map Some ss @ [None]) w = Some w' \<and> reg bus w' = toggle ch (reg bus w) \<and>
    log w' = log w @ concat (map (\<lambda>s. if resyncs s then [0..<length (ru_reloadFuncs runner)] else []) ss)"
  using assms(2,3)
proof (induction ss arbitrary: w)
  case Nil
  then show ?case using assms(1) signal by (simp add: logs_reloads_def)
next
  case (Cons s ss)
  then have "owner_strings s" by simp
  from handle_signal_logs [OF assms(1) Cons.prems(1) this] obtain w1 where
    w1: "handle_signal I firewalld runner s w = Some w1" "ok w1" "reg bus w1 = reg bus w"
      "log w1 = log w @ (if resyncs s then [0..<length (ru_reloadFuncs runner)] else [])" by blast
  from Cons.IH [OF w1(2)] Cons.prems(2) w1 show ?case by auto
qed

end

lemma AddReloadFuncs: "ru_reloadFuncs (fold AddReloadFunc fs r) = ru_reloadFuncs r @ fs" "ru_signal (fold AddReloadFunc fs r) = ru_signal r"
  by (induction fs arbitrary: r) (simp_all add: AddReloadFunc_def)

text \<open>
  (C39) The runner follows FirewallD on any bus.  It connects and registers its channel; then reload functions are added,
  signals arrive, and the runner is destroyed.  Every signal that says that FirewallD was reloaded or has started
  runs all reload functions once, in the order in which they were added; no other signal runs any.  In the end the
  channels that are registered are those of the beginning.
\<close>

theorem firewalld_signals_resync:
  assumes "dbus_bus dbus ok reg" and "ok w"
    and "connectToFirewallD dbus ch runner w = Some ((r, Some bus), w1)" and "ru_reloadFuncs runner = []"
    and "logs_reloads dbus ok reg log bus (di_Object dbus bus firewalldName firewalldPath w1) fs"
    and "\<forall>s \<in> set ss. owner_strings s"
  shows "ru_signal r = Some ch \<and> reg bus w1 = toggle ch (reg bus w) \<and>
    (\<exists>w2. dbusSignalHandler dbus bus ch (fold AddReloadFunc fs r) (Destroy (fold AddReloadFunc fs r) (map Some ss)) w1 = Some w2 \<and>
      reg bus w2 = reg bus w \<and> log w2 = log w1 @ concat (map (\<lambda>s. if resyncs s then [0..<length fs] else []) ss))"
proof -
  from assms(3) obtain w2 k1 w3 k2 w4 where c: "di_SystemBus dbus w = (Inr bus, w2)"
    "di_Call dbus (di_BusObject dbus bus w2) ''org.freedesktop.DBus.AddMatch'' 0 [DString reloaded_rule] w2 = Some (k1, w3)"
    "di_Call dbus (di_BusObject dbus bus w3) ''org.freedesktop.DBus.AddMatch'' 0 [DString owner_rule] w3 = Some (k2, w4)"
    "r = runner\<lparr>ru_signal := Some ch\<rparr>" "w1 = di_Signal dbus bus ch w4"
    by (auto simp: connectToFirewallD_def bind_eq_Some_conv split: prod.splits sum.splits)
  have 2: "ok w2" "reg bus w2 = reg bus w" using dbus_bus.system_bus [OF assms(1,2) c(1)] by blast+
  have 3: "ok w3" "reg bus w3 = reg bus w" using dbus_bus.call [OF assms(1) 2(1) c(2)] 2(2) by simp_all
  have 4: "ok w4" "reg bus w4 = reg bus w" using dbus_bus.call [OF assms(1) 3(1) c(3)] 3(2) by simp_all
  have 1: "ok w1" "reg bus w1 = toggle ch (reg bus w)" using dbus_bus.signal [OF assms(1) 4(1)] 4(2) c(5) by simp_all
  let ?r = "fold AddReloadFunc fs r"
  have fs: "ru_reloadFuncs ?r = fs" "ru_signal ?r = Some ch" using assms(4) c(4) by (simp_all add: AddReloadFuncs)
  from dbus_bus.signal_loop_logs [OF assms(1) _ 1(1) assms(6), of log bus _ ?r ch, unfolded fs(1), OF assms(5)]
  show ?thesis using 1(2) fs(2) c(4) by (simp add: dbusSignalHandler_def Destroy_def)
qed

definition ex_answer :: "string \<Rightarrow> dbus_value list \<times> go_error option" where
  "ex_answer m = (if m = ''org.freedesktop.DBus.AddMatch'' then ([], None) else ([DString ''public''], None))"

abbreviation ex_dbus :: "(nat, fakeObject option, fakeCall, nat list fake_world) dbus_Interface" where
  "ex_dbus \<equiv> DBusFake_Interface (\<lambda>ret n. Inr ret) (answering ex_answer) (NewFake (Some 0) None)"

text \<open>Two reload functions; FirewallD starts, another service starts, FirewallD stops and is reloaded.\<close>

definition ex_signals :: "dbus_signal list" where
  "ex_signals = (let s = (\<lambda>name body. \<lparr>sg_Sender = '':1.7'', sg_Path = ''/'', sg_Name = name, sg_Body = map DString body\<rparr>) in
     [s ''org.freedesktop.DBus.NameOwnerChanged'' [firewalldName, '''', '':1.7''],
      s ''org.freedesktop.DBus.NameOwnerChanged'' [''org.example'', '''', '':1.9''],
      s ''org.freedesktop.DBus.NameOwnerChanged'' [firewalldName, '':1.7'', ''''],
      s (firewalldInterface @ ''.Reloaded'') []])"

definition ex_reload :: "nat \<Rightarrow> nat list fake_world \<Rightarrow> nat list fake_world" where
  "ex_reload i w = w\<lparr>fw_test := fw_test w @ [i]\<rparr>"

theorem firewalld_signals_resync_witness:
  "\<exists>r w1 w2. connectToFirewallD ex_dbus 9 ex_runner ex_fake = Some ((r, Some 0), w1) \<and> fake_reg 0 w1 = {4, 5, 9} \<and>
    dbusSignalHandler ex_dbus 0 9 (fold AddReloadFunc [ex_reload 0, ex_reload 1] r)
      (Destroy (fold AddReloadFunc [ex_reload 0, ex_reload 1] r) (map Some ex_signals)) w1 = Some w2 \<and>
    fake_reg 0 w2 = {4, 5} \<and> fw_test w2 = [0, 1, 0, 1]"
proof -
  obtain r w1 where c: "connectToFirewallD ex_dbus 9 ex_runner ex_fake = Some ((r, Some 0), w1)"
    and w1: "fw_test w1 = []" "fw_conns w1 0 = (fw_conns ex_fake 0)\<lparr>fc_signalHandlers := [4, 5, 9]\<rparr>"
    by (simp add: connectToFirewallD_def DBusFake_Interface_def NewFake_def fake_SystemBus_def fake_BusObject_def ex_fake_def
        fakeObject_Call_def answering_def ex_answer_def fake_Signal_def)
  have ok: "fake_ok ex_fake" by (simp add: fake_ok_def ex_fake_def)
  let ?fw = "di_Object ex_dbus 0 firewalldName firewalldPath w1"
  have fw: "?fw = Some \<lparr>fo_handler = 1\<rparr>"
    by (simp add: DBusFake_Interface_def fake_Object_def w1(2) ex_fake_def firewalldName_def firewalldPath_def)
  have logs: "logs_reloads ex_dbus fake_ok fake_reg fw_test 0 ?fw [ex_reload 0, ex_reload 1]"
    unfolding fw logs_reloads_def
    by (auto simp: less_Suc_eq ex_reload_def fake_ok_def fake_reg_def DBusFake_Interface_def fakeObject_Call_def answering_def
        split_beta)
  have "\<forall>s \<in> set ex_signals. owner_strings s"
    by (simp add: ex_signals_def owner_strings_def body_string_def firewalldInterface_def)
  moreover have "map resyncs ex_signals = [True, False, False, True]"
    by (simp add: ex_signals_def resyncs_def body_string_def firewalldInterface_def firewalldName_def)
  ultimately show ?thesis
    using firewalld_signals_resync [OF answering.dbus_bus_axioms ok c _ logs, of ex_signals] c w1
    by (auto simp: ex_runner_def fake_reg_def ex_fake_def ex_signals_def)
qed

end
