(* ===== verification/Health_Check.thy ===== *)
theory Health_Check
  imports Node_Utils
begin

text \<open>
  src/pkg/proxy/healthcheck/healthcheck.go: one HTTP listener per service, which answers with the
  number of local endpoints.  Sockets, the HTTP library, the event recorder and the package
  dedent are parameters.  The mutex is part of the state, because a handler that panics
  leaves it locked: \<^verbatim>\<open>net/http\<close> recovers the panic and the process goes on.
\<close>

section \<open>Data\<close>

record HTTPServer =
  hs_Addr :: string
  hs_handler_name :: NamespacedName

record hcInstance =
  hc_port :: "16 word"
  hc_listener :: nat
  hc_server :: HTTPServer
  hc_endpoints :: int

type_synonym hc_services = "(NamespacedName, hcInstance) gomap"

text \<open>The listener, \<^verbatim>\<open>Serve\<close> started in a goroutine, and the recorder, which can be nil.\<close>

record 'w hc_os =
  ho_Listen :: "string \<Rightarrow> 'w \<Rightarrow> (go_error + nat) \<times> 'w"
  ho_Close :: "nat \<Rightarrow> 'w \<Rightarrow> go_error option \<times> 'w"
  ho_go_Serve :: "HTTPServer \<Rightarrow> nat \<Rightarrow> 'w \<Rightarrow> 'w"
  ho_recorder :: "(NamespacedName \<Rightarrow> string \<Rightarrow> string \<Rightarrow> 'w \<Rightarrow> 'w) option"

record server =
  sv_hostname :: string
  sv_locked :: bool
  sv_services :: hc_services

text \<open>A call returns, panics (the state is what it leaves behind) or waits for the mutex forever.\<close>

datatype ('a, 's) outcome = Returns 'a 's | Panics 's | Blocks

section \<open>Operations\<close>

definition NewServer :: "string \<Rightarrow> server" where
  "NewServer hostname = \<lparr>sv_hostname = hostname, sv_locked = False, sv_services = []\<rparr>"

definition hc_addr :: "16 word \<Rightarrow> string" where
  "hc_addr port = '':'' @ show_nat (unat port)"

text \<open>The two loop bodies of \<^verbatim>\<open>SyncServices\<close>.\<close>

definition close_unneeded ::
  "'w hc_os \<Rightarrow> (NamespacedName, 16 word) gomap \<Rightarrow> NamespacedName \<times> hcInstance \<Rightarrow> hc_services \<times> 'w \<Rightarrow> hc_services \<times> 'w"
  where
  "close_unneeded os newServices entry s =
     (let (nsn, svc) = entry; (services, w) = s in
      if gm_get newServices nsn \<noteq> Some (hc_port svc)
      then (gm_del services nsn, snd (ho_Close os (hc_listener svc) w))
      else (services, w))"

definition start_failed :: "string \<Rightarrow> NamespacedName \<Rightarrow> 16 word \<Rightarrow> go_error \<Rightarrow> string" where
  "start_failed hostname nsn port err =
     ''node '' @ hostname @ '' failed to start healthcheck '' @ Quote (NamespacedName_String nsn) @
     '' on port '' @ show_nat (unat port) @ '': '' @ err"

definition open_needed ::
  "'w hc_os \<Rightarrow> string \<Rightarrow> NamespacedName \<times> 16 word \<Rightarrow> hc_services \<times> 'w \<Rightarrow> hc_services \<times> 'w" where
  "open_needed os hostname entry s =
     (let (nsn, port) = entry; (services, w) = s in
      if gm_has services nsn then (services, w)
      else
        (let addr = hc_addr port; srv = \<lparr>hs_Addr = addr, hs_handler_name = nsn\<rparr> in
         case ho_Listen os addr w of
           (Inl err, w1) \<Rightarrow>
             (services, (case ho_recorder os of
                 None \<Rightarrow> w1
               | Some Eventf \<Rightarrow> Eventf nsn ''FailedToStartHealthcheck'' (start_failed hostname nsn port err) w1))
         | (Inr listener, w1) \<Rightarrow>
             (gm_put services nsn \<lparr>hc_port = port, hc_listener = listener, hc_server = srv, hc_endpoints = 0\<rparr>,
              ho_go_Serve os srv listener w1)))"

definition SyncServices ::
  "'w hc_os \<Rightarrow> (NamespacedName, 16 word) gomap \<Rightarrow> server \<Rightarrow> 'w \<Rightarrow> (unit, server \<times> 'w) outcome" where
  "SyncServices os newServices hcs w =
     (if sv_locked hcs then Blocks
      else
        (let s1 = fold (close_unneeded os newServices) (sv_services hcs) (sv_services hcs, w);
             (services, w') = fold (open_needed os (sv_hostname hcs)) newServices s1
         in Returns () (hcs\<lparr>sv_services := services\<rparr>, w')))"

definition SyncEndpoints ::
  "(NamespacedName, int) gomap \<Rightarrow> server \<Rightarrow> 'w \<Rightarrow> (unit, server \<times> 'w) outcome" where
  "SyncEndpoints newEndpoints hcs w =
     (if sv_locked hcs then Blocks
      else
        (let m1 = fold (\<lambda>(nsn, count) services.
                case gm_get services nsn of
                  None \<Rightarrow> services
                | Some hci \<Rightarrow> gm_put services nsn (hci\<lparr>hc_endpoints := count\<rparr>)) newEndpoints (sv_services hcs);
             m2 = map (\<lambda>(nsn, hci). (nsn, if gm_has newEndpoints nsn then hci else hci\<lparr>hc_endpoints := 0\<rparr>)) m1
         in Returns () (hcs\<lparr>sv_services := m2\<rparr>, w)))"

record http_response =
  re_ContentType :: string
  re_Status :: nat
  re_Format :: string

definition StatusOK :: nat where "StatusOK = 200"
definition StatusServiceUnavailable :: nat where "StatusServiceUnavailable = 503"

definition nl :: string where "nl = [CHR 0x0A]"
definition tabs :: "nat \<Rightarrow> string" where "tabs n = replicate n (CHR 0x09)"

text \<open>The text before \<^verbatim>\<open>Dedent\<close>, and the answer: \<open>re_Format\<close> is what is passed to \<^verbatim>\<open>Fprintf\<close>.\<close>

definition hc_body :: "NamespacedName \<Rightarrow> int \<Rightarrow> string" where
  "hc_body name count =
     nl @ tabs 2 @ ''{'' @ nl @
     tabs 3 @ Quote ''service'' @ '': {'' @ nl @
     tabs 4 @ Quote ''namespace'' @ '': '' @ Quote (nn_Namespace name) @ '','' @ nl @
     tabs 4 @ Quote ''name'' @ '': '' @ Quote (nn_Name name) @ nl @
     tabs 3 @ ''},'' @ nl @
     tabs 3 @ Quote ''localEndpoints'' @ '': '' @ Itoa count @ nl @
     tabs 2 @ ''}'' @ nl @ tabs 2"

text \<open>A nil instance is dereferenced between \<^verbatim>\<open>Lock\<close> and \<^verbatim>\<open>Unlock\<close>, which is not deferred.\<close>

definition ServeHTTP ::
  "(string \<Rightarrow> string) \<Rightarrow> NamespacedName \<Rightarrow> server \<Rightarrow> 'w \<Rightarrow> (http_response, server \<times> 'w) outcome" where
  "ServeHTTP Dedent name hcs w =
     (if sv_locked hcs then Blocks
      else case gm_get (sv_services hcs) name of
          None \<Rightarrow> Panics (hcs\<lparr>sv_locked := True\<rparr>, w)
        | Some hci \<Rightarrow>
            (let count = hc_endpoints hci in
             Returns \<lparr>re_ContentType = ''application/json'',
                 re_Status = (if count = 0 then StatusServiceUnavailable else StatusOK),
                 re_Format = Trim (Dedent (hc_body name count)) nl\<rparr> (hcs, w)))"

section \<open>What the sockets promise\<close>

text \<open>
  \<open>opened w\<close> are the listeners this process has open with their addresses; \<open>avail a\<close> says that nobody
  else prevents it from listening on \<open>a\<close>.
\<close>

locale hc_sockets =
  fixes os :: "'w hc_os" and ok :: "'w \<Rightarrow> bool" and opened :: "'w \<Rightarrow> nat \<rightharpoonup> string" and avail :: "string \<Rightarrow> bool"
  assumes listen_opens: "ok w \<Longrightarrow> ho_Listen os a w = (Inr l, w') \<Longrightarrow>
      ok w' \<and> opened w l = None \<and> opened w' = (opened w)(l \<mapsto> a)"
    and listen_fails: "ok w \<Longrightarrow> ho_Listen os a w = (Inl e, w') \<Longrightarrow> ok w' \<and> opened w' = opened w"
    and listen_free: "ok w \<Longrightarrow> avail a \<Longrightarrow> a \<notin> ran (opened w) \<Longrightarrow> \<exists>l w'. ho_Listen os a w = (Inr l, w')"
    and close_closes: "ok w \<Longrightarrow> ok (snd (ho_Close os l w)) \<and> opened (snd (ho_Close os l w)) = (opened w)(l := None)"
    and serve_keeps: "ok w \<Longrightarrow> ok (ho_go_Serve os s l w) \<and> opened (ho_go_Serve os s l w) = opened w"
    and recorder_keeps: "ok w \<Longrightarrow> ho_recorder os = Some f \<Longrightarrow> ok (f n r m w) \<and> opened (f n r m w) = opened w"

text \<open>
  The invariant: one instance per service, each with a listener of its own, and the open listeners are
  exactly those of the instances, on the addresses of their ports.
\<close>

definition instance_sockets :: "hc_services \<Rightarrow> nat \<rightharpoonup> string" where
  "instance_sockets m = map_of (map (\<lambda>(_, i). (hc_listener i, hc_addr (hc_port i))) m)"

definition hc_inv :: "('w \<Rightarrow> bool) \<Rightarrow> ('w \<Rightarrow> nat \<rightharpoonup> string) \<Rightarrow> hc_services \<times> 'w \<Rightarrow> bool" where
  "hc_inv ok opened s \<longleftrightarrow> ok (snd s) \<and> wf_gomap (fst s) \<and> distinct (map (hc_listener \<circ> snd) (fst s)) \<and>
     opened (snd s) = instance_sockets (fst s)"

lemma hc_addr_inj: "hc_addr a = hc_addr b \<longleftrightarrow> a = b"
  by (simp add: hc_addr_def word_unat_eq_iff)

lemma instance_sockets_mem:
  assumes "distinct (map (hc_listener \<circ> snd) m)"
  shows "instance_sockets m l = Some a \<longleftrightarrow> (\<exists>(n, i) \<in> set m. hc_listener i = l \<and> a = hc_addr (hc_port i))"
proof -
  have "distinct (map fst (map (\<lambda>(_, i). (hc_listener i, hc_addr (hc_port i))) m))"
    using assms by (simp add: comp_def split_beta)
  from map_of_eq_Some_iff [OF this, of l a] show ?thesis
    by (force simp: instance_sockets_def)
qed

lemma instance_sockets_del:
  assumes "distinct (map (hc_listener \<circ> snd) m)" and "wf_gomap m" and "map_of m n = Some i"
  shows "instance_sockets (gm_del m n) = (instance_sockets m)(hc_listener i := None)"
  using assms
proof (induction m)
  case (Cons x m)
  obtain k j where x: "x = (k, j)" by (cases x)
  show ?case
  proof (cases "k = n")
    case True
    with Cons.prems x have "hc_listener i \<notin> (hc_listener \<circ> snd) ` set m" "map_of m n = None" "j = i" by auto
    moreover from this(2) have "gm_del m n = m" by (simp add: delete_id map_of_eq_None_iff)
    ultimately have "instance_sockets m (hc_listener i) = None"
      by (auto simp: instance_sockets_def map_of_eq_None_iff image_iff)
    with \<open>gm_del m n = m\<close> \<open>j = i\<close> True x show ?thesis
      by (simp add: instance_sockets_def fun_eq_iff AList.delete_eq)
  next
    case False
    with Cons x have "instance_sockets (gm_del m n) = (instance_sockets m)(hc_listener i := None)"
      by (simp add: fun_eq_iff)
    moreover have "hc_listener j \<noteq> hc_listener i"
      using Cons.prems x False by (auto dest!: map_of_SomeD simp: image_iff)
    ultimately show ?thesis using False x
      by (simp add: instance_sockets_def AList.delete_eq) (auto simp: fun_eq_iff)
  qed
qed simp

text \<open>The health check ports of the services are free and all different.\<close>

definition can_listen :: "(string \<Rightarrow> bool) \<Rightarrow> (NamespacedName, 16 word) gomap \<Rightarrow> bool" where
  "can_listen avail new \<longleftrightarrow> (\<forall>(n, p) \<in> set new. avail (hc_addr p)) \<and> distinct (map snd new)"

lemma hc_inv_put:
  assumes "hc_inv ok opened (m, w)" and "map_of m n = None" and "ok w'"
    and "opened w (hc_listener i) = None" and "opened w' = (opened w)(hc_listener i \<mapsto> hc_addr (hc_port i))"
  shows "hc_inv ok opened (gm_put m n i, w')"
proof -
  have "gm_put m n i = m @ [(n, i)]"
    using assms(2) by (induction m) auto
  moreover have "hc_listener i \<notin> (hc_listener \<circ> snd) ` set m"
    using assms(1,4) by (auto simp: hc_inv_def instance_sockets_def map_of_eq_None_iff image_iff)
  moreover have "wf_gomap (gm_put m n i)" using assms(1) by (simp add: hc_inv_def)
  moreover have "instance_sockets m (hc_listener i) = None" using assms(1,4) by (simp add: hc_inv_def)
  ultimately show ?thesis
    using assms(1,3,5) by (auto simp: hc_inv_def instance_sockets_def fun_eq_iff map_add_def split: option.splits)
qed

context hc_sockets
begin

abbreviation inv :: "hc_services \<times> 'w \<Rightarrow> bool" where "inv \<equiv> hc_inv ok opened"

lemma close_step:
  assumes "inv (m, w)" and "map_of m n = Some i"
  shows "inv (close_unneeded os new (n, i) (m, w))"
    and "map_of (fst (close_unneeded os new (n, i) (m, w))) =
      (if map_of new n = Some (hc_port i) then map_of m else (map_of m)(n := None))"
proof -
  have "distinct (map (hc_listener \<circ> snd) (gm_del m n))"
    using assms(1) unfolding hc_inv_def AList.delete_eq by (simp add: distinct_map_filter)
  then show "inv (close_unneeded os new (n, i) (m, w))"
    using assms close_closes [of w "hc_listener i"] instance_sockets_del [of m n i]
    by (simp add: close_unneeded_def hc_inv_def)
qed (simp add: close_unneeded_def)

lemma close_loop:
  assumes "inv (m, w)" and "set xs \<subseteq> set m" and "wf_gomap xs"
  shows "inv (fold (close_unneeded os new) xs (m, w)) \<and>
    map_of (fst (fold (close_unneeded os new) xs (m, w))) =
      (\<lambda>n. case map_of xs n of
         None \<Rightarrow> map_of m n | Some i \<Rightarrow> if map_of new n = Some (hc_port i) then Some i else None)"
  using assms
proof (induction xs arbitrary: m w)
  case (Cons x xs)
  obtain n i where x: "x = (n, i)" by (cases x)
  have m: "map_of m n = Some i" using Cons.prems x by (simp add: hc_inv_def wf_gomap_mem [symmetric])
  obtain m1 w1 where s: "close_unneeded os new (n, i) (m, w) = (m1, w1)" by fastforce
  note c = close_step [OF Cons.prems(1) m, of new, unfolded s fst_conv]
  have "set xs \<subseteq> set m1"
  proof
    fix y assume y: "y \<in> set xs"
    obtain k j where k: "y = (k, j)" by (cases y)
    have "map_of xs n = None" using Cons.prems(3) x by simp
    then have "k \<noteq> n" using y k by (auto simp: map_of_eq_None_iff image_iff)
    moreover have "map_of m k = Some j"
      using Cons.prems(1,2) y k by (auto simp: hc_inv_def wf_gomap_mem [symmetric])
    ultimately show "y \<in> set m1" using c k by (simp add: hc_inv_def wf_gomap_mem)
  qed
  from Cons.IH [OF c(1) this] Cons.prems(3) x
  have "inv (fold (close_unneeded os new) xs (m1, w1)) \<and> map_of (fst (fold (close_unneeded os new) xs (m1, w1))) =
      (\<lambda>n. case map_of xs n of
         None \<Rightarrow> map_of m1 n | Some i \<Rightarrow> if map_of new n = Some (hc_port i) then Some i else None)" by simp
  then show ?case using c(2) m Cons.prems(3) by (auto simp: x s fun_eq_iff split: option.splits)
qed simp

lemma open_step:
  assumes "inv (m, w)"
  shows "\<exists>m' w'. open_needed os h (n, port) (m, w) = (m', w') \<and> inv (m', w') \<and>
    (m' = m \<or> map_of m n = None \<and> (\<exists>i. map_of m' = (map_of m)(n \<mapsto> i) \<and> hc_port i = port \<and> hc_endpoints i = 0)) \<and>
    (map_of m n = None \<longrightarrow> avail (hc_addr port) \<longrightarrow> port \<notin> hc_port ` snd ` set m \<longrightarrow> map_of m' n \<noteq> None)"
proof (cases "map_of m n")
  case (Some i)
  then show ?thesis using assms by (simp add: open_needed_def)
next
  case None
  have ok: "ok w" "opened w = instance_sockets m" "distinct (map (hc_listener \<circ> snd) m)"
    using assms by (simp_all add: hc_inv_def)
  show ?thesis
  proof (cases "ho_Listen os (hc_addr port) w")
    case (Pair r w1)
    show ?thesis
    proof (cases r)
      case (Inl e)
      have "hc_addr port \<notin> ran (opened w)" if "port \<notin> hc_port ` snd ` set m"
        using that instance_sockets_mem [OF ok(3)] unfolding ok(2) ran_def by (force simp: hc_addr_inj)
      then have "\<not> (avail (hc_addr port) \<and> port \<notin> hc_port ` snd ` set m)"
        using listen_free [OF ok(1)] Pair Inl by fastforce
      moreover have "inv (m, w1)"
        using listen_fails [OF ok(1)] Pair Inl assms by (simp add: hc_inv_def)
      moreover from this have "inv (m, f n' s t w1)" if "ho_recorder os = Some f" for f n' s t
        using recorder_keeps [OF _ that] by (simp add: hc_inv_def)
      ultimately show ?thesis using None Pair Inl
        by (auto simp: open_needed_def Let_def split: option.splits)
    next
      case (Inr l)
      let ?s = "\<lparr>hs_Addr = hc_addr port, hs_handler_name = n\<rparr>"
      let ?i = "\<lparr>hc_port = port, hc_listener = l, hc_server = ?s, hc_endpoints = 0\<rparr>"
      have l: "ok w1" "opened w l = None" "opened w1 = (opened w)(l \<mapsto> hc_addr port)"
        using listen_opens [OF ok(1)] Pair Inr by auto
      have "inv (gm_put m n ?i, ho_go_Serve os ?s l w1)"
        by (rule hc_inv_put [OF assms None]) (use l serve_keeps [OF l(1)] in simp_all)
      with None Pair Inr show ?thesis by (auto simp: open_needed_def Let_def)
    qed
  qed
qed

lemma port_unused:
  assumes "can_listen avail new" and "inv (m, w)" and "\<forall>n i. map_of m n = Some i \<longrightarrow> map_of new n = Some (hc_port i)"
    and "map_of new n = Some p" and "map_of m n = None"
  shows "p \<notin> hc_port ` snd ` set m"
proof
  assume "p \<in> hc_port ` snd ` set m"
  then obtain k i where k: "(k, i) \<in> set m" "hc_port i = p" by auto
  then have mk: "map_of m k = Some i" using assms(2) by (simp add: hc_inv_def wf_gomap_mem)
  then have "k \<noteq> n" using assms(5) by auto
  moreover have "(k, p) \<in> set new" "(n, p) \<in> set new" using assms(3,4) mk k(2) by (auto dest: map_of_SomeD)
  ultimately show False using assms(1) unfolding can_listen_def distinct_map inj_on_def by fastforce
qed

lemma open_loop:
  assumes "inv (m, w)" and "set xs \<subseteq> set new" and "wf_gomap new"
    and "\<forall>n i. map_of m n = Some i \<longrightarrow> map_of new n = Some (hc_port i)"
  shows "\<exists>m' w'. fold (open_needed os h) xs (m, w) = (m', w') \<and> inv (m', w') \<and>
    (\<forall>n i. map_of m' n = Some i \<longrightarrow> map_of new n = Some (hc_port i)) \<and>
    (\<forall>n i. map_of m n = Some i \<longrightarrow> map_of m' n = Some i) \<and>
    (\<forall>n i. map_of m' n = Some i \<longrightarrow> map_of m n = Some i \<or> hc_endpoints i = 0) \<and>
    (can_listen avail new \<longrightarrow> (\<forall>n \<in> fst ` set xs. map_of m' n \<noteq> None))"
  using assms(1,2,4)
proof (induction xs arbitrary: m w)
  case (Cons x xs)
  obtain n p where x: "x = (n, p)" by (cases x)
  have new: "map_of new n = Some p" using Cons.prems(2) x assms(3) by (simp add: wf_gomap_mem [symmetric])
  from open_step [OF Cons.prems(1), of h n p] obtain m1 w1 where
    s: "open_needed os h (n, p) (m, w) = (m1, w1)" "inv (m1, w1)" and
    m1: "m1 = m \<or> map_of m n = None \<and> (\<exists>i. map_of m1 = (map_of m)(n \<mapsto> i) \<and> hc_port i = p \<and> hc_endpoints i = 0)" and
    opn: "map_of m n = None \<longrightarrow> avail (hc_addr p) \<longrightarrow> p \<notin> hc_port ` snd ` set m \<longrightarrow> map_of m1 n \<noteq> None" by blast
  have n1: "map_of m1 n \<noteq> None" if "can_listen avail new"
    using opn port_unused [OF that Cons.prems(1,3) new] that new m1
    by (cases "map_of m n") (auto simp: can_listen_def dest!: map_of_SomeD)
  have keep: "\<forall>k i. map_of m1 k = Some i \<longrightarrow> map_of new k = Some (hc_port i)"
    using m1 Cons.prems(3) new by (auto split: if_splits)
  have "set xs \<subseteq> set new" using Cons.prems(2) by simp
  from Cons.IH [OF s(2) this keep] obtain m' w' where
    r: "fold (open_needed os h) xs (m1, w1) = (m', w')" "inv (m', w')"
      "\<forall>n i. map_of m' n = Some i \<longrightarrow> map_of new n = Some (hc_port i)"
      "\<forall>n i. map_of m1 n = Some i \<longrightarrow> map_of m' n = Some i"
      "\<forall>n i. map_of m' n = Some i \<longrightarrow> map_of m1 n = Some i \<or> hc_endpoints i = 0"
      "can_listen avail new \<longrightarrow> (\<forall>n \<in> fst ` set xs. map_of m' n \<noteq> None)" by (elim exE conjE) (rule that)
  have "\<forall>k i. map_of m k = Some i \<longrightarrow> map_of m1 k = Some i" using m1 by auto
  with r(4) have "\<forall>k i. map_of m k = Some i \<longrightarrow> map_of m' k = Some i" by blast
  moreover have "map_of m k = Some i \<or> hc_endpoints i = 0" if "map_of m' k = Some i" for k i
  proof -
    from r(5) that have "map_of m1 k = Some i \<or> hc_endpoints i = 0" by blast
    then show ?thesis using m1 by (cases "k = n") auto
  qed
  moreover have "can_listen avail new \<longrightarrow> (\<forall>n \<in> fst ` set (x # xs). map_of m' n \<noteq> None)"
  proof (intro impI ballI)
    fix k assume c: "can_listen avail new" and "k \<in> fst ` set (x # xs)"
    then consider "k = n" | "k \<in> fst ` set xs" using x by auto
    then show "map_of m' k \<noteq> None" using n1 [OF c] r(4,6) c by cases blast+
  qed
  ultimately show ?case using r(1-3) s(1) x by auto
qed simp

lemma SyncServices_does:
  assumes "\<not> sv_locked hcs" and "inv (sv_services hcs, w)" and "wf_gomap new"
  shows "\<exists>m w'. SyncServices os new hcs w = Returns () (hcs\<lparr>sv_services := m\<rparr>, w') \<and> inv (m, w') \<and>
    (\<forall>n i. map_of m n = Some i \<longrightarrow> map_of new n = Some (hc_port i)) \<and>
    (\<forall>n i. map_of (sv_services hcs) n = Some i \<longrightarrow> map_of new n = Some (hc_port i) \<longrightarrow> map_of m n = Some i) \<and>
    (\<forall>n i. map_of m n = Some i \<longrightarrow> map_of (sv_services hcs) n = Some i \<or> hc_endpoints i = 0) \<and>
    (can_listen avail new \<longrightarrow> dom (map_of m) = dom (map_of new))"
proof -
  let ?old = "sv_services hcs"
  have wf: "wf_gomap ?old" using assms(2) by (simp add: hc_inv_def)
  obtain m1 w1 where c: "fold (close_unneeded os new) ?old (?old, w) = (m1, w1)" by fastforce
  from close_loop [OF assms(2) subset_refl wf, of new]
  have i1: "inv (m1, w1)" and m1: "map_of m1 n = (case map_of ?old n of None \<Rightarrow> None
      | Some i \<Rightarrow> if map_of new n = Some (hc_port i) then Some i else None)" for n
    unfolding c by (simp_all split: option.splits)
  have "\<forall>n i. map_of m1 n = Some i \<longrightarrow> map_of new n = Some (hc_port i)"
    by (auto simp: m1 split: option.splits if_splits)
  from open_loop [OF i1 subset_refl assms(3) this, of "sv_hostname hcs"] obtain m w' where
    o: "fold (open_needed os (sv_hostname hcs)) new (m1, w1) = (m, w')" "inv (m, w')"
      "\<forall>n i. map_of m n = Some i \<longrightarrow> map_of new n = Some (hc_port i)"
      "\<forall>n i. map_of m1 n = Some i \<longrightarrow> map_of m n = Some i"
      "\<forall>n i. map_of m n = Some i \<longrightarrow> map_of m1 n = Some i \<or> hc_endpoints i = 0"
      "can_listen avail new \<longrightarrow> (\<forall>n \<in> fst ` set new. map_of m n \<noteq> None)" by (elim exE conjE) (rule that)
  have sync: "SyncServices os new hcs w = Returns () (hcs\<lparr>sv_services := m\<rparr>, w')"
    using assms(1) c o(1) by (simp add: SyncServices_def)
  have kept: "map_of m n = Some i" if "map_of ?old n = Some i" "map_of new n = Some (hc_port i)" for n i
  proof -
    have "map_of m1 n = Some i" using that by (simp add: m1)
    with o(4) show ?thesis by blast
  qed
  have fresh: "map_of ?old n = Some i \<or> hc_endpoints i = 0" if "map_of m n = Some i" for n i
  proof -
    have "map_of m1 n = Some i \<or> hc_endpoints i = 0" using o(5) that by blast
    then show ?thesis by (cases "map_of ?old n") (simp_all add: m1 split: if_splits)
  qed
  have doms: "can_listen avail new \<longrightarrow> dom (map_of m) = dom (map_of new)"
  proof
    assume "can_listen avail new"
    then have "fst ` set new \<subseteq> dom (map_of m)" using o(6) by blast
    moreover have "dom (map_of m) \<subseteq> dom (map_of new)" using o(3) by blast
    ultimately show "dom (map_of m) = dom (map_of new)" by (simp add: dom_map_of_conv_image_fst)
  qed
  show ?thesis
    by (rule exI [of _ m], rule exI [of _ w'], intro conjI, rule sync, rule o(2), rule o(3), use kept in blast,
        use fresh in blast, rule doms)
qed

end

section \<open>Endpoints\<close>

definition hc_count :: "(NamespacedName, int) gomap \<Rightarrow> NamespacedName \<Rightarrow> int" where
  "hc_count eps n = (case gm_get eps n of None \<Rightarrow> 0 | Some c \<Rightarrow> c)"

lemma set_counts:
  assumes "wf_gomap eps"
  shows "map_of (fold (\<lambda>(nsn, count) services. case gm_get services nsn of
      None \<Rightarrow> services | Some hci \<Rightarrow> gm_put services nsn (hci\<lparr>hc_endpoints := count\<rparr>)) eps m) n =
    (case map_of eps n of None \<Rightarrow> map_of m n | Some c \<Rightarrow> map_option (hc_endpoints_update (\<lambda>_. c)) (map_of m n))"
  using assms
proof (induction eps arbitrary: m)
  case (Cons e eps)
  obtain k c where e: "e = (k, c)" by (cases e)
  from Cons show ?case by (cases "map_of m k") (auto simp: e split: option.splits)
qed simp

lemma SyncEndpoints_does:
  assumes "\<not> sv_locked hcs" and "wf_gomap eps"
  shows "\<exists>hcs'. SyncEndpoints eps hcs w = Returns () (hcs', w) \<and> \<not> sv_locked hcs' \<and> (\<forall>n.
    map_of (sv_services hcs') n = map_option (hc_endpoints_update (\<lambda>_. hc_count eps n)) (map_of (sv_services hcs) n))"
proof -
  have mp: "map_of (map (\<lambda>(nsn, hci). (nsn, f nsn hci)) m1) n = map_option (f n) (map_of m1 n)"
    for f :: "NamespacedName \<Rightarrow> hcInstance \<Rightarrow> hcInstance" and m1 :: hc_services and n
    by (induction m1) auto
  show ?thesis
    using assms(1) set_counts [OF assms(2), of "sv_services hcs"]
    by (auto simp: SyncEndpoints_def Let_def mp hc_count_def option.map_comp comp_def option.map_ident split: option.splits)
qed

section \<open>Reference sockets\<close>

record hc_world =
  hw_next :: nat
  hw_open :: "(nat, string) gomap"

definition ref_hc_ok :: "hc_world \<Rightarrow> bool" where
  "ref_hc_ok w \<longleftrightarrow> wf_gomap (hw_open w) \<and> (\<forall>l \<in> fst ` set (hw_open w). l < hw_next w)"

definition ref_hc_os :: "hc_world hc_os" where
  "ref_hc_os = \<lparr>ho_Listen = (\<lambda>a w. if a \<in> snd ` set (hw_open w) then (Inl ''address already in use'', w)
       else (Inr (hw_next w), \<lparr>hw_next = hw_next w + 1, hw_open = (hw_next w, a) # hw_open w\<rparr>)),
     ho_Close = (\<lambda>l w. (None, w\<lparr>hw_open := gm_del (hw_open w) l\<rparr>)),
     ho_go_Serve = (\<lambda>_ _ w. w), ho_recorder = None\<rparr>"

interpretation rhc: hc_sockets ref_hc_os ref_hc_ok "\<lambda>w. map_of (hw_open w)" "\<lambda>_. True"
proof
  fix w w' a l assume ok: "ref_hc_ok w" and l: "ho_Listen ref_hc_os a w = (Inr l, w')"
  then have "map_of (hw_open w) (hw_next w) = None" by (force simp: ref_hc_ok_def map_of_eq_None_iff)
  with ok l show "ref_hc_ok w' \<and> map_of (hw_open w) l = None \<and> map_of (hw_open w') = (map_of (hw_open w))(l \<mapsto> a)"
    by (fastforce simp: ref_hc_os_def ref_hc_ok_def less_Suc_eq split: if_splits)
next
  fix w a assume "ref_hc_ok w" "a \<notin> ran (map_of (hw_open w))"
  then show "\<exists>l w'. ho_Listen ref_hc_os a w = (Inr l, w')"
    by (auto simp: ref_hc_os_def ref_hc_ok_def ran_def wf_gomap_mem)
next
  fix w l assume "ref_hc_ok w"
  then show "ref_hc_ok (snd (ho_Close ref_hc_os l w)) \<and>
      map_of (hw_open (snd (ho_Close ref_hc_os l w))) = (map_of (hw_open w))(l := None)"
    by (auto simp: ref_hc_os_def ref_hc_ok_def AList.delete_eq wf_gomap_def distinct_map_filter delete_conv' [unfolded AList.delete_eq])
qed (auto simp: ref_hc_os_def split: if_splits)

section \<open>Properties\<close>

text \<open>
  (C27) Syncing the health check services keeps the invariant that the open listeners are exactly those
  of the instances, one each, on the addresses of their ports.  Whatever map is passed, the call returns,
  no instance is left on a wrong port and an instance that fits is kept with its listener and its count;
  a new one starts with no endpoints.  When the ports are different and free, every
  service gets its instance: a port that moves from one service to another is closed before it is opened.
\<close>

theorem healthcheck_services_invariant:
  assumes "hc_sockets os ok opened avail" and "\<not> sv_locked hcs" and "wf_gomap new"
    and "hc_inv ok opened (sv_services hcs, w)"
  shows "\<exists>m w'. SyncServices os new hcs w = Returns () (hcs\<lparr>sv_services := m\<rparr>, w') \<and> hc_inv ok opened (m, w') \<and>
    (\<forall>n i. map_of m n = Some i \<longrightarrow> map_of new n = Some (hc_port i)) \<and>
    (\<forall>n i. map_of (sv_services hcs) n = Some i \<longrightarrow> map_of new n = Some (hc_port i) \<longrightarrow> map_of m n = Some i) \<and>
    (\<forall>n i. map_of m n = Some i \<longrightarrow> map_of (sv_services hcs) n = Some i \<or> hc_endpoints i = 0) \<and>
    (can_listen avail new \<longrightarrow> dom (map_of m) = dom (map_of new))"
  by (rule hc_sockets.SyncServices_does [OF assms(1,2,4,3)])

definition ex_hc_name :: "string \<Rightarrow> NamespacedName" where
  "ex_hc_name s = \<lparr>nn_Namespace = ''ns'', nn_Name = s\<rparr>"

definition ex_hc_inst :: "16 word \<Rightarrow> nat \<Rightarrow> string \<Rightarrow> hcInstance" where
  "ex_hc_inst p l s = \<lparr>hc_port = p, hc_listener = l,
     hc_server = \<lparr>hs_Addr = hc_addr p, hs_handler_name = ex_hc_name s\<rparr>, hc_endpoints = 3\<rparr>"

text \<open>Two services that swap their ports.\<close>

definition ex_hc_server :: server where
  "ex_hc_server = \<lparr>sv_hostname = ''node1'', sv_locked = False,
     sv_services = [(ex_hc_name ''a'', ex_hc_inst 1 0 ''a''), (ex_hc_name ''b'', ex_hc_inst 2 1 ''b'')]\<rparr>"

definition ex_hc_world :: hc_world where
  "ex_hc_world = \<lparr>hw_next = 2, hw_open = [(0, hc_addr 1), (1, hc_addr 2)]\<rparr>"

lemma ex_hc_inv: "hc_inv ref_hc_ok (\<lambda>w. map_of (hw_open w)) (sv_services ex_hc_server, ex_hc_world)"
  by (auto simp: hc_inv_def ref_hc_ok_def ex_hc_world_def ex_hc_server_def ex_hc_name_def ex_hc_inst_def
      instance_sockets_def)

theorem healthcheck_services_invariant_witness:
  "\<exists>m w'. SyncServices ref_hc_os [(ex_hc_name ''a'', 2), (ex_hc_name ''b'', 1)] ex_hc_server ex_hc_world =
      Returns () (ex_hc_server\<lparr>sv_services := m\<rparr>, w') \<and>
    dom (map_of m) = {ex_hc_name ''a'', ex_hc_name ''b''}"
proof -
  have "can_listen (\<lambda>_. True) [(ex_hc_name ''a'', 2), (ex_hc_name ''b'', 1)]" by (simp add: can_listen_def)
  with ex_hc_inv show ?thesis
    using healthcheck_services_invariant [OF rhc.hc_sockets_axioms, of ex_hc_server
        "[(ex_hc_name ''a'', 2), (ex_hc_name ''b'', 1)]" ex_hc_world]
    by (fastforce simp: ex_hc_server_def ex_hc_name_def)
qed

text \<open>
  (C28) What the health check reports.  After the endpoints were synced, a request for a service that
  has an instance is answered with status 200 exactly when the new map holds a non-zero count for it, and
  with 503 otherwise, the count of a service that the map does not mention included; the text is
  that of the new count.  Endpoints of other services are dropped: no instance appears.
\<close>

theorem healthcheck_reports_endpoints:
  assumes "\<not> sv_locked hcs" and "wf_gomap eps"
  shows "\<exists>hcs'. SyncEndpoints eps hcs w = Returns () (hcs', w) \<and>
    dom (map_of (sv_services hcs')) = dom (map_of (sv_services hcs)) \<and>
    (\<forall>n \<in> dom (map_of (sv_services hcs)). ServeHTTP Dedent n hcs' w = Returns
       \<lparr>re_ContentType = ''application/json'', re_Status = (if hc_count eps n = 0 then 503 else 200),
        re_Format = Trim (Dedent (hc_body n (hc_count eps n))) nl\<rparr> (hcs', w))"
proof -
  obtain hcs' where m: "SyncEndpoints eps hcs w = Returns () (hcs', w)" "\<not> sv_locked hcs'"
    "\<forall>n. map_of (sv_services hcs') n = map_option (hc_endpoints_update (\<lambda>_. hc_count eps n)) (map_of (sv_services hcs) n)"
    using SyncEndpoints_does [OF assms, of w] by (elim exE conjE) (rule that)
  have "dom (map_of (sv_services hcs')) = dom (map_of (sv_services hcs))" using m(3) by (auto simp: dom_def)
  with m show ?thesis
    by (intro exI [of _ hcs']) (auto simp: ServeHTTP_def Let_def StatusOK_def StatusServiceUnavailable_def)
qed

theorem healthcheck_reports_endpoints_witness:
  "\<exists>hcs'. SyncEndpoints [(ex_hc_name ''a'', 1), (ex_hc_name ''c'', 5)] ex_hc_server () = Returns () (hcs', ()) \<and>
    (\<exists>t. ServeHTTP id (ex_hc_name ''a'') hcs' () = Returns
       \<lparr>re_ContentType = ''application/json'', re_Status = 200, re_Format = t\<rparr> (hcs', ())) \<and>
    (\<exists>t. ServeHTTP id (ex_hc_name ''b'') hcs' () = Returns
       \<lparr>re_ContentType = ''application/json'', re_Status = 503, re_Format = t\<rparr> (hcs', ()))"
proof -
  have d: "ex_hc_name ''a'' \<in> dom (map_of (sv_services ex_hc_server))"
    "ex_hc_name ''b'' \<in> dom (map_of (sv_services ex_hc_server))"
    by (simp_all add: ex_hc_server_def ex_hc_name_def)
  have c: "hc_count [(ex_hc_name ''a'', 1), (ex_hc_name ''c'', 5)] (ex_hc_name ''a'') = 1"
    "hc_count [(ex_hc_name ''a'', 1), (ex_hc_name ''c'', 5)] (ex_hc_name ''b'') = 0"
    by (simp_all add: hc_count_def ex_hc_name_def)
  from healthcheck_reports_endpoints [of ex_hc_server "[(ex_hc_name ''a'', 1), (ex_hc_name ''c'', 5)]" "()" id]
  obtain hcs' where h: "SyncEndpoints [(ex_hc_name ''a'', 1), (ex_hc_name ''c'', 5)] ex_hc_server () = Returns () (hcs', ())"
    "\<forall>n \<in> dom (map_of (sv_services ex_hc_server)). ServeHTTP id n hcs' () = Returns
       \<lparr>re_ContentType = ''application/json'',
        re_Status = (if hc_count [(ex_hc_name ''a'', 1), (ex_hc_name ''c'', 5)] n = 0 then 503 else 200),
        re_Format = Trim (id (hc_body n (hc_count [(ex_hc_name ''a'', 1), (ex_hc_name ''c'', 5)] n))) nl\<rparr> (hcs', ())"
    by (auto simp: ex_hc_server_def ex_hc_name_def)
  from h(1) h(2) [rule_format, OF d(1)] h(2) [rule_format, OF d(2)] show ?thesis unfolding c by auto
qed

text \<open>
  (C29) A request over a connection that outlives the health check of its service panics while the mutex is
  held.  Whatever the server held, after a sync that no longer lists the service its handler panics, and from then on
  every sync and every request of every service waits forever.
\<close>

theorem healthcheck_panic_keeps_lock:
  assumes "hc_sockets os ok opened avail" and "\<not> sv_locked hcs" and "wf_gomap new"
    and "hc_inv ok opened (sv_services hcs, w)" and "map_of new n = None"
  shows "\<exists>hcs1 w1 hcs2. SyncServices os new hcs w = Returns () (hcs1, w1) \<and>
    ServeHTTP Dedent n hcs1 w1 = Panics (hcs2, w1) \<and> SyncServices os new' hcs2 w2 = Blocks \<and>
    SyncEndpoints eps hcs2 w2 = Blocks \<and> ServeHTTP Dedent k hcs2 w2 = Blocks"
proof -
  obtain m w1 where s: "SyncServices os new hcs w = Returns () (hcs\<lparr>sv_services := m\<rparr>, w1)"
    "\<forall>n i. map_of m n = Some i \<longrightarrow> map_of new n = Some (hc_port i)"
    using hc_sockets.SyncServices_does [OF assms(1,2,4,3)] by (elim exE conjE) (rule that)
  then have "map_of m n = None" using assms(5) by (cases "map_of m n") auto
  with s(1) assms(2) show ?thesis by (simp add: ServeHTTP_def SyncServices_def SyncEndpoints_def)
qed

theorem healthcheck_panic_keeps_lock_witness:
  "\<exists>hcs1 w1 hcs2. SyncServices ref_hc_os [(ex_hc_name ''b'', 2)] ex_hc_server ex_hc_world = Returns () (hcs1, w1) \<and>
    ServeHTTP id (ex_hc_name ''a'') hcs1 w1 = Panics (hcs2, w1) \<and>
    SyncServices ref_hc_os [(ex_hc_name ''a'', 1)] hcs2 ex_hc_world = Blocks \<and>
    SyncEndpoints [] hcs2 ex_hc_world = Blocks \<and> ServeHTTP id (ex_hc_name ''b'') hcs2 ex_hc_world = Blocks"
  by (rule healthcheck_panic_keeps_lock [OF rhc.hc_sockets_axioms _ _ ex_hc_inv])
    (simp_all add: ex_hc_server_def ex_hc_name_def)

end
