(* ===== verification/Bounded_Runner.thy ===== *)
theory Bounded_Runner
  imports Prelude
begin

text \<open>
  src/pkg/util/async: the runner that bounds how often a function runs from both sides
  (bounded_frequency_runner.go), and the runner that starts and stops a group of loops (runner.go).
  Times and durations are nanoseconds.  The token bucket of the package flowcontrol is a parameter; so
  is the function to run, which takes some time and changes the world.  The mutex is held for a whole
  \<^verbatim>\<open>tryRun\<close>, so it is one step of the loop; \<^verbatim>\<open>Run\<close> and the clock step in between.
\<close>

section \<open>Timers\<close>

text \<open>A timer has the current time, the time it is armed for, and a channel that holds at most one tick.\<close>

record timer =
  tm_Now :: int
  tm_deadline :: "int option"
  tm_C :: bool

definition timer_Reset :: "int \<Rightarrow> timer \<Rightarrow> timer" where
  "timer_Reset d t = t\<lparr>tm_deadline := Some (tm_Now t + d)\<rparr>"

text \<open>Stopping does not drain the channel.\<close>

definition timer_Stop :: "timer \<Rightarrow> timer" where
  "timer_Stop t = t\<lparr>tm_deadline := None\<rparr>"

definition timer_elapse :: "int \<Rightarrow> timer \<Rightarrow> timer" where
  "timer_elapse n t =
     (case tm_deadline t of
        Some d \<Rightarrow> if d \<le> n then t\<lparr>tm_Now := n, tm_deadline := None, tm_C := True\<rparr> else t\<lparr>tm_Now := n\<rparr>
      | None \<Rightarrow> t\<lparr>tm_Now := n\<rparr>)"

definition maxDuration :: int where "maxDuration = 2 ^ 63 - 1"

text \<open>\<^verbatim>\<open>time.Since\<close> saturates; the zero time (no run yet) is further away than that.\<close>

definition timer_Since :: "timer \<Rightarrow> int option \<Rightarrow> int" where
  "timer_Since t lastTime = (case lastTime of None \<Rightarrow> maxDuration | Some l \<Rightarrow> min maxDuration (tm_Now t - l))"

section \<open>The runner\<close>

text \<open>\<open>tb_New minInterval burst now\<close> fills one token per \<open>minInterval\<close>, up to \<open>burst\<close>.\<close>

record 'l token_bucket =
  tb_New :: "int \<Rightarrow> int \<Rightarrow> int \<Rightarrow> 'l"
  tb_TryAccept :: "int \<Rightarrow> 'l \<Rightarrow> bool \<times> 'l"
  tb_Stop :: "'l \<Rightarrow> 'l"

datatype 'l rateLimiter = nullLimiter | TokenBucket 'l

fun TryAccept :: "'l token_bucket \<Rightarrow> int \<Rightarrow> 'l rateLimiter \<Rightarrow> bool \<times> 'l rateLimiter" where
  "TryAccept tb now nullLimiter = (True, nullLimiter)"
| "TryAccept tb now (TokenBucket l) = (let (b, l') = tb_TryAccept tb now l in (b, TokenBucket l'))"

fun limiter_Stop :: "'l token_bucket \<Rightarrow> 'l rateLimiter \<Rightarrow> 'l rateLimiter" where
  "limiter_Stop tb nullLimiter = nullLimiter"
| "limiter_Stop tb (TokenBucket l) = TokenBucket (tb_Stop tb l)"

record 'l BoundedFrequencyRunner =
  bf_name :: string
  bf_minInterval :: int
  bf_maxInterval :: int
  bf_run :: bool
  bf_lastRun :: "int option"
  bf_timer :: timer
  bf_limiter :: "'l rateLimiter"

text \<open>\<open>None\<close> is the panic on a maximum below the minimum or a nil timer.\<close>

definition construct ::
  "'l token_bucket \<Rightarrow> string \<Rightarrow> int \<Rightarrow> int \<Rightarrow> int \<Rightarrow> timer option \<Rightarrow> 'l BoundedFrequencyRunner option" where
  "construct tb name minInterval maxInterval burstRuns tm =
     (if maxInterval < minInterval then None
      else case tm of
          None \<Rightarrow> None
        | Some t \<Rightarrow> Some \<lparr>bf_name = name, bf_minInterval = minInterval, bf_maxInterval = maxInterval, bf_run = False,
            bf_lastRun = None, bf_timer = t,
            bf_limiter = (if minInterval = 0 then nullLimiter
                          else TokenBucket (tb_New tb minInterval burstRuns (tm_Now t)))\<rparr>)"

text \<open>The first tick is consumed, so the timer starts idle with an empty channel.\<close>

definition NewBoundedFrequencyRunner ::
  "'l token_bucket \<Rightarrow> int \<Rightarrow> string \<Rightarrow> int \<Rightarrow> int \<Rightarrow> int \<Rightarrow> 'l BoundedFrequencyRunner option" where
  "NewBoundedFrequencyRunner tb now name minInterval maxInterval burstRuns =
     construct tb name minInterval maxInterval burstRuns (Some \<lparr>tm_Now = now, tm_deadline = None, tm_C = False\<rparr>)"

text \<open>A request is dropped when one is waiting already.\<close>

definition bfr_Run :: "'l BoundedFrequencyRunner \<Rightarrow> 'l BoundedFrequencyRunner" where
  "bfr_Run bfr = (if bf_run bfr then bfr else bfr\<lparr>bf_run := True\<rparr>)"

definition bfr_stop :: "'l token_bucket \<Rightarrow> 'l BoundedFrequencyRunner \<Rightarrow> 'l BoundedFrequencyRunner" where
  "bfr_stop tb bfr = bfr\<lparr>bf_limiter := limiter_Stop tb (bf_limiter bfr), bf_timer := timer_Stop (bf_timer bfr)\<rparr>"

text \<open>\<open>fn w\<close> is how long the function takes and the world it leaves; the clock goes on meanwhile.\<close>

definition tryRun ::
  "'l token_bucket \<Rightarrow> ('w \<Rightarrow> int \<times> 'w) \<Rightarrow> 'l BoundedFrequencyRunner \<Rightarrow> 'w \<Rightarrow> 'l BoundedFrequencyRunner \<times> 'w" where
  "tryRun tb fn bfr w =
     (let t = bf_timer bfr; (accepted, lim) = TryAccept tb (tm_Now t) (bf_limiter bfr); bfr1 = bfr\<lparr>bf_limiter := lim\<rparr> in
      if accepted then
        (let (d, w1) = fn w; t1 = timer_elapse (tm_Now t + d) t in
         (bfr1\<lparr>bf_lastRun := Some (tm_Now t1), bf_timer := timer_Reset (bf_maxInterval bfr) (timer_Stop t1)\<rparr>, w1))
      else
        (let elapsed = timer_Since t (bf_lastRun bfr);
             nextPossible = bf_minInterval bfr - elapsed;
             nextScheduled = bf_maxInterval bfr - elapsed in
         (if nextPossible < nextScheduled then bfr1\<lparr>bf_timer := timer_Reset nextPossible (timer_Stop t)\<rparr> else bfr1, w)))"

section \<open>The loop\<close>

text \<open>
  A state of the loop: the runner, the world, whether the loop runs, and a history variable: a request
  was taken and the function has not run since.
\<close>

record ('l, 'w) loop_state =
  ls_bfr :: "'l BoundedFrequencyRunner"
  ls_w :: 'w
  ls_running :: bool
  ls_owed :: bool

definition Loop_start :: "'l BoundedFrequencyRunner \<Rightarrow> 'w \<Rightarrow> ('l, 'w) loop_state" where
  "Loop_start bfr w = \<lparr>ls_bfr = bfr\<lparr>bf_timer := timer_Reset (bf_maxInterval bfr) (bf_timer bfr)\<rparr>, ls_w = w,
     ls_running = True, ls_owed = False\<rparr>"

definition Loop_tick :: "'l token_bucket \<Rightarrow> ('w \<Rightarrow> int \<times> 'w) \<Rightarrow> ('l, 'w) loop_state \<Rightarrow> ('l, 'w) loop_state" where
  "Loop_tick tb fn s =
     (let b = ls_bfr s; b0 = b\<lparr>bf_timer := (bf_timer b)\<lparr>tm_C := False\<rparr>\<rparr>; (b1, w1) = tryRun tb fn b0 (ls_w s) in
      s\<lparr>ls_bfr := b1, ls_w := w1,
        ls_owed := (ls_owed s \<and> \<not> fst (TryAccept tb (tm_Now (bf_timer b)) (bf_limiter b)))\<rparr>)"

definition Loop_take :: "'l token_bucket \<Rightarrow> ('w \<Rightarrow> int \<times> 'w) \<Rightarrow> ('l, 'w) loop_state \<Rightarrow> ('l, 'w) loop_state" where
  "Loop_take tb fn s =
     (let b = ls_bfr s; (b1, w1) = tryRun tb fn (b\<lparr>bf_run := False\<rparr>) (ls_w s) in
      s\<lparr>ls_bfr := b1, ls_w := w1,
        ls_owed := (\<not> fst (TryAccept tb (tm_Now (bf_timer b)) (bf_limiter b)))\<rparr>)"

definition clock :: "int \<Rightarrow> ('l, 'w) loop_state \<Rightarrow> ('l, 'w) loop_state" where
  "clock n s = s\<lparr>ls_bfr := (ls_bfr s)\<lparr>bf_timer := timer_elapse n (bf_timer (ls_bfr s))\<rparr>\<rparr>"

inductive Loop_step :: "'l token_bucket \<Rightarrow> ('w \<Rightarrow> int \<times> 'w) \<Rightarrow> ('l, 'w) loop_state \<Rightarrow> ('l, 'w) loop_state \<Rightarrow> bool"
  for tb fn where
  Elapse: "tm_Now (bf_timer (ls_bfr s)) \<le> n \<Longrightarrow> Loop_step tb fn s (clock n s)"
| Request: "Loop_step tb fn s (s\<lparr>ls_bfr := bfr_Run (ls_bfr s)\<rparr>)"
| Tick: "ls_running s \<Longrightarrow> tm_C (bf_timer (ls_bfr s)) \<Longrightarrow> Loop_step tb fn s (Loop_tick tb fn s)"
| Take: "ls_running s \<Longrightarrow> bf_run (ls_bfr s) \<Longrightarrow> Loop_step tb fn s (Loop_take tb fn s)"
| Halt: "ls_running s \<Longrightarrow> Loop_step tb fn s (s\<lparr>ls_bfr := bfr_stop tb (ls_bfr s), ls_running := False\<rparr>)"

abbreviation Loop_reachable where
  "Loop_reachable tb fn \<equiv> (Loop_step tb fn)\<^sup>*\<^sup>*"

section \<open>What the token bucket promises\<close>

text \<open>
  \<open>valid s l\<close>: the bucket \<open>l\<close> was last used at time \<open>s\<close>; \<open>acc l\<close> is when it last accepted.  A bucket refuses
  only within \<open>m\<close> of the last acceptance.
\<close>

locale bucket_law =
  fixes tb :: "'l token_bucket" and m :: int and valid :: "int \<Rightarrow> 'l \<Rightarrow> bool" and acc :: "'l \<Rightarrow> int option"
  assumes new_bucket: "1 \<le> burst \<Longrightarrow> valid now (tb_New tb m burst now) \<and> acc (tb_New tb m burst now) = None"
    and accepts: "valid s l \<Longrightarrow> s \<le> now \<Longrightarrow> tb_TryAccept tb now l = (True, l') \<Longrightarrow> valid now l' \<and> acc l' = Some now"
    and refuses: "valid s l \<Longrightarrow> s \<le> now \<Longrightarrow> tb_TryAccept tb now l = (False, l') \<Longrightarrow>
      valid now l' \<and> acc l' = acc l \<and> (\<exists>a. acc l = Some a \<and> now < a + m)"

definition bfr_base :: "int \<Rightarrow> 'l BoundedFrequencyRunner \<Rightarrow> int" where
  "bfr_base t0 b = (case bf_lastRun b of None \<Rightarrow> t0 | Some r \<Rightarrow> r)"

text \<open>The bucket knows of no acceptance after the last run.\<close>

definition limiter_inv :: "(int \<Rightarrow> 'l \<Rightarrow> bool) \<Rightarrow> ('l \<Rightarrow> int option) \<Rightarrow> 'l BoundedFrequencyRunner \<Rightarrow> bool" where
  "limiter_inv valid acc b \<longleftrightarrow>
     (case bf_limiter b of
        nullLimiter \<Rightarrow> True
      | TokenBucket l \<Rightarrow> \<exists>s. valid s l \<and> s \<le> tm_Now (bf_timer b) \<and>
          (\<forall>a. acc l = Some a \<longrightarrow> (\<exists>r. bf_lastRun b = Some r \<and> a \<le> r)))"

text \<open>
  The timer invariant of a running loop: a tick waits or the timer is armed for no later than the
  maximal interval after the last run.  With equal intervals a throttled run does not arm
  the timer again, but then the timer is still armed.
\<close>

definition timer_inv :: "int \<Rightarrow> 'l BoundedFrequencyRunner \<Rightarrow> bool" where
  "timer_inv t0 b \<longleftrightarrow>
     (tm_C (bf_timer b) \<or> (\<exists>d. tm_deadline (bf_timer b) = Some d \<and> d \<le> bfr_base t0 b + bf_maxInterval b)) \<and>
     (bf_minInterval b = bf_maxInterval b \<longrightarrow>
        (case tm_deadline (bf_timer b) of
           Some d \<Rightarrow> d = bfr_base t0 b + bf_maxInterval b
         | None \<Rightarrow> bfr_base t0 b + bf_maxInterval b \<le> tm_Now (bf_timer b)))"

definition owed_inv :: "('l, 'w) loop_state \<Rightarrow> bool" where
  "owed_inv s \<longleftrightarrow> (ls_owed s \<longrightarrow> (\<exists>r. bf_lastRun (ls_bfr s) = Some r \<and> (tm_C (bf_timer (ls_bfr s)) \<or>
     (\<exists>d. tm_deadline (bf_timer (ls_bfr s)) = Some d \<and> d \<le> r + bf_minInterval (ls_bfr s)))))"

definition loop_inv ::
  "(int \<Rightarrow> 'l \<Rightarrow> bool) \<Rightarrow> ('l \<Rightarrow> int option) \<Rightarrow> int \<Rightarrow> int \<Rightarrow> int \<Rightarrow> ('l, 'w) loop_state \<Rightarrow> bool" where
  "loop_inv valid acc t0 mi ma s \<longleftrightarrow>
     bf_minInterval (ls_bfr s) = mi \<and> bf_maxInterval (ls_bfr s) = ma \<and>
     bfr_base t0 (ls_bfr s) \<le> tm_Now (bf_timer (ls_bfr s)) \<and>
     (ls_running s \<longrightarrow> limiter_inv valid acc (ls_bfr s) \<and> timer_inv t0 (ls_bfr s) \<and> owed_inv s)"

context bucket_law
begin

lemma TryAccept_accepts:
  assumes "limiter_inv valid acc b" and "TryAccept tb (tm_Now (bf_timer b)) (bf_limiter b) = (True, lim)"
    and "bf_limiter b' = lim" "bf_lastRun b' = Some r" "tm_Now (bf_timer b') = r" "tm_Now (bf_timer b) \<le> r"
  shows "limiter_inv valid acc b'"
proof (cases "bf_limiter b")
  case nullLimiter
  with assms(2,3) show ?thesis by (simp add: limiter_inv_def)
next
  case (TokenBucket l)
  then obtain l' s where l: "tb_TryAccept tb (tm_Now (bf_timer b)) l = (True, l')" "lim = TokenBucket l'"
    "valid s l" "s \<le> tm_Now (bf_timer b)"
    using assms(1,2) by (auto simp: limiter_inv_def split: prod.splits)
  from accepts [OF l(3,4,1)] l(2) assms(3-6) show ?thesis by (auto simp: limiter_inv_def)
qed

lemma TryAccept_refuses:
  assumes "limiter_inv valid acc b" and "TryAccept tb (tm_Now (bf_timer b)) (bf_limiter b) = (False, lim)"
  shows "\<exists>r. bf_lastRun b = Some r \<and> tm_Now (bf_timer b) < r + m"
    and "bf_limiter b' = lim \<Longrightarrow> bf_lastRun b' = bf_lastRun b \<Longrightarrow> tm_Now (bf_timer b') = tm_Now (bf_timer b) \<Longrightarrow>
      limiter_inv valid acc b'"
proof -
  obtain l l' s where l: "bf_limiter b = TokenBucket l" "tb_TryAccept tb (tm_Now (bf_timer b)) l = (False, l')"
    "lim = TokenBucket l'" "valid s l" "s \<le> tm_Now (bf_timer b)"
    "\<forall>a. acc l = Some a \<longrightarrow> (\<exists>r. bf_lastRun b = Some r \<and> a \<le> r)"
    using assms by (cases "bf_limiter b") (auto simp: limiter_inv_def split: prod.splits)
  from refuses [OF l(4,5,2)] obtain a where
    r: "valid (tm_Now (bf_timer b)) l'" "acc l' = acc l" "acc l = Some a" "tm_Now (bf_timer b) < a + m" by auto
  with l(6) obtain q where "bf_lastRun b = Some q" "a \<le> q" by blast
  with r(4) show "\<exists>r. bf_lastRun b = Some r \<and> tm_Now (bf_timer b) < r + m" by auto
  show "limiter_inv valid acc b'"
    if "bf_limiter b' = lim" "bf_lastRun b' = bf_lastRun b" "tm_Now (bf_timer b') = tm_Now (bf_timer b)"
    using l(3,6) r(1,2) that by (auto simp: limiter_inv_def)
qed

text \<open>The two outcomes of \<^verbatim>\<open>tryRun\<close>.\<close>

lemma tryRun_ran:
  assumes "limiter_inv valid acc b" and "fst (TryAccept tb (tm_Now (bf_timer b)) (bf_limiter b))"
    and "0 \<le> fst (fn w)" and "r = tm_Now (bf_timer b) + fst (fn w)"
  shows "\<exists>b'. tryRun tb fn b w = (b', snd (fn w)) \<and> limiter_inv valid acc b' \<and> bf_lastRun b' = Some r \<and>
    tm_Now (bf_timer b') = r \<and> tm_deadline (bf_timer b') = Some (r + bf_maxInterval b) \<and>
    bf_minInterval b' = bf_minInterval b \<and> bf_maxInterval b' = bf_maxInterval b"
proof -
  obtain lim where a: "TryAccept tb (tm_Now (bf_timer b)) (bf_limiter b) = (True, lim)" using assms(2) by (metis prod.collapse)
  have n: "tm_Now (timer_elapse q t) = q" for q t by (simp add: timer_elapse_def split: option.splits)
  show ?thesis using assms(3,4) a n TryAccept_accepts [OF assms(1) a, of _ r]
    by (simp add: tryRun_def Let_def split_beta timer_Reset_def timer_Stop_def)
qed

lemma tryRun_throttled:
  assumes "limiter_inv valid acc b" and "\<not> fst (TryAccept tb (tm_Now (bf_timer b)) (bf_limiter b))"
    and "bf_minInterval b = m" and "m \<le> bf_maxInterval b" and "m \<le> maxDuration"
  shows "\<exists>b' r. tryRun tb fn b w = (b', w) \<and> limiter_inv valid acc b' \<and> bf_lastRun b = Some r \<and>
    tm_Now (bf_timer b) < r + m \<and> bf_lastRun b' = Some r \<and> tm_Now (bf_timer b') = tm_Now (bf_timer b) \<and>
    tm_C (bf_timer b') = tm_C (bf_timer b) \<and>
    tm_deadline (bf_timer b') = (if m < bf_maxInterval b then Some (r + m) else tm_deadline (bf_timer b)) \<and>
    bf_minInterval b' = m \<and> bf_maxInterval b' = bf_maxInterval b"
proof -
  obtain lim where a: "TryAccept tb (tm_Now (bf_timer b)) (bf_limiter b) = (False, lim)" using assms(2) by (metis prod.collapse)
  note rf = TryAccept_refuses [OF assms(1) a]
  obtain r where r: "bf_lastRun b = Some r" "tm_Now (bf_timer b) < r + m" using rf(1) by blast
  have e: "timer_Since (bf_timer b) (Some r) = tm_Now (bf_timer b) - r"
    using r(2) assms(5) by (simp add: timer_Since_def)
  show ?thesis using r(2) rf(2) a assms(3,4)
    by (intro exI [of _ "fst (tryRun tb fn b w)"] exI [of _ r])
      (auto simp: tryRun_def Let_def timer_Reset_def timer_Stop_def r(1) e)
qed

lemma loop_tick_inv:
  assumes "loop_inv valid acc t0 m ma s" and "ls_running s" and "m \<le> ma" and "m \<le> maxDuration"
    and "\<And>w. 0 \<le> fst (fn w)"
    and "b = ls_bfr s" and "bf_timer b0 = bf_timer b \<or> tm_C (bf_timer b) \<and> bf_timer b0 = (bf_timer b)\<lparr>tm_C := False\<rparr>"
    and "bf_limiter b0 = bf_limiter b" "bf_lastRun b0 = bf_lastRun b"
      "bf_minInterval b0 = bf_minInterval b" "bf_maxInterval b0 = bf_maxInterval b"
    and "tryRun tb fn b0 (ls_w s) = (b1, w1)"
    and "owed \<longrightarrow> \<not> fst (TryAccept tb (tm_Now (bf_timer b)) (bf_limiter b))"
  shows "loop_inv valid acc t0 m ma (s\<lparr>ls_bfr := b1, ls_w := w1, ls_owed := owed\<rparr>)"
proof -
  have now: "tm_Now (bf_timer b0) = tm_Now (bf_timer b)" "tm_deadline (bf_timer b0) = tm_deadline (bf_timer b)"
    using assms(7) by auto
  have i: "limiter_inv valid acc b" "timer_inv t0 b" "bf_minInterval b = m" "bf_maxInterval b = ma"
    "bfr_base t0 b \<le> tm_Now (bf_timer b)"
    using assms(1,2,6) by (simp_all add: loop_inv_def)
  have l0: "limiter_inv valid acc b0" using i(1) unfolding limiter_inv_def now(1) assms(8,9) .
  show ?thesis
  proof (cases "fst (TryAccept tb (tm_Now (bf_timer b)) (bf_limiter b))")
    case True
    then have "fst (TryAccept tb (tm_Now (bf_timer b0)) (bf_limiter b0))" using now assms(8) by simp
    from tryRun_ran [OF l0 this, of fn "ls_w s", OF assms(5) refl] assms(10-13) i(3,4) True show ?thesis
      by (auto simp: loop_inv_def timer_inv_def bfr_base_def owed_inv_def)
  next
    case False
    then have "\<not> fst (TryAccept tb (tm_Now (bf_timer b0)) (bf_limiter b0))" using now assms(8) by simp
    from tryRun_throttled [OF l0 this _ _ assms(4), of fn "ls_w s"] assms(3,10-12) i(3,4) obtain r where
      r: "limiter_inv valid acc b1" "bf_lastRun b0 = Some r" "tm_Now (bf_timer b0) < r + m" "bf_lastRun b1 = Some r"
        "tm_Now (bf_timer b1) = tm_Now (bf_timer b0)" "bf_minInterval b1 = m" "bf_maxInterval b1 = ma"
        "tm_deadline (bf_timer b1) = (if m < ma then Some (r + m) else tm_deadline (bf_timer b0))"
      by auto
    have base: "bfr_base t0 b1 = r" "bfr_base t0 b = r" using r(2,4) assms(9) by (simp_all add: bfr_base_def)
    have "tm_deadline (bf_timer b1) = Some (r + m)"
    proof (cases "m < ma")
      case eq: False
      then have "m = ma" using assms(3) by simp
      then show ?thesis using i(2-4) base(2) r(3,8) now unfolding timer_inv_def by (simp split: option.splits)
    qed (simp add: r(8))
    then show ?thesis using r base i(5) now assms(3) by (auto simp: loop_inv_def timer_inv_def owed_inv_def)
  qed
qed

lemma loop_inv_step:
  assumes "Loop_step tb fn s s'" and "loop_inv valid acc t0 m ma s" and "m \<le> ma" and "m \<le> maxDuration"
    and "\<And>w. 0 \<le> fst (fn w)"
  shows "loop_inv valid acc t0 m ma s'"
  using assms(1,2)
proof cases
  case (Elapse n)
  then show ?thesis using assms(2)
    by (auto simp: loop_inv_def clock_def timer_elapse_def limiter_inv_def timer_inv_def bfr_base_def owed_inv_def
        split: option.splits rateLimiter.splits if_splits intro: order_trans)
next
  case Request
  then show ?thesis using assms(2)
    by (auto simp: loop_inv_def bfr_Run_def limiter_inv_def timer_inv_def bfr_base_def owed_inv_def
        split: option.splits rateLimiter.splits)
next
  case Tick
  obtain b1 w1 where t: "tryRun tb fn ((ls_bfr s)\<lparr>bf_timer := (bf_timer (ls_bfr s))\<lparr>tm_C := False\<rparr>\<rparr>) (ls_w s) = (b1, w1)"
    by fastforce
  show ?thesis unfolding Tick(1) Loop_tick_def Let_def t prod.case
    by (rule loop_tick_inv [OF assms(2) Tick(2) assms(3-5) refl _ _ _ _ _ t]) (use Tick(3) in simp_all)
next
  case Take
  obtain b1 w1 where t: "tryRun tb fn ((ls_bfr s)\<lparr>bf_run := False\<rparr>) (ls_w s) = (b1, w1)" by fastforce
  show ?thesis unfolding Take(1) Loop_take_def Let_def t prod.case
    by (rule loop_tick_inv [OF assms(2) Take(2) assms(3-5) refl _ _ _ _ _ t]) simp_all
next
  case Halt
  then show ?thesis using assms(2) by (simp add: loop_inv_def bfr_stop_def timer_Stop_def bfr_base_def)
qed

lemma reachable_inv:
  assumes "Loop_reachable tb fn s s'" and "loop_inv valid acc t0 m ma s" and "m \<le> ma" and "m \<le> maxDuration"
    and "\<And>w. 0 \<le> fst (fn w)"
  shows "loop_inv valid acc t0 m ma s'"
  using assms(1,2) by (induction rule: rtranclp_induct) (auto intro: loop_inv_step [OF _ _ assms(3-5)])

lemma start_inv:
  assumes "NewBoundedFrequencyRunner tb t0 name m ma burst = Some b" and "m \<noteq> 0 \<Longrightarrow> 1 \<le> burst"
  shows "loop_inv valid acc t0 m ma (Loop_start b w)"
  using assms new_bucket [of burst t0]
  by (auto simp: NewBoundedFrequencyRunner_def construct_def Loop_start_def loop_inv_def limiter_inv_def timer_inv_def
      bfr_base_def timer_Reset_def owed_inv_def split: if_splits)

text \<open>When the time has come, a tick waits and taking it runs the function.\<close>

lemma due_tick_runs:
  assumes "loop_inv valid acc t0 m ma s" and "ls_running s" and "tm_Now (bf_timer (ls_bfr s)) \<le> n"
    and "0 \<le> fst (fn (ls_w s))" and "m \<le> ma"
    and "tm_C (bf_timer (ls_bfr s)) \<or> (\<exists>d. tm_deadline (bf_timer (ls_bfr s)) = Some d \<and> d \<le> n)"
    and "\<And>r. bf_lastRun (ls_bfr s) = Some r \<Longrightarrow> r + m \<le> n"
  shows "tm_C (bf_timer (ls_bfr (clock n s))) \<and> ls_w (Loop_tick tb fn (clock n s)) = snd (fn (ls_w s)) \<and>
    bf_lastRun (ls_bfr (Loop_tick tb fn (clock n s))) = Some (n + fst (fn (ls_w s))) \<and>
    \<not> ls_owed (Loop_tick tb fn (clock n s))"
proof -
  let ?b = "(ls_bfr (clock n s))\<lparr>bf_timer := (bf_timer (ls_bfr (clock n s)))\<lparr>tm_C := False\<rparr>\<rparr>"
  have n: "tm_Now (timer_elapse n t) = n" for t by (simp add: timer_elapse_def split: option.splits)
  have l: "limiter_inv valid acc ?b"
    using assms(1-3) by (auto simp: loop_inv_def limiter_inv_def clock_def n split: rateLimiter.splits intro: order_trans)
  have a: "fst (TryAccept tb (tm_Now (bf_timer ?b)) (bf_limiter ?b))"
  proof (rule ccontr)
    assume "\<not> fst (TryAccept tb (tm_Now (bf_timer ?b)) (bf_limiter ?b))"
    then obtain lim where "TryAccept tb (tm_Now (bf_timer ?b)) (bf_limiter ?b) = (False, lim)" by (metis prod.collapse)
    from TryAccept_refuses(1) [OF l this] assms(7) show False by (auto simp: clock_def n)
  qed
  have "tm_C (bf_timer (ls_bfr (clock n s)))"
    using assms(6) by (auto simp: clock_def timer_elapse_def split: option.splits)
  moreover have "ls_w (clock n s) = ls_w s" by (simp add: clock_def)
  ultimately show ?thesis
    using tryRun_ran [OF l a, of fn "ls_w s"] assms(4) a
    by (auto simp: Loop_tick_def Let_def split_beta) (simp add: clock_def n)
qed

end

section \<open>A token bucket\<close>

text \<open>
  The reference bucket keeps its tokens as time credit: one token is worth \<open>m\<close>, at most \<open>burst\<close> tokens are kept.
\<close>

record credit =
  cr_interval :: int
  cr_cap :: int
  cr_credit :: int
  cr_at :: int
  cr_accepted :: "int option"

definition ref_bucket :: "credit token_bucket" where
  "ref_bucket = \<lparr>tb_New = (\<lambda>m burst now. \<lparr>cr_interval = m, cr_cap = burst * m, cr_credit = burst * m, cr_at = now,
       cr_accepted = None\<rparr>),
     tb_TryAccept = (\<lambda>now l.
       let c = min (cr_cap l) (cr_credit l + (now - cr_at l)) in
       if cr_interval l \<le> c then (True, l\<lparr>cr_credit := c - cr_interval l, cr_at := now, cr_accepted := Some now\<rparr>)
       else (False, l\<lparr>cr_credit := c, cr_at := now\<rparr>)),
     tb_Stop = (\<lambda>l. l)\<rparr>"

definition ref_bucket_valid :: "int \<Rightarrow> int \<Rightarrow> credit \<Rightarrow> bool" where
  "ref_bucket_valid m s l \<longleftrightarrow> cr_at l = s \<and> cr_interval l = m \<and> m \<le> cr_cap l \<and>
     (case cr_accepted l of None \<Rightarrow> m \<le> cr_credit l | Some a \<Rightarrow> min (cr_cap l) (s - a) \<le> cr_credit l)"

lemma ref_bucket_law: "0 < m \<Longrightarrow> bucket_law ref_bucket m (ref_bucket_valid m) cr_accepted"
proof (unfold_locales, goal_cases)
  case (1 burst now)
  then have "m * 1 \<le> m * burst" by (intro mult_left_mono) simp_all
  then show ?case by (simp add: ref_bucket_def ref_bucket_valid_def mult.commute)
qed (auto simp: ref_bucket_def ref_bucket_valid_def Let_def split: if_splits option.splits)

interpretation rb: bucket_law ref_bucket 1000 "ref_bucket_valid 1000" cr_accepted
  by (rule ref_bucket_law) simp

section \<open>Groups of loops\<close>

text \<open>
  runner.go.  A channel is a number; the world knows the next unused one, which are closed, and the
  goroutines that were started, each with its function and its stop channel.
\<close>

record 'f go_world =
  go_next :: nat
  go_closed :: "nat set"
  go_routines :: "('f \<times> nat) list"

record 'f Runner =
  rn_loopFuncs :: "'f list"
  rn_stop :: "nat option"

definition NewRunner :: "'f list \<Rightarrow> 'f Runner" where
  "NewRunner f = \<lparr>rn_loopFuncs = f, rn_stop = None\<rparr>"

definition Runner_Start :: "'f Runner \<Rightarrow> 'f go_world \<Rightarrow> 'f Runner \<times> 'f go_world" where
  "Runner_Start r w =
     (case rn_stop r of
        None \<Rightarrow> (let c = go_next w in
          (r\<lparr>rn_stop := Some c\<rparr>,
           w\<lparr>go_next := c + 1, go_routines := go_routines w @ map (\<lambda>f. (f, c)) (rn_loopFuncs r)\<rparr>))
      | Some _ \<Rightarrow> (r, w))"

definition Runner_Stop :: "'f Runner \<Rightarrow> 'f go_world \<Rightarrow> 'f Runner \<times> 'f go_world" where
  "Runner_Stop r w =
     (case rn_stop r of
        None \<Rightarrow> (r, w)
      | Some c \<Rightarrow> (r\<lparr>rn_stop := None\<rparr>, w\<lparr>go_closed := insert c (go_closed w)\<rparr>))"

datatype runner_op = Call_Start | Call_Stop

fun runner_call :: "runner_op \<Rightarrow> 'f Runner \<times> 'f go_world \<Rightarrow> 'f Runner \<times> 'f go_world" where
  "runner_call Call_Start (r, w) = Runner_Start r w"
| "runner_call Call_Stop (r, w) = Runner_Stop r w"

text \<open>The functions that have not been told to stop.\<close>

definition live :: "'f go_world \<Rightarrow> 'f list" where
  "live w = map fst (filter (\<lambda>(_, c). c \<notin> go_closed w) (go_routines w))"

text \<open>Every channel in use was made before, and only the current one is open.\<close>

definition runner_inv :: "'f Runner \<times> 'f go_world \<Rightarrow> bool" where
  "runner_inv s \<longleftrightarrow> (let (r, w) = s in
     (\<forall>c \<in> go_closed w \<union> snd ` set (go_routines w). c < go_next w) \<and>
     (case rn_stop r of
        None \<Rightarrow> snd ` set (go_routines w) \<subseteq> go_closed w
      | Some c \<Rightarrow> c < go_next w \<and> c \<notin> go_closed w \<and> snd ` set (go_routines w) - go_closed w \<subseteq> {c} \<and>
          filter (\<lambda>(_, d). d = c) (go_routines w) = map (\<lambda>f. (f, c)) (rn_loopFuncs r)))"

lemma runner_inv_start: "runner_inv (r, w) \<Longrightarrow> runner_inv (Runner_Start r w)"
proof (cases "rn_stop r")
  case None
  assume "runner_inv (r, w)"
  with None have i: "\<forall>c \<in> go_closed w \<union> snd ` set (go_routines w). c < go_next w"
    "snd ` set (go_routines w) \<subseteq> go_closed w" by (simp_all add: runner_inv_def)
  then have "go_next w \<notin> go_closed w" "filter (\<lambda>(_, d). d = go_next w) (go_routines w) = []"
    by (fastforce simp: filter_empty_conv)+
  with i None show ?thesis
    by (auto simp: runner_inv_def Runner_Start_def Let_def comp_def filter_id_conv intro: less_SucI)
qed (simp add: Runner_Start_def)

lemma runner_inv_stop: "runner_inv (r, w) \<Longrightarrow> runner_inv (Runner_Stop r w)"
  by (auto simp: runner_inv_def Runner_Stop_def split: option.splits)

lemma runner_inv_calls: "runner_inv s \<Longrightarrow> runner_inv (fold runner_call cs s)"
proof (induction cs arbitrary: s)
  case (Cons c cs)
  have "runner_inv (runner_call c s)"
    using Cons.prems runner_inv_start runner_inv_stop by (cases s; cases c) auto
  then show ?case using Cons.IH by simp
qed simp

lemma runner_inv_live:
  assumes "runner_inv (r, w)"
  shows "live w = (case rn_stop r of None \<Rightarrow> [] | Some _ \<Rightarrow> rn_loopFuncs r)"
proof (cases "rn_stop r")
  case None
  with assms show ?thesis by (auto simp: runner_inv_def live_def filter_empty_conv)
next
  case (Some c)
  have "filter (\<lambda>(_, d). d \<notin> go_closed w) (go_routines w) = filter (\<lambda>(_, d). d = c) (go_routines w)"
    using assms Some by (intro filter_cong) (auto simp: runner_inv_def)
  with assms Some show ?thesis by (simp add: live_def runner_inv_def comp_def)
qed

section \<open>Properties\<close>

text \<open>
  (C30) The function runs at least once per maximal interval.  In every reachable state of a running
  loop, whatever requests, ticks and throttled runs came before, when the maximal interval has passed since the
  last run (or since the start), a tick waits in the channel of the timer and taking it runs the function.
\<close>

theorem bounded_runner_max_interval:
  assumes "bucket_law tb mi valid acc" and "NewBoundedFrequencyRunner tb t0 name mi ma burst = Some b"
    and "1 \<le> burst" and "mi \<le> maxDuration" and "\<And>w. 0 \<le> fst (fn w)"
    and "Loop_reachable tb fn (Loop_start b w) s" and "ls_running s"
    and "tm_Now (bf_timer (ls_bfr s)) \<le> n" and "bfr_base t0 (ls_bfr s) + ma \<le> n"
  shows "Loop_step tb fn (clock n s) (Loop_tick tb fn (clock n s)) \<and>
    ls_w (Loop_tick tb fn (clock n s)) = snd (fn (ls_w s)) \<and>
    bf_lastRun (ls_bfr (Loop_tick tb fn (clock n s))) = Some (n + fst (fn (ls_w s)))"
proof -
  have le: "mi \<le> ma" using assms(2) by (simp add: NewBoundedFrequencyRunner_def construct_def split: if_splits)
  have i: "loop_inv valid acc t0 mi ma s"
    using bucket_law.reachable_inv [OF assms(1,6) bucket_law.start_inv [OF assms(1,2,3)] le assms(4,5)] .
  have "tm_C (bf_timer (ls_bfr s)) \<or> (\<exists>d. tm_deadline (bf_timer (ls_bfr s)) = Some d \<and> d \<le> n)"
    using i assms(7,9) by (auto simp: loop_inv_def timer_inv_def)
  moreover have "r + mi \<le> n" if "bf_lastRun (ls_bfr s) = Some r" for r
    using that assms(9) le by (simp add: bfr_base_def)
  ultimately have "tm_C (bf_timer (ls_bfr (clock n s))) \<and> ls_w (Loop_tick tb fn (clock n s)) = snd (fn (ls_w s)) \<and>
      bf_lastRun (ls_bfr (Loop_tick tb fn (clock n s))) = Some (n + fst (fn (ls_w s))) \<and>
      \<not> ls_owed (Loop_tick tb fn (clock n s))"
    using bucket_law.due_tick_runs [OF assms(1) i assms(7,8), of fn] assms(5) le by blast
  moreover have "ls_running (clock n s)" using assms(7) by (simp add: clock_def)
  ultimately show ?thesis by (simp add: Loop_step.Tick)
qed

definition ex_bfr :: "credit BoundedFrequencyRunner" where
  "ex_bfr = the (NewBoundedFrequencyRunner ref_bucket 0 ''sync'' 1000 5000 1)"

definition ex_fn :: "nat \<Rightarrow> int \<times> nat" where "ex_fn w = (10, Suc w)"

lemma ex_bfr_new: "NewBoundedFrequencyRunner ref_bucket 0 ''sync'' 1000 5000 1 = Some ex_bfr"
  by (simp add: ex_bfr_def NewBoundedFrequencyRunner_def construct_def)

theorem bounded_runner_max_interval_witness:
  "ls_w (Loop_tick ref_bucket ex_fn (clock 5000 (Loop_start ex_bfr 0))) = 1"
  using bounded_runner_max_interval [OF rb.bucket_law_axioms ex_bfr_new, of ex_fn 0 "Loop_start ex_bfr 0" 5000]
  by (simp add: ex_fn_def maxDuration_def Loop_start_def ex_bfr_def NewBoundedFrequencyRunner_def construct_def
      timer_Reset_def bfr_base_def)

text \<open>
  (C31) A throttled request is not lost.  In every reachable state of a running loop in which a request was
  taken and the function has not run since, it has run before, and when the minimal interval has passed since
  that run a tick waits, taking it runs the function and the request is served.
\<close>

theorem bounded_runner_request_served:
  assumes "bucket_law tb mi valid acc" and "NewBoundedFrequencyRunner tb t0 name mi ma burst = Some b"
    and "1 \<le> burst" and "mi \<le> maxDuration" and "\<And>w. 0 \<le> fst (fn w)"
    and "Loop_reachable tb fn (Loop_start b w) s" and "ls_running s" and "ls_owed s"
  shows "\<exists>r. bf_lastRun (ls_bfr s) = Some r \<and> (\<forall>n. tm_Now (bf_timer (ls_bfr s)) \<le> n \<and> r + mi \<le> n \<longrightarrow>
    Loop_step tb fn (clock n s) (Loop_tick tb fn (clock n s)) \<and> \<not> ls_owed (Loop_tick tb fn (clock n s)) \<and>
    ls_w (Loop_tick tb fn (clock n s)) = snd (fn (ls_w s)))"
proof -
  have le: "mi \<le> ma" using assms(2) by (simp add: NewBoundedFrequencyRunner_def construct_def split: if_splits)
  have i: "loop_inv valid acc t0 mi ma s"
    using bucket_law.reachable_inv [OF assms(1,6) bucket_law.start_inv [OF assms(1,2,3)] le assms(4,5)] .
  then obtain r where r: "bf_lastRun (ls_bfr s) = Some r" "tm_C (bf_timer (ls_bfr s)) \<or>
      (\<exists>d. tm_deadline (bf_timer (ls_bfr s)) = Some d \<and> d \<le> r + mi)"
    using assms(7,8) by (auto simp: loop_inv_def owed_inv_def)
  have "Loop_step tb fn (clock n s) (Loop_tick tb fn (clock n s)) \<and> \<not> ls_owed (Loop_tick tb fn (clock n s)) \<and>
      ls_w (Loop_tick tb fn (clock n s)) = snd (fn (ls_w s))"
    if "tm_Now (bf_timer (ls_bfr s)) \<le> n" "r + mi \<le> n" for n
  proof -
    have "tm_C (bf_timer (ls_bfr s)) \<or> (\<exists>d. tm_deadline (bf_timer (ls_bfr s)) = Some d \<and> d \<le> n)"
      using r(2) that(2) by auto
    from bucket_law.due_tick_runs [OF assms(1) i assms(7) that(1) assms(5) le this] r(1) that(2)
    have "tm_C (bf_timer (ls_bfr (clock n s)))" "\<not> ls_owed (Loop_tick tb fn (clock n s))"
      "ls_w (Loop_tick tb fn (clock n s)) = snd (fn (ls_w s))" by auto
    moreover have "ls_running (clock n s)" using assms(7) by (simp add: clock_def)
    ultimately show ?thesis by (simp add: Loop_step.Tick)
  qed
  with r(1) show ?thesis by blast
qed

text \<open>Two requests in a row: the first runs at once, the second is throttled.\<close>

definition ex_request :: "(credit, nat) loop_state \<Rightarrow> (credit, nat) loop_state" where
  "ex_request s = Loop_take ref_bucket ex_fn (s\<lparr>ls_bfr := bfr_Run (ls_bfr s)\<rparr>)"

definition ex_throttled :: "(credit, nat) loop_state" where
  "ex_throttled = ex_request (ex_request (Loop_start ex_bfr 0))"

lemma ex_request_steps:
  assumes "ls_running s"
  shows "Loop_reachable ref_bucket ex_fn s (ex_request s)"
proof -
  have "Loop_step ref_bucket ex_fn s (s\<lparr>ls_bfr := bfr_Run (ls_bfr s)\<rparr>)" by (rule Loop_step.Request)
  moreover have "Loop_step ref_bucket ex_fn (s\<lparr>ls_bfr := bfr_Run (ls_bfr s)\<rparr>) (ex_request s)"
    unfolding ex_request_def by (rule Loop_step.Take) (use assms in \<open>simp_all add: bfr_Run_def\<close>)
  ultimately show ?thesis by (rule converse_rtranclp_into_rtranclp [OF _ r_into_rtranclp])
qed

theorem bounded_runner_request_served_witness:
  "ls_owed ex_throttled \<and> ls_w ex_throttled = 1 \<and>
    (\<exists>r. bf_lastRun (ls_bfr ex_throttled) = Some r \<and>
      ls_w (Loop_tick ref_bucket ex_fn (clock (r + 1000) ex_throttled)) = 2)"
proof -
  have run: "ls_running (ex_request s) = ls_running s" for s
    by (simp add: ex_request_def Loop_take_def Let_def split_beta)
  have "ls_running (Loop_start ex_bfr (0 :: nat))" by (simp add: Loop_start_def)
  then have reach: "Loop_reachable ref_bucket ex_fn (Loop_start ex_bfr 0) ex_throttled"
    unfolding ex_throttled_def using ex_request_steps run by (metis rtranclp_trans)
  have s: "ls_running ex_throttled" "ls_owed ex_throttled" "ls_w ex_throttled = 1"
    "bf_lastRun (ls_bfr ex_throttled) = Some 10" "tm_Now (bf_timer (ls_bfr ex_throttled)) = 10"
    by (simp_all add: ex_throttled_def ex_request_def Loop_take_def Loop_start_def ex_bfr_def
        NewBoundedFrequencyRunner_def construct_def bfr_Run_def tryRun_def ref_bucket_def ex_fn_def Let_def
        timer_Reset_def timer_Stop_def timer_elapse_def timer_Since_def)
  from bounded_runner_request_served [OF rb.bucket_law_axioms ex_bfr_new _ _ _ reach s(1,2)] s(3-5) show ?thesis
    by (auto simp: s maxDuration_def ex_fn_def)
qed


end
