(* ===== verification/Save_Restore.thy ===== *)
theory Save_Restore
  imports Prelude
begin

text \<open>
  src/pkg/util/iptables/save_restore.go: chain lines in the format of iptables-save, and the scanner that
  finds the chains of a table.  Indices into the buffer are natural numbers; a right trim index of
  \<^verbatim>\<open>-1\<close> is \<open>None\<close>.
\<close>

section \<open>Operations\<close>

definition MakeChainLine :: "string \<Rightarrow> string" where
  "MakeChainLine chain = '':'' @ chain @ '' - [0:0]''"

definition newline :: char where "newline = CHR 0x0A"

definition blank :: char where "blank = CHR 0x20"

lemma newline_blank [simp]: "newline \<noteq> blank" "blank \<noteq> newline"
  by (simp_all add: newline_def blank_def)

text \<open>The two loops of \<^verbatim>\<open>ReadLine\<close>.\<close>

function skip_spaces :: "nat \<Rightarrow> string \<Rightarrow> nat" where
  "skip_spaces currentReadIndex byteArray =
     (if currentReadIndex < length byteArray then
        (if byteArray ! currentReadIndex = blank then skip_spaces (currentReadIndex + 1) byteArray else currentReadIndex)
      else currentReadIndex)"
  by pat_completeness auto
termination by (relation "measure (\<lambda>(i, b). length b - i)") auto

function read_to_end :: "nat \<Rightarrow> nat option \<Rightarrow> nat \<Rightarrow> string \<Rightarrow> string \<times> nat" where
  "read_to_end leftTrimIndex rightTrimIndex currentReadIndex byteArray =
     (if currentReadIndex < length byteArray then
        (let c = byteArray ! currentReadIndex in
         if c = blank then
           read_to_end leftTrimIndex (if rightTrimIndex = None then Some currentReadIndex else rightTrimIndex)
             (currentReadIndex + 1) byteArray
         else if c = newline \<or> currentReadIndex = length byteArray - 1 then
           (if currentReadIndex \<le> leftTrimIndex then ('''', currentReadIndex + 1)
            else
              (let right = (case rightTrimIndex of
                     Some r \<Rightarrow> r
                   | None \<Rightarrow> if currentReadIndex = length byteArray - 1 \<and> c \<noteq> newline
                             then currentReadIndex + 1 else currentReadIndex)
               in (take (right - leftTrimIndex) (drop leftTrimIndex byteArray), currentReadIndex + 1)))
         else read_to_end leftTrimIndex None (currentReadIndex + 1) byteArray)
      else ('''', currentReadIndex))"
  by pat_completeness auto
termination by (relation "measure (\<lambda>(l, r, i, b). length b - i)") auto

definition ReadLine :: "nat \<Rightarrow> string \<Rightarrow> string \<times> nat" where
  "ReadLine readIndex byteArray =
     (let leftTrimIndex = skip_spaces readIndex byteArray in read_to_end leftTrimIndex None leftTrimIndex byteArray)"

declare skip_spaces.simps [simp del] read_to_end.simps [simp del]

text \<open>Every call moves on, and not past the buffer: the loops that call it end.\<close>

lemma skip_spaces_bounds: "i \<le> skip_spaces i b" "i \<le> length b \<Longrightarrow> skip_spaces i b \<le> length b"
proof (induction i b rule: skip_spaces.induct)
  case (1 i b)
  {
    case 1
    from "1.IH"(1) show ?case unfolding skip_spaces.simps [of i b] by (auto dest: Suc_leD)
  next
    case 2
    with "1.IH"(2) show ?case unfolding skip_spaces.simps [of i b] by simp
  }
qed

text \<open>One round of the second loop: it returns the next index, or goes on with it.\<close>

lemma read_to_end_round:
  assumes "i < length b"
  shows "snd (read_to_end l r i b) = Suc i \<or> (\<exists>r'. read_to_end l r i b = read_to_end l r' (Suc i) b)"
  using assms unfolding read_to_end.simps [of l r i b] by (auto simp: Let_def)

lemma read_to_end_past: "length b \<le> i \<Longrightarrow> snd (read_to_end l r i b) = i"
  by (simp add: read_to_end.simps)

lemma read_to_end_bounds:
  "i < length b \<Longrightarrow> i < snd (read_to_end l r i b)" "i \<le> length b \<Longrightarrow> snd (read_to_end l r i b) \<le> length b"
  "i \<le> snd (read_to_end l r i b)"
proof -
  have "i \<le> snd (read_to_end l r i b) \<and> (i < length b \<longrightarrow> i < snd (read_to_end l r i b) \<and> snd (read_to_end l r i b) \<le> length b)" for r
  proof (induction "length b - i" arbitrary: i r)
    case 0
    then show ?case by (simp add: read_to_end_past)
  next
    case (Suc n)
    then have i: "i < length b" "n = length b - Suc i" by simp_all
    from read_to_end_round [OF i(1), of l r] show ?case
    proof (elim disjE exE)
      fix r' assume "read_to_end l r i b = read_to_end l r' (Suc i) b"
      with Suc.hyps(1) [OF i(2), of r'] read_to_end_past [of b "Suc i" l r'] i(1) show ?thesis
        by (cases "Suc i < length b") auto
    qed (use i(1) in simp)
  qed
  then show "i < length b \<Longrightarrow> i < snd (read_to_end l r i b)" "i \<le> length b \<Longrightarrow> snd (read_to_end l r i b) \<le> length b"
    "i \<le> snd (read_to_end l r i b)" using read_to_end_past [of b i l r] by (auto simp: le_less)
qed

lemma ReadLine_bounds:
  assumes "i < length b" shows "i < snd (ReadLine i b)" "snd (ReadLine i b) \<le> length b"
proof -
  have s: "i \<le> skip_spaces i b" "skip_spaces i b \<le> length b" using skip_spaces_bounds assms by simp_all
  show "i < snd (ReadLine i b)"
  proof (cases "skip_spaces i b < length b")
    case True
    with s(1) read_to_end_bounds(1) [OF True] show ?thesis by (simp add: ReadLine_def Let_def le_less_trans)
  next
    case False
    with s(2) have "skip_spaces i b = length b" by simp
    with assms show ?thesis using read_to_end_bounds(3) [where i = "length b" and b = b and l = "length b" and r = None]
      by (simp add: ReadLine_def Let_def)
  qed
  show "snd (ReadLine i b) \<le> length b" using read_to_end_bounds(2) [OF s(2)] by (simp add: ReadLine_def Let_def)
qed

function find_table :: "string \<Rightarrow> nat \<Rightarrow> string \<Rightarrow> nat" where
  "find_table tablePrefix readIndex save =
     (if readIndex < length save then
        (if HasPrefix (fst (ReadLine readIndex save)) tablePrefix then snd (ReadLine readIndex save)
         else find_table tablePrefix (snd (ReadLine readIndex save)) save)
      else readIndex)"
  by pat_completeness auto
termination by (relation "measure (\<lambda>(p, i, b). length b - i)") (auto simp: ReadLine_bounds diff_less_mono2)

text \<open>
  One parsed line: the map with the chain, and whether the loop goes on; \<open>None\<close> is the panic on a
  chain line without a space.
\<close>

definition chain_of :: "string \<Rightarrow> string option" where
  "chain_of line = (if blank \<in> set line then Some (tl (takeWhile (\<lambda>c. c \<noteq> blank) line)) else None)"

definition table_line :: "string \<Rightarrow> (string, string) gomap \<Rightarrow> ((string, string) gomap \<times> bool) option" where
  "table_line line chainsMap =
     (if length line = 0 then Some (chainsMap, True)
      else if HasPrefix line ''COMMIT'' \<or> HasPrefix line ''*'' then Some (chainsMap, False)
      else if HasPrefix line ''#'' then Some (chainsMap, True)
      else if HasPrefix line '':'' \<and> length line > 1 then
        (case chain_of line of
           None \<Rightarrow> None
         | Some chain \<Rightarrow> Some (gm_put chainsMap chain line, True))
      else Some (chainsMap, True))"

function parse_table :: "nat \<Rightarrow> string \<Rightarrow> (string, string) gomap \<Rightarrow> (string, string) gomap option" where
  "parse_table readIndex save chainsMap =
     (if readIndex < length save then
        (case table_line (fst (ReadLine readIndex save)) chainsMap of
           None \<Rightarrow> None
         | Some (m, go_on) \<Rightarrow> if go_on then parse_table (snd (ReadLine readIndex save)) save m else Some m)
      else Some chainsMap)"
  by pat_completeness auto
termination by (relation "measure (\<lambda>(i, b, m). length b - i)") (auto simp: ReadLine_bounds diff_less_mono2)

definition GetChainLines :: "string \<Rightarrow> string \<Rightarrow> (string, string) gomap option" where
  "GetChainLines table save = parse_table (find_table (''*'' @ table) 0 save) save []"

declare find_table.simps [simp del] parse_table.simps [simp del]

section \<open>Reading whole lines\<close>

definition trim_blanks :: "string \<Rightarrow> string" where
  "trim_blanks l = rev (dropWhile (\<lambda>c. c = blank) (rev (dropWhile (\<lambda>c. c = blank) l)))"

lemma trim_blanks_plain: "blank \<notin> set l \<Longrightarrow> trim_blanks l = l"
proof -
  have d: "dropWhile (\<lambda>c. c = blank) xs = xs" if "blank \<notin> set xs" for xs using that by (cases xs) auto
  assume "blank \<notin> set l"
  then show ?thesis by (simp add: trim_blanks_def d)
qed

text \<open>A buffer in which every line is ended.\<close>

definition unlines :: "string list \<Rightarrow> string" where
  "unlines ls = concat (map (\<lambda>l. l @ [newline]) ls)"

lemma unlines_simps [simp]: "unlines [] = []" "unlines (l # ls) = l @ newline # unlines ls"
  by (simp_all add: unlines_def)

lemma skip_spaces_line:
  assumes "newline \<notin> set l"
  shows "skip_spaces (length pre) (pre @ l @ newline # rest) = length pre + length (takeWhile (\<lambda>c. c = blank) l)"
  using assms
proof (induction l arbitrary: pre)
  case Nil
  then show ?case by (subst skip_spaces.simps) (simp add: nth_append)
next
  case (Cons c l)
  show ?case
  proof (cases "c = blank")
    case True
    have "skip_spaces (length pre) (pre @ (c # l) @ newline # rest) =
        skip_spaces (length (pre @ [c])) ((pre @ [c]) @ l @ newline # rest)"
      by (subst skip_spaces.simps) (simp add: True)
    also have "\<dots> = length (pre @ [c]) + length (takeWhile (\<lambda>c. c = blank) l)"
      using Cons.prems by (intro Cons.IH) simp
    finally show ?thesis using True by simp
  next
    case False
    then show ?thesis by (subst skip_spaces.simps) simp
  qed
qed

text \<open>
  Where the right trim index stands after reading \<open>u\<close>: at the end of \<open>u\<close> without its trailing blanks, if it has
  some.
\<close>

definition trim_at :: "nat \<Rightarrow> string \<Rightarrow> nat option" where
  "trim_at l u = (if u \<noteq> [] \<and> last u = blank then Some (l + length (rev (dropWhile (\<lambda>c. c = blank) (rev u)))) else None)"

lemma read_to_end_line:
  assumes "newline \<notin> set v" and "u @ v = [] \<or> hd (u @ v) \<noteq> blank"
  shows "read_to_end (length pre) (trim_at (length pre) u) (length pre + length u) (pre @ u @ v @ newline # rest) =
    (rev (dropWhile (\<lambda>c. c = blank) (rev (u @ v))), length pre + length u + length v + 1)"
  using assms
proof (induction v arbitrary: u)
  case Nil
  let ?b = "pre @ u @ newline # rest"
  have nth: "?b ! (length pre + length u) = newline" by (simp add: nth_append)
  have len: "length (dropWhile (\<lambda>c. c = blank) (rev u)) \<le> length u"
    using length_dropWhile_le [of _ "rev u"] by simp
  have take: "rev (dropWhile (\<lambda>c. c = blank) (rev u)) = take (length (dropWhile (\<lambda>c. c = blank) (rev u))) u"
    by (metis dropWhile_eq_drop length_drop length_rev rev_drop rev_rev_ident)
  have "dropWhile (\<lambda>c. c = blank) (rev u) = rev u" if "trim_at (length pre) u = None"
    using that by (cases u rule: rev_cases) (auto simp: trim_at_def split: if_splits)
  then show ?case using nth len take
    by (subst read_to_end.simps) (auto simp: Let_def trim_at_def split: option.splits)
next
  case (Cons c v)
  have step: "read_to_end (length pre) (trim_at (length pre) u) (length pre + length u) (pre @ u @ (c # v) @ newline # rest) =
      read_to_end (length pre) (trim_at (length pre) (u @ [c])) (length pre + length (u @ [c])) (pre @ (u @ [c]) @ v @ newline # rest)"
  proof (cases "c = blank")
    case True
    then have "u \<noteq> []" using Cons.prems(2) by (cases u) auto
    then have "last u \<noteq> blank \<Longrightarrow> length (dropWhile (\<lambda>c. c = blank) (rev u)) = length u"
      by (cases u rule: rev_cases) simp_all
    with True \<open>u \<noteq> []\<close> show ?thesis
      by (subst read_to_end.simps) (auto simp: Let_def nth_append trim_at_def)
  next
    case False
    moreover have "c \<noteq> newline" using Cons.prems(1) by auto
    ultimately show ?thesis
      by (subst read_to_end.simps) (simp add: Let_def nth_append trim_at_def)
  qed
  show ?case using Cons.IH [of "u @ [c]"] Cons.prems step by simp
qed

lemma ReadLine_line:
  assumes "newline \<notin> set l"
  shows "ReadLine (length pre) (pre @ l @ newline # rest) = (trim_blanks l, length pre + length l + 1)"
proof -
  let ?s = "takeWhile (\<lambda>c. c = blank) l" and ?v = "dropWhile (\<lambda>c. c = blank) l"
  have l: "l = ?s @ ?v" by simp
  have "newline \<notin> set ?v" using assms by (auto dest: set_dropWhileD)
  moreover have "[] @ ?v = [] \<or> hd ([] @ ?v) \<noteq> blank" using hd_dropWhile [of "\<lambda>c. c = blank" l] by auto
  ultimately have "read_to_end (length (pre @ ?s)) (trim_at (length (pre @ ?s)) []) (length (pre @ ?s))
      ((pre @ ?s) @ ?v @ newline # rest) =
    (rev (dropWhile (\<lambda>c. c = blank) (rev ?v)), length (pre @ ?s) + length ?v + 1)"
    using read_to_end_line [of ?v "[]" "pre @ ?s" rest] by simp
  moreover have "length ?s + length ?v = length l" by (metis l length_append)
  moreover have "?s @ ?v @ x = l @ x" for x by (simp flip: append_assoc)
  ultimately show ?thesis
    using skip_spaces_line [OF assms, of pre rest] by (simp add: ReadLine_def Let_def trim_blanks_def trim_at_def)
qed

section \<open>The scanner as functions on the lines\<close>

definition after_table :: "string \<Rightarrow> string list \<Rightarrow> string list" where
  "after_table table ls = drop 1 (dropWhile (\<lambda>l. \<not> HasPrefix l (''*'' @ table)) ls)"

fun table_chains :: "string list \<Rightarrow> (string, string) gomap \<Rightarrow> (string, string) gomap option" where
  "table_chains [] m = Some m"
| "table_chains (l # ls) m =
     (case table_line l m of
        None \<Rightarrow> None
      | Some (m', go_on) \<Rightarrow> if go_on then table_chains ls m' else Some m')"

lemma find_table_lines:
  assumes "\<forall>l \<in> set ls. newline \<notin> set l"
  shows "\<exists>us vs. ls = us @ vs \<and> find_table (''*'' @ t) (length pre) (pre @ unlines ls) = length (pre @ unlines us) \<and>
    map trim_blanks vs = after_table t (map trim_blanks ls)"
  using assms
proof (induction ls arbitrary: pre)
  case Nil
  then show ?case by (simp add: find_table.simps after_table_def)
next
  case (Cons l ls)
  have r: "ReadLine (length pre) (pre @ unlines (l # ls)) = (trim_blanks l, length (pre @ l @ [newline]))"
    using ReadLine_line [of l pre "unlines ls"] Cons.prems by simp
  show ?case
  proof (cases "HasPrefix (trim_blanks l) (''*'' @ t)")
    case True
    then have "find_table (''*'' @ t) (length pre) (pre @ unlines (l # ls)) = length (pre @ unlines [l])"
      by (subst find_table.simps) (simp add: r [simplified])
    with True show ?thesis by (intro exI [of _ "[l]"] exI [of _ ls]) (simp add: after_table_def)
  next
    case False
    have "find_table (''*'' @ t) (length pre) (pre @ unlines (l # ls)) =
        find_table (''*'' @ t) (length (pre @ l @ [newline])) ((pre @ l @ [newline]) @ unlines ls)"
      using False by (subst find_table.simps) (simp add: r [simplified])
    moreover obtain us vs where u: "ls = us @ vs" "find_table (''*'' @ t) (length (pre @ l @ [newline]))
        ((pre @ l @ [newline]) @ unlines ls) = length ((pre @ l @ [newline]) @ unlines us)"
      "map trim_blanks vs = after_table t (map trim_blanks ls)" using Cons.IH [of "pre @ l @ [newline]"] Cons.prems by auto
    ultimately show ?thesis using False by (intro exI [of _ "l # us"] exI [of _ vs]) (simp add: after_table_def)
  qed
qed

lemma parse_table_lines:
  assumes "\<forall>l \<in> set ls. newline \<notin> set l"
  shows "parse_table (length pre) (pre @ unlines ls) m = table_chains (map trim_blanks ls) m"
  using assms
proof (induction ls arbitrary: pre m)
  case Nil
  then show ?case by (simp add: parse_table.simps)
next
  case (Cons l ls)
  have r: "ReadLine (length pre) (pre @ unlines (l # ls)) = (trim_blanks l, length (pre @ l @ [newline]))"
    using ReadLine_line [of l pre "unlines ls"] Cons.prems by simp
  have "parse_table (length (pre @ l @ [newline])) ((pre @ l @ [newline]) @ unlines ls) m' =
      table_chains (map trim_blanks ls) m'" for m' using Cons by (intro Cons.IH) simp
  then show ?case
    by (subst parse_table.simps) (simp add: r [simplified] split: option.splits)
qed

lemma GetChainLines_lines:
  assumes "\<forall>l \<in> set ls. newline \<notin> set l"
  shows "GetChainLines table (unlines ls) = table_chains (after_table table (map trim_blanks ls)) []"
proof -
  obtain us vs where u: "ls = us @ vs" "find_table (''*'' @ table) 0 (unlines ls) = length (unlines us)"
    "map trim_blanks vs = after_table table (map trim_blanks ls)"
    using find_table_lines [OF assms, of table "[]"] by auto
  have split: "unlines ls = unlines us @ unlines vs" unfolding u(1) by (simp add: unlines_def)
  have "\<forall>l \<in> set vs. newline \<notin> set l" using assms u(1) by simp
  note parse_table_lines [OF this, of "unlines us" "[]", folded split]
  moreover have "GetChainLines table (unlines ls) = parse_table (length (unlines us)) (unlines ls) []"
    by (simp only: GetChainLines_def u(2))
  ultimately show ?thesis by (simp only: u(3))
qed

section \<open>Properties\<close>

text \<open>
  (C33) The scanner ends and stays within the buffer: from any position inside it, reading a line moves on by
  at least one byte and never past the end, and so both loops of \<^verbatim>\<open>GetChainLines\<close> end.
\<close>

theorem ReadLine_progress:
  assumes "i < length b"
  shows "i < snd (ReadLine i b) \<and> snd (ReadLine i b) \<le> length b"
  using ReadLine_bounds [OF assms] by simp

theorem ReadLine_progress_witness: "0 < snd (ReadLine 0 ''   '') \<and> snd (ReadLine 0 ''   '') \<le> 3"
  using ReadLine_progress [of 0 "''   ''"] by simp



text \<open>
  Made chain lines are found again: for any chains with neither blank nor newline in their names, the
  chains read from a table made of their lines are exactly these, each with the line that was made.
\<close>

theorem made_chains_are_read:
  assumes "\<forall>c \<in> set cs. blank \<notin> set c \<and> newline \<notin> set c" and "newline \<notin> set table" and "blank \<notin> set table"
  shows "\<exists>m. GetChainLines table (unlines ((''*'' @ table) # map MakeChainLine cs @ [''COMMIT''])) = Some m \<and>
    map_of m = (\<lambda>c. if c \<in> set cs then Some (MakeChainLine c) else None)"
proof -
  have line: "newline \<notin> set (MakeChainLine c)" "trim_blanks (MakeChainLine c) = MakeChainLine c"
    "table_line (MakeChainLine c) m = Some (gm_put m c (MakeChainLine c), True)" if "c \<in> set cs" for c m
    using assms(1) that
    by (auto simp: MakeChainLine_def newline_def blank_def trim_blanks_def table_line_def HasPrefix_def chain_of_def
        takeWhile_append)
  have loop: "\<exists>m'. table_chains (map MakeChainLine ds @ [''COMMIT'']) m = Some m' \<and>
      map_of m' = (\<lambda>c. if c \<in> set ds then Some (MakeChainLine c) else map_of m c)" if "set ds \<subseteq> set cs" for ds m
    using that
  proof (induction ds arbitrary: m)
    case Nil
    then show ?case by (simp add: table_line_def HasPrefix_def)
  next
    case (Cons d ds)
    from Cons.IH [of "gm_put m d (MakeChainLine d)"] Cons.prems line(3) [of d m] show ?case
      by (auto simp: fun_eq_iff)
  qed
  have star: "trim_blanks (''*'' @ table) = ''*'' @ table"
    using assms(3) by (intro trim_blanks_plain) (simp add: blank_def)
  let ?ls = "(''*'' @ table) # map MakeChainLine cs @ [''COMMIT'']"
  have "map trim_blanks ?ls = ?ls"
    using line(2) star by (simp add: trim_blanks_def blank_def cong: map_cong)
  moreover have "\<forall>l \<in> set ?ls. newline \<notin> set l" using line(1) assms(2) by (auto simp: newline_def)
  ultimately have "GetChainLines table (unlines ?ls) = table_chains (after_table table ?ls) []"
    using GetChainLines_lines [of ?ls table] by (simp only:)
  also have "after_table table ?ls = map MakeChainLine cs @ [''COMMIT'']"
    by (simp add: after_table_def HasPrefix_def)
  finally show ?thesis using loop [of cs "[]"] by (auto simp: fun_eq_iff)
qed

theorem made_chains_are_read_witness:
  "\<exists>m. GetChainLines ''nat'' (unlines ((''*'' @ ''nat'') # map MakeChainLine [''A'', ''B''] @ [''COMMIT''])) = Some m \<and>
    map_of m ''B'' = Some '':B - [0:0]''"
  using made_chains_are_read [of "[''A'', ''B'']" "''nat''"]
  by (auto simp: blank_def newline_def MakeChainLine_def fun_eq_iff)

text \<open>
  A last line that is not ended is not always returned: its last character is dropped when a blank comes
  before it, and the whole line when it has only one character or ends in a blank.
\<close>

lemma unended_line_is_cut:
  "ReadLine 0 ''-A b'' = (''-A'', 4)" "ReadLine 0 ''x'' = ([], 1)" "ReadLine 0 ''ab '' = ([], 3)"
  by (simp_all add: ReadLine_def skip_spaces.simps read_to_end.simps Let_def blank_def newline_def)

end
