(* ===== verification/Ipvs_Tool.thy ===== *)
theory Ipvs_Tool
  imports Ref_Kernel Node_Utils
begin

text \<open>
  src/tools/ipvs-tool/ipvs-tool.go: the command line tool that lists and edits virtual services.  A function gives
  the text it prints and the new state of the kernel; \<open>None\<close> instead of a state is a panic.  \<open>New w\<close> is the error of
  opening the netlink handle.  Errors of the handle are formatted but not printed.
\<close>

section \<open>Operations\<close>

definition tool_ToProtocolString :: "lib_Service \<Rightarrow> string" where
  "tool_ToProtocolString service =
     (if ls_Protocol service = IPPROTO_TCP then ''tcp''
      else if ls_Protocol service = IPPROTO_UDP then ''udp''
      else ''unknow'')"

definition tool_ToProtocolNumber :: "string \<Rightarrow> 16 word" where
  "tool_ToProtocolNumber pprotocal = (if pprotocal = ''tcp'' then IPPROTO_TCP else IPPROTO_UDP)"

definition endl :: string where "endl = [CHR 0x0A]"

text \<open>The format \<^verbatim>\<open>%-34s\<close>.\<close>

definition pad34 :: "string \<Rightarrow> string" where
  "pad34 s = s @ replicate (34 - length s) CHR '' ''"

definition list_destination :: "lib_Destination \<Rightarrow> string" where
  "list_destination dst =
     pad34 (''  -> '' @ IP_String (ld_Address dst) @ '':'' @ Itoa (uint (ld_Port dst))) @ ''Masq'' @ ''    '' @
     Itoa (ld_Weight dst) @ ''      0          0'' @ endl"

definition list_service :: "lib_Service \<Rightarrow> string" where
  "list_service svc =
     tool_ToProtocolString svc @ ''  '' @ IP_String (ls_Address svc) @ '':'' @ Itoa (uint (ls_Port svc)) @ '' '' @
     ls_SchedName svc @
     (if ls_Flags svc AND 0x0001 = 0 then '''' else '' persistent '' @ Itoa (uint (ls_Timeout svc))) @ endl"

fun list_services :: "'w libnet \<Rightarrow> lib_Service list \<Rightarrow> 'w \<Rightarrow> string \<times> 'w option" where
  "list_services h [] w = ('''', Some w)"
| "list_services h (svc # svcs) w =
     (case h_GetDestinations h svc w of
        Inl err \<Rightarrow> (list_service svc @ ''GetDestinations failed Error: '' @ err @ endl, None)
      | Inr dsts \<Rightarrow>
          (let (out, r) = list_services h svcs w
           in (list_service svc @ concat (map list_destination dsts) @ out, r)))"

definition list_header :: string where
  "list_header = ''IP Virtual Server'' @ endl @ ''Prot LocalAddress:Port Scheduler Flags'' @ endl @
     ''  -> RemoteAddress:Port           Forward Weight ActiveConn InActConn'' @ endl"

definition new_failed :: "go_error \<Rightarrow> string" where
  "new_failed err = ''InitIpvsInterface failed Error: '' @ err @ endl"

definition toolList :: "('w \<Rightarrow> go_error option) \<Rightarrow> 'w libnet \<Rightarrow> 'w \<Rightarrow> string \<times> 'w option" where
  "toolList New h w =
     (case New w of
        Some err \<Rightarrow> (new_failed err, None)
      | None \<Rightarrow>
          (case h_GetServices h w of
             Inl err \<Rightarrow> (''GetServices failed Error: '' @ err @ endl, None)
           | Inr svcs \<Rightarrow> (let (out, r) = list_services h svcs w in (list_header @ out, r))))"

definition tool_service :: "string \<Rightarrow> string \<Rightarrow> int \<Rightarrow> string \<Rightarrow> lib_Service" where
  "tool_service protocol ip port scheduler =
     \<lparr>ls_Address = ParseIP ip, ls_AddressFamily = of_int AF_INET, ls_Protocol = tool_ToProtocolNumber protocol,
      ls_Port = of_int port, ls_SchedName = scheduler, ls_Flags = 0, ls_Netmask = 0, ls_Timeout = 0\<rparr>"

definition tool_destination :: "string \<Rightarrow> int \<Rightarrow> lib_Destination" where
  "tool_destination ip port =
     \<lparr>ld_Address = ParseIP ip, ld_AddressFamily = of_int AF_INET, ld_Port = of_int port, ld_Weight = 1\<rparr>"

text \<open>The error of \<^verbatim>\<open>strconv.Atoi\<close>.\<close>

definition Atoi_error :: "string \<Rightarrow> go_error" where
  "Atoi_error s = ''strconv.Atoi: parsing '' @ Quote s @
     (if (case s of c # r \<Rightarrow> if c = CHR ''-'' \<or> c = CHR ''+'' then r \<noteq> [] \<and> list_all is_digit r else list_all is_digit s
          | [] \<Rightarrow> False)
      then '': value out of range'' else '': invalid syntax'')"

definition toolAddService ::
  "('w \<Rightarrow> go_error option) \<Rightarrow> 'w libnet \<Rightarrow> string \<Rightarrow> string \<Rightarrow> string \<Rightarrow> 'w \<Rightarrow> string \<times> 'w option" where
  "toolAddService New h protocol service scheduler w =
     (let address = split_on CHR '':'' service in
      if length address < 2 then ('''', None)
      else
        (let out = ''service: '' @ address ! 0 @ '':'' @ address ! 1 @ '':'' @ protocol @ '' scheduler: '' @ scheduler in
         case New w of
           Some err \<Rightarrow> (out @ new_failed err, None)
         | None \<Rightarrow>
             (case Atoi (address ! 1) of
                None \<Rightarrow> (out @ ''invalid port: '' @ Atoi_error (address ! 1), Some w)
              | Some svcPort \<Rightarrow>
                  (out, Some (snd (h_NewService h (tool_service protocol (address ! 0) svcPort scheduler) w))))))"

definition toolDelService ::
  "('w \<Rightarrow> go_error option) \<Rightarrow> 'w libnet \<Rightarrow> string \<Rightarrow> string \<Rightarrow> 'w \<Rightarrow> string \<times> 'w option" where
  "toolDelService New h protocol service w =
     (let address = split_on CHR '':'' service in
      if length address < 2 then ('''', None)
      else
        (let out = ''service: '' @ address ! 0 @ '':'' @ address ! 1 @ '':'' @ protocol in
         case New w of
           Some err \<Rightarrow> (out @ new_failed err, None)
         | None \<Rightarrow>
             (case Atoi (address ! 1) of
                None \<Rightarrow> (out @ ''invalid port: '' @ Atoi_error (address ! 1), Some w)
              | Some svcPort \<Rightarrow>
                  (out, Some (snd (h_DelService h (tool_service protocol (address ! 0) svcPort '''') w))))))"

text \<open>
  \<^verbatim>\<open>toolAddServer\<close> and \<^verbatim>\<open>toolDelServer\<close> differ in the call of the handle only.  Both read the port of the
  destination from \<^verbatim>\<open>address[1]\<close>, the port of the service.
\<close>

definition tool_server ::
  "(lib_Service \<Rightarrow> lib_Destination \<Rightarrow> 'w \<Rightarrow> go_error option \<times> 'w) \<Rightarrow> ('w \<Rightarrow> go_error option) \<Rightarrow>
   string \<Rightarrow> string \<Rightarrow> string \<Rightarrow> 'w \<Rightarrow> string \<times> 'w option" where
  "tool_server call New protocol service server w =
     (let address = split_on CHR '':'' service; destination = split_on CHR '':'' server in
      if length address < 2 \<or> length destination < 2 then ('''', None)
      else
        (let out = ''service: '' @ address ! 0 @ '':'' @ address ! 1 @ '', server: '' @ destination ! 0 @ '':'' @
               destination ! 1 @ '', protocol: '' @ protocol in
         case New w of
           Some err \<Rightarrow> (out @ new_failed err, None)
         | None \<Rightarrow>
             (case Atoi (address ! 1) of
                None \<Rightarrow> (out @ ''invalid svc port: '' @ Atoi_error (address ! 1), Some w)
              | Some svcPort \<Rightarrow>
                  (case Atoi (address ! 1) of
                     None \<Rightarrow> (out @ ''invalid dst port: '' @ Atoi_error (address ! 1), Some w)
                   | Some dstPort \<Rightarrow>
                       (out, Some (snd (call (tool_service protocol (address ! 0) svcPort '''')
                          (tool_destination (destination ! 0) dstPort) w)))))))"

definition toolAddServer where
  "toolAddServer New h protocol service server w = tool_server (h_NewDestination h) New protocol service server w"

definition toolDelServer where
  "toolDelServer New h protocol service server w = tool_server (h_DelDestination h) New protocol service server w"

record tool_flags =
  tf_list :: bool
  tf_A :: bool
  tf_D :: bool
  tf_a :: bool
  tf_d :: bool
  tf_t :: string
  tf_u :: string
  tf_s :: string
  tf_r :: string

definition default_flags :: tool_flags where
  "default_flags = \<lparr>tf_list = False, tf_A = False, tf_D = False, tf_a = False, tf_d = False, tf_t = ''nil'',
     tf_u = ''nil'', tf_s = ''wlc'', tf_r = ''nil''\<rparr>"

text \<open>The parsed flags choose one call; a TCP service goes before a UDP service.\<close>

definition tool_main :: "('w \<Rightarrow> go_error option) \<Rightarrow> 'w libnet \<Rightarrow> tool_flags \<Rightarrow> 'w \<Rightarrow> string \<times> 'w option" where
  "tool_main New h fl w =
     (let with_service = (\<lambda>f. if tf_t fl \<noteq> ''nil'' then f ''tcp'' (tf_t fl)
            else if tf_u fl \<noteq> ''nil'' then f ''udp'' (tf_u fl) else ('''', Some w))
      in if tf_list fl then toolList New h w
         else if tf_A fl then with_service (\<lambda>proto svc. toolAddService New h proto svc (tf_s fl) w)
         else if tf_D fl then with_service (\<lambda>proto svc. toolDelService New h proto svc w)
         else if tf_a fl then with_service (\<lambda>proto svc. toolAddServer New h proto svc (tf_r fl) w)
         else if tf_d fl then with_service (\<lambda>proto svc. toolDelServer New h proto svc (tf_r fl) w)
         else ('''', Some w))"

section \<open>Addresses on the command line\<close>

definition host_port :: "IP \<Rightarrow> nat \<Rightarrow> string" where
  "host_port ip port = IP_String ip @ '':'' @ show_nat port"

lemma split_host_port:
  assumes "is_v4 ip" shows "split_on CHR '':'' (host_port ip port) = [IP_String ip, show_nat port]"
proof -
  have "CHR '':'' \<notin> set (IP_String ip)"
    using assms dotted_chars [of "CHR '':''" "To4 ip"] by (auto simp: IP_String_v4 is_digit_def)
  moreover have "split_on c s = [s]" if "c \<notin> set s" for c s using that by (induction s) auto
  moreover have "CHR '':'' \<notin> set (show_nat port)" using show_nat_digits [of "CHR '':''" port] by (auto simp: is_digit_def)
  ultimately show ?thesis by (simp add: host_port_def split_on_plain)
qed

lemma tool_service_ok:
  assumes "is_v4 ip" and "protocol \<in> {''tcp'', ''udp''}"
  shows "lib_ok (tool_service protocol (IP_String ip) port scheduler)"
    and "lib_key (tool_service protocol (IP_String ip) port scheduler) =
      (IP_String ip, tool_ToProtocolNumber protocol, of_int port)"
proof -
  have "is_v4 (ParseIP (IP_String ip))" "IP_String (ParseIP (IP_String ip)) = IP_String ip"
    using canonical_v4_String [OF assms(1)] by (simp_all add: canonical_v4_def)
  then show "lib_ok (tool_service protocol (IP_String ip) port scheduler)"
    "lib_key (tool_service protocol (IP_String ip) port scheduler) =
      (IP_String ip, tool_ToProtocolNumber protocol, of_int port)"
    using assms(2) by (auto simp: lib_ok_def lib_key_def tool_service_def tool_ToProtocolNumber_def)
qed

lemma tool_destination_ok:
  assumes "is_v4 ip"
  shows "is_v4 (ld_Address (tool_destination (IP_String ip) port))"
    and "lib_val (tool_destination (IP_String ip) port) = (IP_String ip, of_int port)"
  using canonical_v4_String [OF assms] by (simp_all add: tool_destination_def lib_val_def canonical_v4_def)

lemma port_Atoi: "p < 2 ^ 16 \<Longrightarrow> Atoi (show_nat p) = Some (int p)"
  by (rule Atoi_show_nat) simp

section \<open>Properties\<close>


definition ex_tool_world :: kworld where
  "ex_tool_world = \<lparr>kw_svcs = [], kw_addrs = [], kw_link = False\<rparr>"


end
