(* ===== verification/Spec2Isabelle.thy ===== *)
theory Spec2Isabelle
  imports Server_Convergence Port_Ledger Options Firewalld Health_Check Bounded_Runner Save_Restore Ipvs_Tool
begin

text \<open>
  This library models kube-enn-proxy, a Kubernetes service proxy on top of IPVS.

  \<^bold>\<open>The program and its parts.\<close>  Informers deliver Service and Endpoints objects to
  event handlers (pkg/proxy/config).  The handlers of the proxier (pkg/proxy/ipvs/proxier.go) record
  the difference to the last applied objects in change maps (pkg/proxy/util/services.go,
  endpoints.go) and run \<^verbatim>\<open>syncProxyRules\<close>, which applies the changes to the service map and the
  endpoints map and programs the kernel through the IPVS wrapper (pkg/util/ipvs/ipvs.go): one virtual
  service per cluster IP, external IP and node port, one destination per endpoint, and the cluster IPs
  on a dummy link.  It also holds local ports open (pkg/proxy/util/ports.go), reads the addresses of
  the node (nodes.go) and deletes stale UDP connections (conntrack.go).  A loop repeats the sync and
  keeps masquerade rules in iptables (pkg/util/coreos/go-iptables).  The process (kube-enn-proxy.go,
  app/server.go) creates the proxier, connects it to the informers and waits for a signal.  The repository also
  keeps libraries that the proxier does not call at present: a health check server (pkg/proxy/healthcheck), a
  runner that bounds how often a function runs (pkg/util/async), a runner for the iptables commands
  (pkg/util/iptables) that listens to FirewallD over D-Bus (pkg/util/dbus), and watchers (pkg/watchers), and a separate tool that edits virtual services (tools/ipvs-tool).

  \<^bold>\<open>Conventions.\<close>  A Go struct is a record, a Go map an association list with distinct keys
  whose order is the iteration order, an error result an option or the left summand of a sum, a panic
  or a fatal exit \<open>None\<close>.  The mutex of the proxier makes a sync atomic, so stateful code is
  a function on its state and on a world \<open>'w\<close>.  Code outside the sources (netlink, IPVS handle,
  sockets, command execution, informers) is a record of functions on the world; what is relied on is
  stated as the assumptions of a locale or of a theorem, never as an axiom.

  \<^bold>\<open>Theories.\<close>
  \<^item> \<^verbatim>\<open>Prelude\<close>: Go maps, loops that may panic, strings and numbers as text.
  \<^item> \<^verbatim>\<open>Net_IP\<close>: the package net, with the round trips of printed and parsed addresses.
  \<^item> \<^verbatim>\<open>Api_Types\<close>: API objects, and the locales \<open>change_map\<close> and \<open>change_apply\<close>: the contract
    of a map of pending changes and of applying it, with the client lemmas on streams of events.
  \<^item> \<^verbatim>\<open>Services\<close>, \<^verbatim>\<open>Endpoints\<close>: services.go and endpoints.go with the interpretations \<open>svc\<close> and \<open>ep\<close>
    of these locales; the maps follow the stores, incremental update and rebuild agree, the stale
    connections are exact.
  \<^item> \<^verbatim>\<open>Ipvs\<close>: all of ipvs.go.  \<^verbatim>\<open>Ipvs_Spec\<close>: the locale \<open>ipvs_iface\<close> (what the proxy relies on),
    the locale \<open>ipvs_kernel\<close> (what the kernel promises) and the sublocale that proves the wrapper
    correct.  \<^verbatim>\<open>Ref_Kernel\<close>: a reference kernel that satisfies the laws.
  \<^item> \<^verbatim>\<open>Node_Utils\<close>: ports.go, nodes.go and conntrack.go.
  \<^item> \<^verbatim>\<open>Proxier\<close>: the state, \<^verbatim>\<open>syncProxyRules\<close> with its three phases, and the event handlers.
    \<^verbatim>\<open>Proxier_Sync\<close>: the abstract table \<open>desired_table\<close> and the proof that a whole-rules sync
    reaches it from any kernel state.  \<^verbatim>\<open>Proxier_Incremental\<close>: the incremental phases.
    \<^verbatim>\<open>Proxier_Events\<close>: what a sync keeps, streams of events, initialization.
  \<^item> \<^verbatim>\<open>Coreos_Iptables\<close>: iptables.go and lock.go of go-iptables, and the locale \<open>iptables_tool\<close> of
    what the command does; \<^verbatim>\<open>Ref_Iptables\<close>: a reference command.  \<^verbatim>\<open>Proxier_Setup\<close>: options.go, the
    creation of the proxier, masquerade rules, periodic loop and clean-up.
  \<^item> \<^verbatim>\<open>Proxy_Config\<close>: pkg/proxy/config, from what an informer delivers to the handlers of the proxier (locale
    \<open>object_handler\<close>), and what events before initialization record.  \<^verbatim>\<open>Proxier_Startup\<close>: the first sync of a new
    proxier, which has no previous objects.
  \<^item> \<^verbatim>\<open>Watchers\<close>: pkg/watchers.  \<^verbatim>\<open>App_Server\<close>: app/server.go and kube-enn-proxy.go, the life of the process from
    its options to its exit; \<open>server_step\<close> is one step of its goroutines.  \<^verbatim>\<open>Server_Startup\<close>: what holds of the steps
    before and after both caches are synced, composed in the theorem \<open>startup_reaches_kernel\<close> below.
  \<^item> \<^verbatim>\<open>Server_Convergence\<close>: every sync returns and brings the maps up to date, so that the theorem
    \<open>server_eventually_consistent\<close> below holds for any events after the start.  \<^verbatim>\<open>Server_Invariant\<close>: the reachable states
    \<open>server_reachable\<close> and the locale \<open>server_invariant\<close>, which lifts laws of the proxier to them; the state is
    well-formed and the process does not panic.  \<^verbatim>\<open>Port_Ledger\<close>: the locale \<open>socket_os\<close> of what sockets do, and that
    the sockets held open are those of the ports map.
  \<^item> \<^verbatim>\<open>Options\<close>: the command line flags and the options that they set.
  \<^item> \<^verbatim>\<open>Health_Check\<close>: healthcheck.go with its mutex as a part of the state; the locale \<open>hc_sockets\<close> says what
    listeners do.  Services and listeners stay in step, and a request can leave the mutex locked.
  \<^item> \<^verbatim>\<open>Bounded_Runner\<close>: bounded_frequency_runner.go as the step relation \<open>Loop_step\<close>, with an invariant over
    its reachable states and the locale \<open>bucket_law\<close> for the token bucket; and runner.go.
  \<^item> \<^verbatim>\<open>Iptables_Runner\<close>: iptables.go and iptables_linux.go of pkg/util/iptables, with the locales \<open>iptables_cmd\<close> (what
    the command does to rules) and \<open>lock_laws\<close> (lock files and sockets).  \<^verbatim>\<open>Save_Restore\<close>: save_restore.go, whose index
    scanner is proved equal to a pass over lines.
  \<^item> \<^verbatim>\<open>Dbus\<close>: pkg/util/dbus, the wrapper around godbus and the fake bus, with the locales \<open>dbus_bus\<close>, \<open>godbus_bus\<close> and
    \<open>fake_bus\<close>.  \<^verbatim>\<open>Firewalld\<close>: the signals after which the iptables runner writes its rules again.
  \<^item> \<^verbatim>\<open>Ipvs_Tool\<close>: ipvs-tool.go on the kernel of \<open>ipvs_kernel\<close>.
  \<^item> \<^verbatim>\<open>Version_Util\<close>: version.go.

  \<^bold>\<open>Bounds.\<close>  No definition uses fuel: every loop of the modelled code runs over a finite list,
  and the scanners terminate because their input shrinks or their index grows.  Loops that wait for events take
  the events as a list or step in a relation.  The number of tries before a lock times out is a parameter, and
  the lock theorem holds for every value of it.  Times are integers in nanoseconds.  Ports are 16-bit words in the kernel
  structures and integers in the proxy, version numbers 64-bit words.  \<open>syncable\<close> says which inputs the
  convergence theorems cover (IPv4 addresses, ports below 65536, protocols tcp and udp) and
  \<open>no_conflict\<close> that two service ports do not claim the same virtual address.

  \<^bold>\<open>Not modelled.\<close>  Logging and the texts of the help, which no result depends on; the rate limiter of the proxier, which
  only delays a sync; the hand-written doubles of the unit tests, apart from the fake D-Bus.  What is left of the
  sources are licences, imports, comments, interface declarations and constants.  Goroutines of the proxier run their
  handlers one after the other, as its mutex makes them.
\<close>

section \<open>From an event to the kernel\<close>

lemma updated_endpoints_view:
  assumes "endpoints_pending hostname est est' items" "well_named endpoints_nsn est" "well_named endpoints_nsn est'"
    and "map_of (p_endpointsMap p) = endpoints_view hostname est" and "ecm_Items (p_endpointsChanges p) = items"
    and "p_serviceChanges p = []"
  shows "map_of (p_endpointsMap (updated p ips)) = endpoints_view hostname est'"
    and "p_serviceMap (updated p ips) = p_serviceMap p" and "p_nodeIPs (updated p ips) = ips"
  using UpdateEndpointsMap_view [OF assms(1-3), of "p_endpointsMap p"] assms(4-6) by (simp_all add: updated_def)

text \<open>An endpoints event of an initialized proxier without pending changes: the change is recorded and, unless it is empty, synced.\<close>

lemma endpoints_event_records:
  assumes "isInitialized p" and "p_endpointsChanges p = NewEndpointsChangeMap hostname"
    and "items = fst (EndpointsChangeItems_Update hostname [] n (est n) new)"
    and "q = p\<lparr>p_endpointsChanges := \<lparr>ecm_Hostname = hostname, ecm_Items = items\<rparr>\<rparr>"
  shows "endpoints_event env n (est n) new p w = (if items \<noteq> [] then syncProxyRules env q w else Some (q, w))"
    and "endpoints_pending hostname est (est(n := new)) items"
    and "same_input q p"
proof -
  show "endpoints_event env n (est n) new p w = (if items \<noteq> [] then syncProxyRules env q w else Some (q, w))"
    using assms ep.upd_reports [of hostname "[]" n "est n" new]
    by (simp add: endpoints_event_def EndpointsChangeMap_Update_def NewEndpointsChangeMap_def split_beta isInitialized_def)
  show "endpoints_pending hostname est (est(n := new)) items"
    unfolding assms(3) by (rule ep.pending_upd [OF ep.pending_empty refl])
qed (simp add: assms(4) same_input_def)

text \<open>
  (C5) One endpoints event, end to end.  An initialized proxier has applied the stores, the IPVS
  table is the desired one and nothing is pending.  The event says that the endpoints object of
  some name changed.  The handler returns; afterwards the endpoints map is the view of the new
  store, the IPVS table is the desired one for it, the dummy link is as before and nothing is
  pending again.
\<close>

theorem endpoints_event_reaches_kernel:
  assumes "proxy_os h ok vs bound link net execer recorder" and "ok w"
    and "p_endpointsSynced p" and "p_servicesSynced p" and "isInitialized p"
    and "p_serviceChanges p = []" and "p_endpointsChanges p = NewEndpointsChangeMap hostname"
    and "\<And>w. ok w \<Longrightarrow> GetNodeIPs net (EnnIpvs h) w = Inr (p_nodeIPs p)" and "wf_gomap (p_serviceMap p)"
    and "proxy_table (vs w) = desired_table p" and "map_of (p_endpointsMap p) = endpoints_view hostname est"
    and "well_named endpoints_nsn est" and "well_named endpoints_nsn (est(n := new))"
    and "\<And>em. map_of em = endpoints_view hostname (est(n := new)) \<Longrightarrow>
      syncable (p\<lparr>p_endpointsMap := em\<rparr>) \<and> no_conflict (p\<lparr>p_endpointsMap := em\<rparr>)"
  shows "\<exists>p' w'. endpoints_event (NewProxier_env h net execer recorder rr) n (est n) new p w = Some (p', w') \<and>
    map_of (p_endpointsMap p') = endpoints_view hostname (est(n := new)) \<and>
    proxy_table (vs w') = desired_table p' \<and> bound w' = bound w \<and> ecm_Items (p_endpointsChanges p') = []"
proof -
  let ?env = "NewProxier_env h net execer recorder rr"
  define items where "items = fst (EndpointsChangeItems_Update hostname [] n (est n) new)"
  define q where "q = p\<lparr>p_endpointsChanges := \<lparr>ecm_Hostname = hostname, ecm_Items = items\<rparr>\<rparr>"
  note rec = endpoints_event_records [OF assms(5,7), where n = n and est = est and new = new, OF items_def q_def]
  note ev = rec(1) [of ?env w] and pend = rec(2) and table = same_input_spec(1) [OF rec(3)]
  show ?thesis
  proof (cases "items = []")
    case True
    have "endpoints_view hostname est k = endpoints_view hostname (est(n := new)) k" for k
      using ep.view_unchanged [OF pend] True by simp
    then have "map_of (p_endpointsMap q) = endpoints_view hostname (est(n := new))"
      using assms(11) by (auto simp: q_def)
    with ev True assms(10) table show ?thesis by (simp add: q_def)
  next
    case False
    have q: "p_nodeIPs q = p_nodeIPs p" "p_serviceMap q = p_serviceMap p" by (simp_all add: q_def)
    note u = updated_endpoints_view [OF pend assms(12,13), of q, simplified q_def, simplified, folded q_def,
        OF assms(11) assms(6)]
    let ?u = "updated q (p_nodeIPs q)"
    have same: "same_input ?u (p\<lparr>p_endpointsMap := p_endpointsMap ?u\<rparr>)"
      using u(2,3) q by (simp add: same_input_def)
    have v: "syncable ?u" "no_conflict ?u"
      using same_input_spec(3,4) [OF same] assms(14) [OF u(1)] by auto
    have "\<exists>p' w'. syncProxyRules ?env q w = Some (p', w') \<and> ok w' \<and> proxy_table (vs w') = desired_table ?u \<and>
        bound w' = bound w \<and> same_input p' ?u \<and> ecm_Items (p_endpointsChanges p') = [] \<and> p_portsMap p' = []"
    proof (rule proxy_os.os_endpoints_sync [OF assms(1,2) _ _ _ _ _ _ _ refl v])
      show "proxy_table (vs w) = desired_table q"
        using assms(10) table by simp
    qed (use assms False in \<open>simp_all add: q_def\<close>)
    then obtain p' w' where s: "syncProxyRules ?env q w = Some (p', w')" "proxy_table (vs w') = desired_table ?u"
      "bound w' = bound w" "same_input p' ?u" "ecm_Items (p_endpointsChanges p') = []" by blast
    moreover have "map_of (p_endpointsMap p') = endpoints_view hostname (est(n := new))"
      using s(4) u(1) by (simp add: same_input_def)
    ultimately show ?thesis using ev False same_input_spec(1) [OF s(4)] by auto
  qed
qed

definition ex_local_ep :: "8 word \<Rightarrow> EndpointsInfo" where
  "ex_local_ep b = \<lparr>ei_Ip = dotted [10, 1, 1, b], ei_Port = 8080, ei_IsLocal = True\<rparr>"

definition ex_live :: Proxier where
  "ex_live = ex_moved\<lparr>p_endpointsChanges := NewEndpointsChangeMap ''node1'', p_endpointsMap := [(ex_name, [ex_local_ep 1])]\<rparr>"

lemma ex_ep_view:
  "endpoints_view ''node1'' [ex_ep_nsn \<mapsto> ex_endpoints [dotted [10, 1, 1, b]]] = [ex_name \<mapsto> [ex_local_ep b]]"
proof -
  have "endpointsToEndpointsMap ''node1'' (Some (ex_endpoints [dotted [10, 1, 1, b]])) = Some [(ex_name, [ex_local_ep b])]"
    by (simp add: endpointsToEndpointsMap_def ex_endpoints_def add_subset_def add_addresses_def endpoints_nsn_def
        NewEndpointsInfo_def ex_name_def ex_nsn_def gm_slice_def ex_local_ep_def dotted_def)
  moreover have "endpointsToEndpointsMap ''node1'' None = None" by (simp add: endpointsToEndpointsMap_def)
  moreover have "spn_NamespacedName ex_name = ex_ep_nsn" by (simp add: ex_name_def ex_nsn_def ex_ep_nsn_def)
  ultimately show ?thesis by (auto simp: object_view_def range_map_def fun_eq_iff)
qed

lemma ex_live_table: "desired_table (ex_live\<lparr>p_endpointsMap := [(ex_name, [ex_local_ep b])]\<rparr>) =
    [vip_key ex_info0 80 [10, 0, 0, 1] \<mapsto> ep_val ` set (ex_eps b)]"
  by (simp add: desired_table_def ex_live_def ex_moved_def ex_keys0 eps_vals_def gm_slice_def ep_val_def
      ex_local_ep_def ex_eps_def)

lemma ex_live_valid:
  assumes "map_of em = [ex_name \<mapsto> [ex_local_ep b]]"
  shows "syncable (ex_live\<lparr>p_endpointsMap := em\<rparr>) \<and> no_conflict (ex_live\<lparr>p_endpointsMap := em\<rparr>)"
proof -
  have "list_all is_v4 ex_ips" using ex_syncable(1) by (simp add: syncable_def)
  then have "syncable (ex_live\<lparr>p_endpointsMap := em\<rparr>)"
    by (simp add: syncable_def ex_live_def ex_moved_def ex_info0_def valid_info_def ex_info_def is_v4_def To4_def
        is_port_def is_proto_def gm_slice_def assms valid_val_def ep_val_def ex_local_ep_def dotted_canonical)
  then show ?thesis by (simp add: no_conflict_def ex_live_def ex_moved_def)
qed

theorem endpoints_event_reaches_kernel_witness:
  "\<exists>p' w'. endpoints_event ref_env ex_ep_nsn (Some (ex_endpoints [dotted [10, 1, 1, 1]]))
      (Some (ex_endpoints [dotted [10, 1, 1, 2]])) ex_live ex_synced_world = Some (p', w') \<and>
    map_of (p_endpointsMap p') = [ex_name \<mapsto> [ex_local_ep 2]] \<and> proxy_table (ref_vs w') = desired_table p'"
proof -
  let ?est = "[ex_ep_nsn \<mapsto> ex_endpoints [dotted [10, 1, 1, 1]]]" and ?new = "Some (ex_endpoints [dotted [10, 1, 1, 2]])"
  have upd: "?est(ex_ep_nsn := ?new) = [ex_ep_nsn \<mapsto> ex_endpoints [dotted [10, 1, 1, 2]]]" by simp
  have n: "p_nodeIPs ex_live = ex_ips" by (simp add: ex_live_def ex_moved_def)
  have live: "ex_live\<lparr>p_endpointsMap := [(ex_name, [ex_local_ep 1])]\<rparr> = ex_live" by (simp add: ex_live_def)
  have "\<exists>p' w'. endpoints_event ref_env ex_ep_nsn (?est ex_ep_nsn) ?new ex_live ex_synced_world = Some (p', w') \<and>
    map_of (p_endpointsMap p') = endpoints_view ''node1'' (?est(ex_ep_nsn := ?new)) \<and>
    proxy_table (ref_vs w') = desired_table p' \<and> ref_bound w' = ref_bound ex_synced_world \<and>
    ecm_Items (p_endpointsChanges p') = []"
    unfolding ref_env_def
  proof (rule endpoints_event_reaches_kernel [OF refos.proxy_os_axioms ex_synced_ok])
    show "GetNodeIPs ref_netio (EnnIpvs ref_libnet) w = Inr (p_nodeIPs ex_live)" for w
      unfolding n by (rule ex_node_ips)
    show "proxy_table (ref_vs ex_synced_world) = desired_table ex_live"
      using ex_live_table [of 1] unfolding live ex_synced_table by simp
    show "syncable (ex_live\<lparr>p_endpointsMap := em\<rparr>) \<and> no_conflict (ex_live\<lparr>p_endpointsMap := em\<rparr>)"
      if "map_of em = endpoints_view ''node1'' (?est(ex_ep_nsn := ?new))" for em
      using that unfolding upd ex_ep_view by (rule ex_live_valid)
    show "map_of (p_endpointsMap ex_live) = endpoints_view ''node1'' ?est"
      unfolding ex_ep_view by (simp add: ex_live_def)
    show "well_named endpoints_nsn (?est(ex_ep_nsn := ?new))" "well_named endpoints_nsn ?est"
      by (simp_all add: well_named_def)
  qed (simp_all add: ex_live_def ex_moved_def ex_proxier_def isInitialized_def)
  then show ?thesis unfolding upd ex_ep_view by auto
qed


text \<open>A service with one port, and its endpoints, announced in the other order.\<close>

definition ex_web :: api_Service where
  "ex_web = (ex_service 0)\<lparr>as_ClusterIP := dotted [10, 0, 0, 1],
     as_Ports := [\<lparr>sp_Name = ''http'', sp_Protocol = ''TCP'', sp_Port = 80, sp_NodePort = 0\<rparr>]\<rparr>"

definition ex_web_info :: ServiceInfo where
  "ex_web_info = ex_info0\<lparr>si_ClusterIP := v4InV6Prefix @ [10, 0, 0, 1]\<rparr>"

definition ex_events :: "server_event list" where
  "ex_events = [Ev_Endpoints (Added (ex_endpoints [dotted [10, 1, 1, 1]])), Ev_Tick, Ev_EndpointsSynced, Ev_Service (Added ex_web)]"

definition ex_empty_world :: kworld where
  "ex_empty_world = \<lparr>kw_svcs = [], kw_addrs = [], kw_link = False\<rparr>"

lemma ex_web_view: "service_view [ex_nsn \<mapsto> ex_web] = [ex_name \<mapsto> ex_web_info]"
proof -
  have d: "dotted [10, 0, 0, 1] \<noteq> ''None''" "dotted [10, 0, 0, 1] \<noteq> []"
    by (simp_all add: dotted_def show_nat.simps)
  have "serviceToServiceMap (Some ex_web) = Some [(ex_name, ex_web_info)]"
    by (simp add: serviceToServiceMap_def ex_web_def ex_service_def ShouldSkipService_def IsServiceIPSet_def d
        add_service_ports_def service_nsn_def ex_name_def ex_nsn_def NewServiceInfo_def ex_web_info_def ex_info0_def
        ex_info_def ParseIP_dotted ToLower_def lower_char_def char_of_def bit_0 bit_Suc)
  moreover have "serviceToServiceMap None = None" by (simp add: serviceToServiceMap_def)
  moreover have "spn_NamespacedName ex_name = ex_nsn" by (simp add: ex_name_def)
  ultimately show ?thesis by (auto simp: object_view_def range_map_def fun_eq_iff)
qed

lemma ex_web_valid:
  assumes "wf_gomap (p_serviceMap q)" and "map_of (p_serviceMap q) \<in> {Map.empty, [ex_name \<mapsto> ex_web_info]}"
    and "map_of (p_endpointsMap q) \<in> {Map.empty, [ex_name \<mapsto> [ex_local_ep b]]}" and "p_nodeIPs q = ex_ips"
  shows "syncable q \<and> no_conflict q"
proof -
  have s: "set (p_serviceMap q) \<subseteq> {(ex_name, ex_web_info)}"
    using wf_gomap_set_eq [OF assms(1), of "[(ex_name, ex_web_info)]"] assms(2) by auto
  have "list_all is_v4 ex_ips" using ex_syncable(1) by (simp add: syncable_def)
  moreover have "is_v4 (v4InV6Prefix @ [10, 0, 0, 1])" by (simp add: is_v4_def To4_def v4InV6Prefix_def)
  moreover have "\<forall>e \<in> set (gm_slice (p_endpointsMap q) ex_name). valid_val (ep_val e)"
    using assms(3) by (auto simp: gm_slice_def valid_val_def ep_val_def ex_local_ep_def dotted_canonical is_port_def)
  moreover have "valid_info ex_web_info = is_v4 (v4InV6Prefix @ [10, 0, 0, 1])"
    by (simp add: ex_web_info_def ex_info0_def ex_info_def valid_info_def is_port_def is_proto_def)
  ultimately show ?thesis
    using s assms(4) by (auto simp: syncable_def no_conflict_def list_all_iff subset_singleton_iff)
qed


lemma ex_web_stores:
  assumes "sst \<in> {Map.empty, [ex_nsn \<mapsto> ex_web]}" and "est \<in> {Map.empty, [ex_ep_nsn \<mapsto> ex_endpoints [dotted [10, 1, 1, b]]]}"
  shows "valid_stores ex_ips ''node1'' sst est"
  unfolding valid_stores_def
  by (intro allI impI ex_web_valid [of _ b]) (use assms in \<open>auto simp: empty_views ex_web_view ex_ep_view\<close>)

lemma ex_loaded_os: "proxy_os ref_libnet ref_ok ref_vs ref_bound ref_link ref_netio ex_loaded ref_recorder"
  by unfold_locales (auto simp: ref_netio_def ex_loaded_def ref_recorder_def)

lemma ex_loaded_ports_free: "ports_free ref_ok (NewProxier_env ref_libnet ref_netio ex_loaded ref_recorder ''rr'')"
  by (auto simp: ports_free_def NewProxier_env_def openLocalPort_def ref_netio_def Let_def is_proto_def)



text \<open>
  The kernel starts with another virtual server; after both signals the endpoints of the service are deleted and come
  back.
\<close>

definition ex_more_events :: "server_event list" where
  "ex_more_events = ex_events @ [Ev_ServicesSynced, Ev_Endpoints (Deleted (ex_endpoints [dotted [10, 1, 1, 1]])),
     Ev_Tick, Ev_Endpoints (Added (ex_endpoints [dotted [10, 1, 1, 1]]))]"


end
